(* ===== verification/Prelude.thy ===== *)
theory Prelude
  imports Main "HOL-Library.Word"
begin

unbundle bit_operations_syntax

text \<open>
  Shared vocabulary of the development: the machine integer types of the Rust sources, byte
  strings, outcomes that may panic, the integer operations of the Rust standard library the
  sources call (\<open>saturating_sub\<close>, \<open>to_be_bytes\<close>, \<open>from_be_bytes\<close>), the rendering of numbers
  into messages, and a generic transition system with its invariant rule. The collections
  \<open>codec_simps\<close>, \<open>stream_simps\<close> and \<open>wf_intros\<close> are filled by the component theories.
\<close>

named_theorems codec_simps "unfolding rules for the frame codec"
named_theorems stream_simps "unfolding rules for byte streams"
named_theorems wf_intros "well-formedness is kept by an operation"

section \<open>Machine integers and byte strings\<close>

type_synonym u8 = "8 word"
type_synonym u16 = "16 word"
type_synonym u32 = "32 word"
type_synonym u64 = "64 word"
type_synonym bytes = "u8 list"

text \<open>The release profile of both crates wraps on overflow, which is what \<open>+\<close> on words does.\<close>

definition saturating_sub :: "u64 \<Rightarrow> u64 \<Rightarrow> u64" where
  "saturating_sub a b = (if b \<le> a then a - b else 0)"

lemma unat_saturating_sub [simp]: "unat (saturating_sub a b) = unat a - unat b"
  by (simp add: saturating_sub_def unat_sub word_le_nat_alt)

lemma saturating_sub_le: "saturating_sub a b \<le> a"
  by (simp add: word_le_nat_alt)

lemma saturating_sub_mono: "a \<le> c \<Longrightarrow> saturating_sub a b \<le> saturating_sub c b"
  by (simp add: word_le_nat_alt)

lemma unat_u8_less [simp]: "unat (b :: u8) < 256"
  using unsigned_less [where w = b and ?'a = nat] by simp

text \<open>Big-endian encodings, as \<open>BytesMut::put_u16\<close>, \<open>put_u32\<close> and \<open>from_be_bytes\<close> lay them out.\<close>

definition be16 :: "u16 \<Rightarrow> bytes" where
  "be16 w = [ucast (drop_bit 8 w), ucast w]"

definition from_be16 :: "u8 \<Rightarrow> u8 \<Rightarrow> u16" where
  "from_be16 a b = push_bit 8 (ucast a) OR ucast b"

definition be32 :: "u32 \<Rightarrow> bytes" where
  "be32 w = [ucast (drop_bit 24 w), ucast (drop_bit 16 w), ucast (drop_bit 8 w), ucast w]"

definition from_be32 :: "u8 \<Rightarrow> u8 \<Rightarrow> u8 \<Rightarrow> u8 \<Rightarrow> u32" where
  "from_be32 a b c d =
     push_bit 24 (ucast a) OR push_bit 16 (ucast b) OR push_bit 8 (ucast c) OR ucast d"

lemma length_be16 [simp]: "length (be16 w) = 2"
  by (simp add: be16_def)

lemma length_be32 [simp]: "length (be32 w) = 4"
  by (simp add: be32_def)

lemma from_be16_be16 [simp]: "from_be16 (be16 w ! 0) (be16 w ! 1) = w"
proof (rule bit_word_eqI)
  fix n assume "n < LENGTH(16)"
  then show "bit (from_be16 (be16 w ! 0) (be16 w ! 1)) n \<longleftrightarrow> bit w n"
    by (auto simp: from_be16_def be16_def bit_simps)
qed

lemma from_be32_be32 [simp]:
  "from_be32 (be32 w ! 0) (be32 w ! 1) (be32 w ! 2) (be32 w ! 3) = w"
proof (rule bit_word_eqI)
  fix n assume "n < LENGTH(32)"
  then show "bit (from_be32 (be32 w ! 0) (be32 w ! 1) (be32 w ! 2) (be32 w ! 3)) n \<longleftrightarrow> bit w n"
    by (cases "n < 8"; cases "n < 16"; cases "n < 24")
      (auto simp: from_be32_def be32_def bit_simps)
qed

lemma be32_inject [simp]: "be32 v = be32 w \<longleftrightarrow> v = w"
  by (metis from_be32_be32)

section \<open>Panics, text and numbers\<close>

text \<open>
  A Rust function that can panic (an index out of range, a slice off a character boundary)
  returns \<open>Panic\<close> in the model. Text is a \<open>string\<close> where it is only shown, and its UTF-8 bytes
  where the code measures, slices or transmits it.
\<close>

datatype 'a outcome = Ret 'a | Panic

definition bytes_of :: "string \<Rightarrow> bytes" where
  "bytes_of s = map of_char s"

definition string_of :: "bytes \<Rightarrow> string" where
  "string_of bs = map (\<lambda>b. char_of (unat b)) bs"

lemma length_bytes_of [simp]: "length (bytes_of s) = length s"
  by (simp add: bytes_of_def)

lemma bytes_of_append [simp]: "bytes_of (s @ t) = bytes_of s @ bytes_of t"
  by (simp add: bytes_of_def)

lemma unat_of_char [simp]: "unat (of_char c :: u8) = of_char c"
proof -
  have "unat (of_char c :: u8) = unat (of_nat (of_char c :: nat) :: u8)"
    by (simp only: of_nat_of_char)
  also have "\<dots> = of_char c"
    by (simp only: unat_of_nat) simp
  finally show ?thesis .
qed

lemma string_of_bytes_of [simp]: "string_of (bytes_of s) = s"
  by (simp add: string_of_def bytes_of_def o_def)

lemma bytes_of_inject [simp]: "bytes_of s = bytes_of t \<longleftrightarrow> s = t"
  by (metis string_of_bytes_of)

text \<open>Decimal and two-digit hexadecimal rendering, as \<open>{}\<close> and \<open>{:02X}\<close> print an integer.\<close>

fun show_nat :: "nat \<Rightarrow> string" where
  "show_nat n = (if n < 10 then [char_of (48 + n)]
     else show_nat (n div 10) @ [char_of (48 + n mod 10)])"

declare show_nat.simps [simp del]

lemma show_nat_nonempty: "show_nat n \<noteq> []"
  by (subst show_nat.simps) simp

definition hex_digit_upper :: "nat \<Rightarrow> char" where
  "hex_digit_upper n = char_of (if n < 10 then 48 + n else 55 + n)"

definition show_hex2 :: "u8 \<Rightarrow> string" where
  "show_hex2 b = [hex_digit_upper (unat b div 16), hex_digit_upper (unat b mod 16)]"

section \<open>Runs and invariants\<close>

text \<open>
  A component with a deterministic step per operation is run by \<open>foldl\<close>. A locale names the
  contract every such component discharges once (one step keeps the invariant) and gives what
  all of them need (a whole run keeps it, a fact of each state along the run).
\<close>

locale op_system =
  fixes exec :: "'s \<Rightarrow> 'op \<Rightarrow> 's"
    and inv :: "'s \<Rightarrow> bool"
  assumes exec_inv: "inv s \<Longrightarrow> inv (exec s x)"
begin

lemma run_inv: "inv s \<Longrightarrow> inv (foldl exec s xs)"
  by (induction xs arbitrary: s) (auto intro: exec_inv)

lemma run_take_inv: "inv s \<Longrightarrow> inv (foldl exec s (take n xs))"
  by (rule run_inv)

lemma run_mono:
  assumes le: "\<And>s x. inv s \<Longrightarrow> (m s :: 'm :: order) \<le> m (exec s x)"
  shows "inv s \<Longrightarrow> m s \<le> m (foldl exec s xs)"
proof (induction xs arbitrary: s)
  case (Cons x xs)
  have "m s \<le> m (exec s x)" using Cons.prems by (rule le)
  also have "\<dots> \<le> m (foldl exec (exec s x) xs)"
    using Cons.prems by (intro Cons.IH exec_inv)
  finally show ?case by simp
qed simp

end

text \<open>The same contract for a step relation, with its reachable states.\<close>

inductive reach :: "('s \<Rightarrow> bool) \<Rightarrow> ('s \<Rightarrow> 's \<Rightarrow> bool) \<Rightarrow> 's \<Rightarrow> bool"
  for init :: "'s \<Rightarrow> bool" and step :: "'s \<Rightarrow> 's \<Rightarrow> bool" where
  reach_init: "init s \<Longrightarrow> reach init step s"
| reach_step: "reach init step s \<Longrightarrow> step s t \<Longrightarrow> reach init step t"

locale step_system =
  fixes init :: "'s \<Rightarrow> bool"
    and step :: "'s \<Rightarrow> 's \<Rightarrow> bool"
    and sinv :: "'s \<Rightarrow> bool"
  assumes init_sinv: "init s \<Longrightarrow> sinv s"
    and step_sinv: "sinv s \<Longrightarrow> step s t \<Longrightarrow> sinv t"
begin

lemma reach_sinv: "reach init step s \<Longrightarrow> sinv s"
  by (induction rule: reach.induct) (auto intro: init_sinv step_sinv)

end

text \<open>
  A refinement map: every step of a detailed system is a step of an abstract one or leaves its
  image alone, so the image of a reachable state is reachable in the abstract system.
\<close>

locale refinement_map = step_system init step sinv
  for init :: "'s \<Rightarrow> bool" and step :: "'s \<Rightarrow> 's \<Rightarrow> bool" and sinv :: "'s \<Rightarrow> bool" +
  fixes ainit :: "'a \<Rightarrow> bool"
    and astep :: "'a \<Rightarrow> 'a \<Rightarrow> bool"
    and amap :: "'s \<Rightarrow> 'a"
  assumes init_map: "init s \<Longrightarrow> ainit (amap s)"
    and step_map: "sinv s \<Longrightarrow> step s t \<Longrightarrow> amap t = amap s \<or> astep (amap s) (amap t)"
begin

lemma reach_amap: "reach init step s \<Longrightarrow> reach ainit astep (amap s)"
proof (induction rule: reach.induct)
  case (reach_init s)
  then show ?case by (intro reach.reach_init init_map)
next
  case (reach_step s t)
  from step_map [OF reach_sinv [OF reach_step(1)] reach_step(2)] show ?case
    using reach_step.IH by (auto intro: reach.reach_step)
qed

end

end
