(* ===== verification/Transport_Error.thy ===== *)
theory Transport_Error
  imports Prelude
begin

text \<open>
  The error type of \<open>transport-core/src/error.rs\<close> with the messages its \<open>#[error(...)]\<close>
  attributes define. An I/O error carries the kind the relays inspect and the message of the
  operating system or of tokio; a TLS error carries the message of rustls.
\<close>

datatype io_kind = UnexpectedEof | ConnectionRefused | ConnectionReset | BrokenPipe | WriteZero | OtherKind

datatype io_error = IoError (io_kind: io_kind) (io_msg: string)

datatype transport_error =
    Io io_error
  | Tls string
  | InvalidHost string
  | Protocol string
  | ConnectionClosed
  | Crypto string
  | FrameTooLarge nat nat
  | ReplayDetected u64
  | RekeyNeeded u64 u64
  | AuthFailed
  | UnknownKeyId u8
  | Session string

fun error_display :: "transport_error \<Rightarrow> string" where
  "error_display (Io e) = ''I/O error: '' @ io_msg e"
| "error_display (Tls m) = ''TLS error: '' @ m"
| "error_display (InvalidHost h) = ''Invalid host: '' @ h"
| "error_display (Protocol m) = ''Protocol framing error: '' @ m"
| "error_display ConnectionClosed = ''Connection closed by peer''"
| "error_display (Crypto m) = ''Crypto error: '' @ m"
| "error_display (FrameTooLarge n m) =
     ''Frame too large: '' @ show_nat n @ '' bytes (max '' @ show_nat m @ '')''"
| "error_display (ReplayDetected c) =
     ''Replay detected: counter '' @ show_nat (unat c) @ '' already seen''"
| "error_display (RekeyNeeded c t) =
     ''Rekey needed: counter '' @ show_nat (unat c) @ '' reached threshold '' @ show_nat (unat t)"
| "error_display AuthFailed = ''Authentication failed''"
| "error_display (UnknownKeyId k) = ''Unknown key id: '' @ show_nat (unat k)"
| "error_display (Session m) = ''Session error: '' @ m"

end
