(* ===== verification/Streams.thy ===== *)
theory Streams
  imports Transport_Error
begin

text \<open>
  Byte streams as the sources use them through \<open>AsyncReadExt::read_exact\<close>,
  \<open>AsyncWriteExt::write_all\<close> and \<open>flush\<close>. A reader is the bytes that still arrive and the
  error the stream ends with; a writer is what it has transmitted, how much more it accepts
  before it fails (\<open>None\<close>: it never fails) and whether a flush succeeds.
\<close>

record reader =
  rbuf :: bytes
  rend :: io_error

record writer =
  wbuf :: bytes
  wroom :: "nat option"
  wflush :: bool

definition early_eof :: io_error where
  "early_eof = IoError UnexpectedEof ''early eof''"

definition write_zero :: io_error where
  "write_zero = IoError WriteZero ''failed to write whole buffer''"

definition flush_failed :: io_error where
  "flush_failed = IoError BrokenPipe ''broken pipe''"

text \<open>A short read consumes what there was, as the buffer it was copied to is dropped.\<close>

definition read_exact :: "nat \<Rightarrow> reader \<Rightarrow> reader \<times> (io_error + bytes)" where
  "read_exact n r =
     (if n \<le> length (rbuf r) then (r\<lparr>rbuf := drop n (rbuf r)\<rparr>, Inr (take n (rbuf r)))
      else (r\<lparr>rbuf := []\<rparr>, Inl (rend r)))"

definition write_all :: "bytes \<Rightarrow> writer \<Rightarrow> writer \<times> (io_error + unit)" where
  "write_all bs w =
     (case wroom w of
        None \<Rightarrow> (w\<lparr>wbuf := wbuf w @ bs\<rparr>, Inr ())
      | Some k \<Rightarrow>
          if length bs \<le> k then (w\<lparr>wbuf := wbuf w @ bs, wroom := Some (k - length bs)\<rparr>, Inr ())
          else (w\<lparr>wbuf := wbuf w @ take k bs, wroom := Some 0\<rparr>, Inl write_zero))"

definition flush :: "writer \<Rightarrow> writer \<times> (io_error + unit)" where
  "flush w = (w, if wflush w then Inr () else Inl flush_failed)"

definition healthy :: "writer \<Rightarrow> bool" where
  "healthy w \<longleftrightarrow> wroom w = None \<and> wflush w"

text \<open>In-memory streams: the cursors and vectors the tests read from and write to.\<close>

definition cursor :: "bytes \<Rightarrow> reader" where
  "cursor bs = \<lparr>rbuf = bs, rend = early_eof\<rparr>"

definition vec_writer :: writer where
  "vec_writer = \<lparr>wbuf = [], wroom = None, wflush = True\<rparr>"

lemma read_exact_append [stream_simps]:
  "length xs = n \<Longrightarrow> rbuf r = xs @ ys \<Longrightarrow> read_exact n r = (r\<lparr>rbuf := ys\<rparr>, Inr xs)"
  by (simp add: read_exact_def)

lemma read_exact_short:
  "length (rbuf r) < n \<Longrightarrow> read_exact n r = (r\<lparr>rbuf := []\<rparr>, Inl (rend r))"
  by (simp add: read_exact_def)

lemma read_exact_InrD:
  "read_exact n r = (r', Inr xs) \<Longrightarrow> length xs = n \<and> rbuf r = xs @ rbuf r' \<and> rend r' = rend r"
  by (auto simp: read_exact_def split: if_splits)

lemma write_all_healthy [stream_simps]:
  "healthy w \<Longrightarrow> write_all bs w = (w\<lparr>wbuf := wbuf w @ bs\<rparr>, Inr ())"
  by (simp add: healthy_def write_all_def)

lemma flush_healthy [stream_simps]: "healthy w \<Longrightarrow> flush w = (w, Inr ())"
  by (simp add: healthy_def flush_def)

lemma healthy_wbuf [simp]: "healthy (w\<lparr>wbuf := bs\<rparr>) = healthy w"
  by (simp add: healthy_def)

lemma healthy_vec_writer [simp]: "healthy vec_writer"
  by (simp add: healthy_def vec_writer_def)

lemma write_all_prefix: "\<exists>n. wbuf (fst (write_all bs w)) = wbuf w @ take n bs"
  by (auto simp: write_all_def split: option.splits intro: exI [of _ "length bs"])

lemma write_all_InrD:
  "write_all bs w = (w', Inr ()) \<Longrightarrow> wbuf w' = wbuf w @ bs \<and> wflush w' = wflush w"
  by (auto simp: write_all_def split: option.splits if_splits)

section \<open>Connections and early returns\<close>

text \<open>
  A connection is a reader and a writer. A fallible computation on a state returns the state and
  an error or a value; \<open>bindE\<close> is the question mark of the sources: it runs the rest only on a
  value and returns the error otherwise.
\<close>

record conn =
  inp :: reader
  out :: writer

type_synonym ('s, 'a) io = "'s \<Rightarrow> 's \<times> (transport_error + 'a)"

definition bindE :: "('s, 'a) io \<Rightarrow> ('a \<Rightarrow> ('s, 'b) io) \<Rightarrow> ('s, 'b) io" where
  "bindE m f s = (case m s of (s', Inl e) \<Rightarrow> (s', Inl e) | (s', Inr x) \<Rightarrow> f x s')"

definition failE :: "transport_error \<Rightarrow> ('s, 'a) io" where
  "failE e s = (s, Inl e)"

definition retE :: "'a \<Rightarrow> ('s, 'a) io" where
  "retE x s = (s, Inr x)"

definition sock_read :: "nat \<Rightarrow> (conn, bytes) io" where
  "sock_read n c = (case read_exact n (inp c) of
     (r, Inl e) \<Rightarrow> (c\<lparr>inp := r\<rparr>, Inl (Io e)) | (r, Inr bs) \<Rightarrow> (c\<lparr>inp := r\<rparr>, Inr bs))"

definition sock_write :: "bytes \<Rightarrow> (conn, unit) io" where
  "sock_write bs c = (case write_all bs (out c) of
     (w, Inl e) \<Rightarrow> (c\<lparr>out := w\<rparr>, Inl (Io e)) | (w, Inr _) \<Rightarrow> (c\<lparr>out := w\<rparr>, Inr ()))"

lemma sock_read_append:
  "rbuf (inp c) = xs @ ys \<Longrightarrow> length xs = n \<Longrightarrow> sock_read n c = (c\<lparr>inp := (inp c)\<lparr>rbuf := ys\<rparr>\<rparr>, Inr xs)"
  by (simp add: sock_read_def read_exact_append)

lemma sock_write_healthy [stream_simps]:
  "healthy (out c) \<Longrightarrow> sock_write bs c = (c\<lparr>out := (out c)\<lparr>wbuf := wbuf (out c) @ bs\<rparr>\<rparr>, Inr ())"
  by (simp add: sock_write_def write_all_healthy)

lemma bindE_Inr [stream_simps]: "m s = (s', Inr x) \<Longrightarrow> bindE m f s = f x s'"
  by (simp add: bindE_def)

lemma bindE_Inl [stream_simps]: "m s = (s', Inl e) \<Longrightarrow> bindE m f s = (s', Inl e)"
  by (simp add: bindE_def)

end
