(* ===== verification/Replay.thy ===== *)
theory Replay
  imports Prelude
begin

text \<open>
  The replay window of \<open>transport-core/src/replay.rs\<close>: a sliding window over frame counters.
  The set \<open>seen\<close> is the \<open>HashSet\<close>; \<open>max_counter\<close> and \<open>window_base\<close> are the fields of the same
  name. The abstract specification keeps the whole history of accepted counters, and the
  bounded window is shown to decide exactly as it does.
\<close>

section \<open>The window\<close>

record replay_window =
  window_size :: u64
  window_base :: u64
  seen :: "u64 set"
  max_counter :: "u64 option"

definition replay_new :: "u64 \<Rightarrow> replay_window" where
  "replay_new n = \<lparr>window_size = n, window_base = 0, seen = {}, max_counter = None\<rparr>"

definition replay_check :: "replay_window \<Rightarrow> u64 \<Rightarrow> replay_window \<times> bool" where
  "replay_check w counter =
     (case max_counter w of
        None \<Rightarrow>
          (w\<lparr>max_counter := Some counter,
             window_base := saturating_sub counter (window_size w),
             seen := insert counter (seen w)\<rparr>, True)
      | Some mx \<Rightarrow>
          if counter > mx then
            let new_base = saturating_sub counter (window_size w);
                w1 = (if new_base > window_base w
                      then w\<lparr>seen := Set.filter (\<lambda>c. c \<ge> new_base) (seen w), window_base := new_base\<rparr>
                      else w)
            in (w1\<lparr>max_counter := Some counter, seen := insert counter (seen w1)\<rparr>, True)
          else if counter \<ge> window_base w then
            if counter \<in> seen w then (w, False)
            else (w\<lparr>seen := insert counter (seen w)\<rparr>, True)
          else (w, False))"

definition current_max :: "replay_window \<Rightarrow> u64" where
  "current_max w = (case max_counter w of None \<Rightarrow> 0 | Some m \<Rightarrow> m)"

text \<open>The window is well formed when it lies between its base and its maximum.\<close>

definition replay_wf :: "replay_window \<Rightarrow> bool" where
  "replay_wf w \<longleftrightarrow>
     (case max_counter w of
        None \<Rightarrow> seen w = {}
      | Some m \<Rightarrow> m \<in> seen w \<and> seen w \<subseteq> {window_base w..m}
                  \<and> window_base w = saturating_sub m (window_size w))"

lemma replay_wf_new [simp, wf_intros]: "replay_wf (replay_new n)"
  by (simp add: replay_wf_def replay_new_def)

lemma replay_check_size [simp]: "window_size (fst (replay_check w c)) = window_size w"
  by (simp add: replay_check_def Let_def split: option.split)

lemma replay_check_wf [wf_intros]:
  assumes "replay_wf w"
  shows "replay_wf (fst (replay_check w c))"
proof (cases "max_counter w")
  case None
  with assms show ?thesis
    by (simp add: replay_wf_def replay_check_def saturating_sub_le)
next
  case (Some m)
  have base: "m < c \<Longrightarrow> window_base w \<le> saturating_sub c (window_size w)"
    using assms Some by (simp add: replay_wf_def saturating_sub_mono)
  have bounds: "x \<in> seen w \<Longrightarrow> window_base w \<le> x \<and> x \<le> m" for x
    using assms Some by (auto simp: replay_wf_def)
  from assms Some base bounds show ?thesis
    by (fastforce simp: replay_wf_def replay_check_def Let_def saturating_sub_le)
qed

text \<open>An advance of the window, both inner branches of the source at once.\<close>

lemma replay_check_advance:
  assumes "replay_wf w" and "max_counter w = Some m" and "m < c"
  shows "replay_check w c =
    (w\<lparr>window_base := saturating_sub c (window_size w), max_counter := Some c,
       seen := insert c {x \<in> seen w. saturating_sub c (window_size w) \<le> x}\<rparr>, True)"
proof -
  let ?b = "saturating_sub c (window_size w)"
  have le: "window_base w \<le> ?b"
    using assms by (simp add: replay_wf_def saturating_sub_mono)
  show ?thesis
  proof (cases "window_base w < ?b")
    case True
    with assms show ?thesis by (simp add: replay_check_def Let_def)
  next
    case False
    with le have eq: "?b = window_base w" by simp
    have "{x \<in> seen w. ?b \<le> x} = seen w"
      using assms unfolding eq by (auto simp: replay_wf_def)
    then show ?thesis using assms eq by (simp add: replay_check_def Let_def)
  qed
qed

lemma replay_check_within:
  "max_counter w = Some m \<Longrightarrow> c \<le> m \<Longrightarrow> window_base w \<le> c \<Longrightarrow> c \<notin> seen w \<Longrightarrow>
   replay_check w c = (w\<lparr>seen := insert c (seen w)\<rparr>, True)"
  by (simp add: replay_check_def leD)

lemma replay_check_reject:
  "max_counter w = Some m \<Longrightarrow> c \<le> m \<Longrightarrow> c < window_base w \<or> c \<in> seen w \<Longrightarrow>
   replay_check w c = (w, False)"
  by (auto simp: replay_check_def leD)

section \<open>The unbounded history as specification\<close>

text \<open>
  What the window promises, stated over the full set \<open>H\<close> of counters accepted so far: accept a
  counter above all of them, or one that is new and no further than the window size below the
  largest.
\<close>

definition spec_accepts :: "u64 \<Rightarrow> u64 set \<Rightarrow> u64 \<Rightarrow> bool" where
  "spec_accepts n H c \<longleftrightarrow> H = {} \<or> Max H < c \<or> (saturating_sub (Max H) n \<le> c \<and> c \<notin> H)"

definition spec_check :: "u64 \<Rightarrow> u64 set \<Rightarrow> u64 \<Rightarrow> u64 set \<times> bool" where
  "spec_check n H c = (if spec_accepts n H c then (insert c H, True) else (H, False))"

fun accepted_by :: "('w \<Rightarrow> u64 \<Rightarrow> 'w \<times> bool) \<Rightarrow> 'w \<Rightarrow> u64 list \<Rightarrow> u64 list" where
  "accepted_by chk w [] = []"
| "accepted_by chk w (c # cs) =
     (case chk w c of (w', b) \<Rightarrow> (if b then [c] else []) @ accepted_by chk w' cs)"

text \<open>The window that a history \<open>H\<close> leaves behind.\<close>

definition replay_abs :: "u64 \<Rightarrow> replay_window \<Rightarrow> u64 set \<Rightarrow> bool" where
  "replay_abs n w H \<longleftrightarrow> window_size w = n \<and> replay_wf w \<and>
     (case max_counter w of
        None \<Rightarrow> H = {}
      | Some m \<Rightarrow> H \<noteq> {} \<and> m = Max H \<and> seen w = {c \<in> H. window_base w \<le> c})"

lemma replay_abs_new: "replay_abs n (replay_new n) {}"
  by (simp add: replay_abs_def replay_new_def replay_wf_def)

lemma Max_insert_u64:
  assumes "(H :: u64 set) \<noteq> {}"
  shows "Max (insert c H) = (if Max H < c then c else Max H)"
proof -
  have "Max (insert c H) = max c (Max H)" using assms by (intro Max_insert) auto
  then show ?thesis by (auto simp: max_def simp del: Max_less_iff Max_ge_iff)
qed

lemma replay_check_refines:
  assumes abs: "replay_abs n w H"
  shows "snd (replay_check w c) = spec_accepts n H c"
    and "replay_abs n (fst (replay_check w c)) (fst (spec_check n H c))"
proof -
  have wf: "replay_wf w" and size: "window_size w = n"
    using abs by (auto simp: replay_abs_def)
  have wf': "replay_wf (fst (replay_check w c))" by (rule replay_check_wf [OF wf])
  show "snd (replay_check w c) = spec_accepts n H c"
    using abs by (auto simp: replay_abs_def replay_wf_def replay_check_def spec_accepts_def Let_def
        split: option.splits)
  show "replay_abs n (fst (replay_check w c)) (fst (spec_check n H c))"
  proof (cases "max_counter w")
    case None
    with abs wf' size show ?thesis
      by (auto simp: replay_abs_def replay_check_def spec_check_def spec_accepts_def
          replay_wf_def saturating_sub_le)
  next
    case (Some m)
    then have H: "H \<noteq> {}" "Max H = m" "seen w = {c \<in> H. window_base w \<le> c}"
      "window_base w = saturating_sub m n"
      using abs wf size by (auto simp: replay_abs_def replay_wf_def)
    have mono: "m < c \<Longrightarrow> saturating_sub m n \<le> saturating_sub c n"
      by (simp add: saturating_sub_mono)
    consider "m < c" | "c \<le> m" "saturating_sub m n \<le> c" "c \<notin> H"
      | "c \<le> m" "\<not> (saturating_sub m n \<le> c \<and> c \<notin> H)" by (meson linorder_not_le)
    then show ?thesis
    proof cases
      case 1
      then have "spec_accepts n H c" and "Max (insert c H) = c"
        using H(2) by (simp_all only: spec_accepts_def Max_insert_u64 [OF H(1)] if_True simp_thms)
      moreover have "insert c {x \<in> seen w. saturating_sub c n \<le> x}
          = {x \<in> insert c H. saturating_sub c n \<le> x}"
        unfolding H(3,4) using order_trans [OF mono [OF 1]] saturating_sub_le [of c n] by blast
      ultimately show ?thesis using wf' size H(1) replay_check_advance [OF wf Some 1]
        by (simp add: replay_abs_def spec_check_def)
    next
      case 2
      then have "spec_accepts n H c" and "Max (insert c H) = m"
        using H(2) by (simp_all only: spec_accepts_def Max_insert_u64 [OF H(1)] leD if_False simp_thms)
      moreover have "replay_check w c = (w\<lparr>seen := insert c (seen w)\<rparr>, True)"
        using 2 H(3,4) by (intro replay_check_within [OF Some]) simp_all
      moreover have "insert c (seen w) = {x \<in> insert c H. window_base w \<le> x}"
        unfolding H(3,4) using 2 by blast
      ultimately show ?thesis using wf' size H(1,2) Some
        by (simp add: replay_abs_def spec_check_def)
    next
      case 3
      then have "\<not> spec_accepts n H c"
        using H(1,2) by (simp only: spec_accepts_def leD simp_thms)
      moreover have "c < window_base w \<or> c \<in> seen w"
        unfolding H(3,4) using 3(2) by (auto simp only: not_le)
      then have "replay_check w c = (w, False)"
        using 3(1) by (intro replay_check_reject [OF Some])
      ultimately show ?thesis using abs by (simp add: spec_check_def)
    qed
  qed
qed

section \<open>The interface the codec relies on\<close>

text \<open>
  A replay guard decides on counters one by one and stands for a history: an accepted counter is
  new to the history and enters it, a rejected one leaves it alone. The codec needs no more than
  this.
\<close>

locale replay_guard =
  fixes chk :: "'w \<Rightarrow> u64 \<Rightarrow> 'w \<times> bool"
    and hist :: "'w \<Rightarrow> u64 set \<Rightarrow> bool"
  assumes chk_accept: "hist w H \<Longrightarrow> chk w c = (w', True) \<Longrightarrow> c \<notin> H \<and> hist w' (insert c H)"
    and chk_reject: "hist w H \<Longrightarrow> chk w c = (w', False) \<Longrightarrow> hist w' H"
begin

lemma accepted_once: "hist w H \<Longrightarrow> distinct (accepted_by chk w cs) \<and> set (accepted_by chk w cs) \<inter> H = {}"
proof (induction cs arbitrary: w H)
  case (Cons c cs)
  obtain w' b where chk: "chk w c = (w', b)" by (cases "chk w c")
  show ?case
  proof (cases b)
    case True
    with chk chk_accept [OF Cons.prems] have "c \<notin> H" and "hist w' (insert c H)" by auto
    with Cons.IH [of w' "insert c H"] chk True show ?thesis by auto
  next
    case False
    with chk chk_reject [OF Cons.prems] have "hist w' H" by auto
    with Cons.IH [of w' H] chk False show ?thesis by auto
  qed
qed simp

end

lemma spec_check_fresh: "spec_accepts n H c \<Longrightarrow> c \<notin> H"
proof
  assume acc: "spec_accepts n H c" and c: "c \<in> H"
  then have "c \<le> Max H" by (simp add: Max_ge)
  with acc c show False
    unfolding spec_accepts_def by (metis empty_iff leD)
qed

interpretation window: replay_guard replay_check "replay_abs n" for n
proof
  fix w :: replay_window and H c w'
  assume abs: "replay_abs n w H"
  note ref = replay_check_refines [OF abs, of c]
  { assume "replay_check w c = (w', True)"
    then have "spec_accepts n H c" and "replay_abs n w' (fst (spec_check n H c))"
      using ref by auto
    then show "c \<notin> H \<and> replay_abs n w' (insert c H)"
      by (simp add: spec_check_def spec_check_fresh) }
  { assume "replay_check w c = (w', False)"
    then have "\<not> spec_accepts n H c" and "replay_abs n w' (fst (spec_check n H c))"
      using ref by auto
    then show "replay_abs n w' H" by (simp add: spec_check_def) }
qed

section \<open>Properties of whole runs\<close>

lemma accepted_by_spec:
  "replay_abs n w H \<Longrightarrow> accepted_by replay_check w cs = accepted_by (spec_check n) H cs"
proof (induction cs arbitrary: w H)
  case (Cons c cs)
  obtain w' where w': "replay_check w c = (w', spec_accepts n H c)"
    using replay_check_refines(1) [OF Cons.prems, of c] by (cases "replay_check w c") auto
  with replay_check_refines(2) [OF Cons.prems, of c]
  have "replay_abs n w' (fst (spec_check n H c))" by simp
  from Cons.IH [OF this] w' show ?case by (auto simp: spec_check_def)
qed simp

interpretation window_run: op_system "\<lambda>w c. fst (replay_check w c)" replay_wf
  by unfold_locales (rule replay_check_wf)

lemma replay_run_size [simp]:
  "window_size (foldl (\<lambda>w c. fst (replay_check w c)) w cs) = window_size w"
  by (induction cs arbitrary: w) auto

lemma card_u64_interval: "card {a..(b::u64)} \<le> Suc (unat b - unat a)"
proof -
  have "unat ` {a..b} \<subseteq> {unat a..unat b}" by (auto simp: word_le_nat_alt)
  then have "card (unat ` {a..b}) \<le> card {unat a..unat b}" by (intro card_mono) auto
  moreover have "card (unat ` {a..b}) = card {a..b}"
    by (intro card_image inj_onI) (simp add: word_unat_eq_iff)
  ultimately show ?thesis by simp
qed

lemma replay_wf_card:
  assumes "replay_wf w"
  shows "card (seen w) \<le> Suc (unat (window_size w))"
proof (cases "max_counter w")
  case (Some m)
  then have "card (seen w) \<le> card {window_base w..m}"
    using assms by (intro card_mono) (auto simp: replay_wf_def)
  also have "\<dots> \<le> Suc (unat m - unat (window_base w))" by (rule card_u64_interval)
  also have "\<dots> \<le> Suc (unat (window_size w))"
    using assms Some by (simp add: replay_wf_def)
  finally show ?thesis .
qed (use assms in \<open>simp add: replay_wf_def\<close>)

lemma replay_check_above:
  assumes "\<And>m. max_counter w = Some m \<Longrightarrow> m < c"
  shows "snd (replay_check w c)" and "max_counter (fst (replay_check w c)) = Some c"
  using assms by (auto simp: replay_check_def Let_def split: option.splits)

lemma accepted_increasing:
  assumes "replay_wf w" and "sorted_wrt (<) cs"
    and "\<And>m c. max_counter w = Some m \<Longrightarrow> c \<in> set cs \<Longrightarrow> m < c"
  shows "accepted_by replay_check w cs = cs"
  using assms
proof (induction cs arbitrary: w)
  case (Cons c cs)
  have acc: "snd (replay_check w c)" and mx: "max_counter (fst (replay_check w c)) = Some c"
    using Cons.prems(3) [of _ c] by (auto intro!: replay_check_above)
  have "accepted_by replay_check (fst (replay_check w c)) cs = cs"
    using Cons.prems mx by (intro Cons.IH replay_check_wf) auto
  with acc show ?case by (simp add: case_prod_beta)
qed simp

text \<open>
  C25. Whatever sequence of counters a session receives, the sliding window accepts exactly the
  counters that the specification with the unbounded history accepts.
\<close>

theorem replay_refines_history:
  "accepted_by replay_check (replay_new n) cs = accepted_by (spec_check n) {} cs"
  by (rule accepted_by_spec) (rule replay_abs_new)

text \<open>
  No counter is ever accepted twice by a window, in any order of arrival, for any window
  size: a replayed frame is rejected however late it comes.
\<close>

theorem replay_accepts_once: "distinct (accepted_by replay_check (replay_new n) cs)"
  using window.accepted_once [OF replay_abs_new] by blast

text \<open>
  The memory of a window is bounded: after any run it remembers at most one counter more
  than its size, and its bookkeeping (base, maximum, seen set) is consistent.
\<close>

theorem replay_memory_bounded:
  "card (seen (foldl (\<lambda>w c. fst (replay_check w c)) (replay_new n) cs)) \<le> Suc (unat n)
   \<and> replay_wf (foldl (\<lambda>w c. fst (replay_check w c)) (replay_new n) cs)"
proof -
  let ?w = "foldl (\<lambda>w c. fst (replay_check w c)) (replay_new n) cs"
  have wf: "replay_wf ?w" by (intro window_run.run_inv) simp
  moreover have "window_size ?w = n" by (simp add: replay_new_def)
  ultimately show ?thesis using replay_wf_card [OF wf] by simp
qed

text \<open>
  A sender's own counters are never refused: a stream of strictly increasing counters is
  accepted in full.
\<close>

theorem replay_accepts_increasing:
  "sorted_wrt (<) cs \<Longrightarrow> accepted_by replay_check (replay_new n) cs = cs"
  by (rule accepted_increasing) (auto simp: replay_new_def replay_wf_def)

theorem replay_accepts_increasing_witness:
  "accepted_by replay_check (replay_new 64) [0, 1, 5, 200] = [0, 1, 5, 200]"
  by (rule replay_accepts_increasing) simp

end
