(* ===== verification/Protocol.thy ===== *)
theory Protocol
  imports Streams Replay
begin

text \<open>
  The frame codec and the key store of \<open>transport-core/src/protocol.rs\<close>. The AEAD cipher
  (ChaCha20-Poly1305) is a parameter: a record of its two operations and of the text of its
  error. A cipher value of the source is determined by its key, so the state holds keys. Reads
  and writes return the codec, the stream and the result; the codec's locks make each access to
  its fields atomic, and the model has one call run at a time.
\<close>

section \<open>Constants\<close>

definition TLS_CONTENT_TYPE :: u8 where "TLS_CONTENT_TYPE = 0x17"
definition TLS_VERSION_MAJOR :: u8 where "TLS_VERSION_MAJOR = 0x03"
definition TLS_VERSION_MINOR :: u8 where "TLS_VERSION_MINOR = 0x03"
definition TLS_RECORD_HEADER_SIZE :: nat where "TLS_RECORD_HEADER_SIZE = 5"
definition KID_SIZE :: nat where "KID_SIZE = 1"
definition COUNTER_SIZE :: nat where "COUNTER_SIZE = 4"
definition TAG_SIZE :: nat where "TAG_SIZE = 16"
definition PREFIX_SIZE :: nat where "PREFIX_SIZE = 8"
definition MAX_PAYLOAD :: nat where "MAX_PAYLOAD = 16 * 1024"
definition MAX_FRAME_BODY :: nat where "MAX_FRAME_BODY = KID_SIZE + COUNTER_SIZE + MAX_PAYLOAD + TAG_SIZE"
definition REKEY_THRESHOLD :: u64 where "REKEY_THRESHOLD = 0xF0000000"
definition REPLAY_WINDOW_SIZE :: u64 where "REPLAY_WINDOW_SIZE = 64"
definition REKEY_OVERLAP_FRAMES :: u64 where "REKEY_OVERLAP_FRAMES = 256"
definition REKEY_INIT_MAGIC :: bytes where "REKEY_INIT_MAGIC = bytes_of ''REKEY'' @ [0]"
definition REKEY_ACK_MAGIC :: bytes where "REKEY_ACK_MAGIC = bytes_of ''REKEYACK'' @ [0]"

lemmas protocol_consts [codec_simps] =
  TLS_CONTENT_TYPE_def TLS_VERSION_MAJOR_def TLS_VERSION_MINOR_def TLS_RECORD_HEADER_SIZE_def
  KID_SIZE_def COUNTER_SIZE_def TAG_SIZE_def MAX_PAYLOAD_def MAX_FRAME_BODY_def

section \<open>The cipher parameter and the codec state\<close>

record aead =
  aead_encrypt :: "bytes \<Rightarrow> bytes \<Rightarrow> bytes \<Rightarrow> bytes option"
  aead_decrypt :: "bytes \<Rightarrow> bytes \<Rightarrow> bytes \<Rightarrow> bytes option"
  aead_error :: string

text \<open>
  What the code relies on: on frames of the permitted size encryption succeeds, appends a
  sixteen-byte tag, and decryption under the same key and nonce gives the plaintext back.
\<close>

definition aead_correct :: "aead \<Rightarrow> bool" where
  "aead_correct A \<longleftrightarrow> (\<forall>k n p. length p \<le> MAX_PAYLOAD \<longrightarrow>
     (\<exists>c. aead_encrypt A k n p = Some c \<and> length c = length p + TAG_SIZE \<and> aead_decrypt A k n c = Some p))"

record codec_state =
  cipher :: bytes
  kid :: u8
  prev :: "(u8 \<times> bytes) option"
  frames_since_rekey :: u64

record frame_codec =
  cstate :: codec_state
  send_prefix :: bytes
  recv_prefix :: bytes
  send_counter :: u64
  recv_replay :: replay_window

definition codec_new :: "bytes \<Rightarrow> bytes \<Rightarrow> bytes \<Rightarrow> u8 \<Rightarrow> frame_codec" where
  "codec_new key sp rp k =
     \<lparr>cstate = \<lparr>cipher = key, kid = k, prev = None, frames_since_rekey = 0\<rparr>,
      send_prefix = sp, recv_prefix = rp, send_counter = 0,
      recv_replay = replay_new REPLAY_WINDOW_SIZE\<rparr>"

definition codec_kid :: "frame_codec \<Rightarrow> u8" where
  "codec_kid c = kid (cstate c)"

definition start_rekey :: "frame_codec \<Rightarrow> u8 \<Rightarrow> bytes \<Rightarrow> frame_codec" where
  "start_rekey c new_kid new_key =
     (let st = cstate c in
      c\<lparr>cstate := st\<lparr>cipher := new_key, prev := Some (kid st, cipher st),
                     frames_since_rekey := 0, kid := new_kid\<rparr>\<rparr>)"

definition complete_rekey :: "frame_codec \<Rightarrow> frame_codec" where
  "complete_rekey c = c\<lparr>cstate := (cstate c)\<lparr>prev := None\<rparr>\<rparr>"

definition is_rekey_overlap :: "frame_codec \<Rightarrow> bool" where
  "is_rekey_overlap c \<longleftrightarrow> prev (cstate c) \<noteq> None"

section \<open>Writing and reading frames\<close>

definition frame_nonce :: "bytes \<Rightarrow> u64 \<Rightarrow> bytes" where
  "frame_nonce prefix counter = prefix @ be32 (ucast counter)"

definition frame_bytes :: "u8 \<Rightarrow> u64 \<Rightarrow> bytes \<Rightarrow> bytes" where
  "frame_bytes k counter ciphertext =
     [TLS_CONTENT_TYPE, TLS_VERSION_MAJOR, TLS_VERSION_MINOR]
     @ be16 (of_nat (KID_SIZE + COUNTER_SIZE + length ciphertext))
     @ [k] @ be32 (ucast counter) @ ciphertext"

definition write_frame ::
  "aead \<Rightarrow> frame_codec \<Rightarrow> writer \<Rightarrow> bytes \<Rightarrow> frame_codec \<times> writer \<times> (transport_error + unit)" where
  "write_frame A c w plaintext =
     (if length plaintext > MAX_PAYLOAD then (c, w, Inl (FrameTooLarge (length plaintext) MAX_PAYLOAD))
      else
        let counter = send_counter c; c = c\<lparr>send_counter := counter + 1\<rparr> in
        if counter \<ge> REKEY_THRESHOLD then (c, w, Inl (RekeyNeeded counter REKEY_THRESHOLD))
        else
          case aead_encrypt A (cipher (cstate c)) (frame_nonce (send_prefix c) counter) plaintext of
            None \<Rightarrow> (c, w, Inl (Crypto (aead_error A)))
          | Some ciphertext \<Rightarrow>
              (case write_all (frame_bytes (kid (cstate c)) counter ciphertext) w of
                 (w, Inl e) \<Rightarrow> (c, w, Inl (Io e))
               | (w, Inr _) \<Rightarrow>
                   (case flush w of
                      (w, Inl e) \<Rightarrow> (c, w, Inl (Io e))
                    | (w, Inr _) \<Rightarrow> (c, w, Inr ()))))"

text \<open>The three stages of \<open>read_frame\<close>: the header, the key, and the bookkeeping of the overlap.\<close>

definition check_header :: "bytes \<Rightarrow> transport_error + nat" where
  "check_header header =
     (if header ! 0 \<noteq> TLS_CONTENT_TYPE then
        Inl (Protocol (''bad content type: 0x'' @ show_hex2 (header ! 0) @ '' (expected 0x''
          @ show_hex2 TLS_CONTENT_TYPE @ '')''))
      else if header ! 1 \<noteq> TLS_VERSION_MAJOR \<or> header ! 2 \<noteq> TLS_VERSION_MINOR then
        Inl (Protocol (''bad TLS version: '' @ show_nat (unat (header ! 1)) @ ''.''
          @ show_nat (unat (header ! 2)) @ '' (expected '' @ show_nat (unat TLS_VERSION_MAJOR)
          @ ''.'' @ show_nat (unat TLS_VERSION_MINOR) @ '')''))
      else
        let body_len = unat (from_be16 (header ! 3) (header ! 4));
            min_body = KID_SIZE + COUNTER_SIZE + TAG_SIZE in
        if body_len < min_body then
          Inl (Protocol (''frame body too small: '' @ show_nat body_len @ '' (min ''
            @ show_nat min_body @ '')''))
        else if body_len > MAX_FRAME_BODY then Inl (FrameTooLarge body_len MAX_FRAME_BODY)
        else Inr body_len)"

definition select_key :: "codec_state \<Rightarrow> u8 \<Rightarrow> bytes option" where
  "select_key st k =
     (if k = kid st then Some (cipher st)
      else case prev st of
             Some (prev_kid, prev_cipher) \<Rightarrow> if k = prev_kid then Some prev_cipher else None
           | None \<Rightarrow> None)"

definition count_overlap :: "codec_state \<Rightarrow> codec_state" where
  "count_overlap st =
     (if prev st \<noteq> None then
        let st1 = st\<lparr>frames_since_rekey := frames_since_rekey st + 1\<rparr> in
        if frames_since_rekey st1 \<ge> REKEY_OVERLAP_FRAMES then st1\<lparr>prev := None\<rparr> else st1
      else st)"

definition body_counter :: "bytes \<Rightarrow> u64" where
  "body_counter body = ucast (from_be32 (body ! 1) (body ! 2) (body ! 3) (body ! 4))"

text \<open>What happens once the body of a frame has arrived.\<close>

definition open_body :: "aead \<Rightarrow> frame_codec \<Rightarrow> bytes \<Rightarrow> frame_codec \<times> (transport_error + bytes)" where
  "open_body A c body =
     (let k = body ! 0;
          counter = body_counter body;
          ciphertext = drop (KID_SIZE + COUNTER_SIZE) body
      in case replay_check (recv_replay c) counter of
           (rp, False) \<Rightarrow> (c\<lparr>recv_replay := rp\<rparr>, Inl (ReplayDetected counter))
         | (rp, True) \<Rightarrow>
             let c = c\<lparr>recv_replay := rp\<rparr> in
             (case select_key (cstate c) k of
                None \<Rightarrow> (c, Inl (UnknownKeyId k))
              | Some key \<Rightarrow>
                  (case aead_decrypt A key (frame_nonce (recv_prefix c) counter) ciphertext of
                     None \<Rightarrow> (c, Inl (Crypto (aead_error A)))
                   | Some plaintext \<Rightarrow> (c\<lparr>cstate := count_overlap (cstate c)\<rparr>, Inr plaintext))))"

definition read_frame ::
  "aead \<Rightarrow> frame_codec \<Rightarrow> reader \<Rightarrow> frame_codec \<times> reader \<times> (transport_error + bytes)" where
  "read_frame A c r =
     (case read_exact TLS_RECORD_HEADER_SIZE r of
        (r, Inl e) \<Rightarrow> (c, r, Inl (Io e))
      | (r, Inr header) \<Rightarrow>
          (case check_header header of
             Inl e \<Rightarrow> (c, r, Inl e)
           | Inr body_len \<Rightarrow>
               (case read_exact body_len r of
                  (r, Inl e) \<Rightarrow> (c, r, Inl (Io e))
                | (r, Inr body) \<Rightarrow> (case open_body A c body of (c, res) \<Rightarrow> (c, r, res)))))"

section \<open>Frames on the wire\<close>

lemma length_frame_bytes: "length (frame_bytes k n ct) = 10 + length ct"
  by (simp add: frame_bytes_def)

text \<open>The body length fits its sixteen-bit field for every frame the codec can produce.\<close>

lemma body_len_fits:
  assumes "length ct \<le> MAX_PAYLOAD + TAG_SIZE"
  shows "unat (of_nat (KID_SIZE + COUNTER_SIZE + length ct) :: u16) = 5 + length ct"
  using assms by (simp only: unat_of_nat) (simp add: codec_simps)

lemma check_header_frame:
  assumes "TAG_SIZE \<le> length ct" and "length ct \<le> MAX_PAYLOAD + TAG_SIZE"
  shows "check_header (take 5 (frame_bytes k n ct)) = Inr (5 + length ct)"
proof -
  let ?b = "be16 (of_nat (KID_SIZE + COUNTER_SIZE + length ct))"
  obtain x y where b: "?b = [x, y]" by (simp add: be16_def)
  then have "from_be16 x y = of_nat (KID_SIZE + COUNTER_SIZE + length ct)"
    using from_be16_be16 [of "of_nat (KID_SIZE + COUNTER_SIZE + length ct)"] by simp
  then have "unat (from_be16 x y) = 5 + length ct"
    using body_len_fits [OF assms(2)] by simp
  moreover have "take 5 (frame_bytes k n ct) = [0x17, 0x03, 0x03, x, y]"
    using b by (simp add: frame_bytes_def TLS_CONTENT_TYPE_def TLS_VERSION_MAJOR_def TLS_VERSION_MINOR_def)
  ultimately show ?thesis
    using assms by (simp add: check_header_def codec_simps Let_def)
qed

lemma ucast_u32_u64: "n < REKEY_THRESHOLD \<Longrightarrow> ucast (ucast n :: u32) = (n :: u64)"
proof -
  assume "n < REKEY_THRESHOLD"
  then have "unat n < 2 ^ 32" by (simp add: word_less_nat_alt REKEY_THRESHOLD_def)
  then show ?thesis
    by (simp add: word_unat_eq_iff unsigned_ucast_eq take_bit_eq_mod unat_mod)
qed

lemma body_counter_frame:
  assumes "n < REKEY_THRESHOLD"
  shows "body_counter ([k] @ be32 (ucast n) @ ct) = n"
proof -
  obtain a b c d where b: "be32 (ucast n) = [a, b, c, d]" by (simp add: be32_def)
  have "from_be32 a b c d = ucast n" using from_be32_be32 [of "ucast n"] b by simp
  then show ?thesis using b by (simp add: body_counter_def ucast_u32_u64 [OF assms])
qed

lemma read_frame_frame:
  assumes "TAG_SIZE \<le> length ct" and "length ct \<le> MAX_PAYLOAD + TAG_SIZE"
    and "rbuf r = frame_bytes k n ct @ rest"
  shows "read_frame A c r =
    (case open_body A c ([k] @ be32 (ucast n) @ ct) of (c', res) \<Rightarrow> (c', r\<lparr>rbuf := rest\<rparr>, res))"
proof -
  let ?h = "take 5 (frame_bytes k n ct)" and ?b = "[k] @ be32 (ucast n) @ ct"
  have split: "frame_bytes k n ct = ?h @ ?b"
    by (simp add: frame_bytes_def be16_def)
  have "read_exact TLS_RECORD_HEADER_SIZE r = (r\<lparr>rbuf := ?b @ rest\<rparr>, Inr ?h)"
    using assms(3) split
    by (intro read_exact_append) (simp_all add: TLS_RECORD_HEADER_SIZE_def length_frame_bytes)
  moreover have "read_exact (5 + length ct) (r\<lparr>rbuf := ?b @ rest\<rparr>) = (r\<lparr>rbuf := rest\<rparr>, Inr ?b)"
    using read_exact_append [of ?b "5 + length ct" "r\<lparr>rbuf := ?b @ rest\<rparr>" rest] by simp
  ultimately show ?thesis
    by (simp add: read_frame_def check_header_frame [OF assms(1,2)])
qed

section \<open>One frame across a link\<close>

definition sealed :: "aead \<Rightarrow> frame_codec \<Rightarrow> bytes \<Rightarrow> bytes" where
  "sealed A c p = frame_bytes (kid (cstate c)) (send_counter c)
     (the (aead_encrypt A (cipher (cstate c)) (frame_nonce (send_prefix c) (send_counter c)) p))"

lemma aead_correctE:
  assumes "aead_correct A" and "length p \<le> MAX_PAYLOAD"
  obtains ct where "aead_encrypt A k n p = Some ct" "length ct = length p + TAG_SIZE"
    "aead_decrypt A k n ct = Some p"
  using assms unfolding aead_correct_def by blast

lemma write_frame_ok:
  assumes "aead_correct A" and "length p \<le> MAX_PAYLOAD" and "send_counter c < REKEY_THRESHOLD"
    and "healthy w"
  shows "write_frame A c w p =
    (c\<lparr>send_counter := send_counter c + 1\<rparr>, w\<lparr>wbuf := wbuf w @ sealed A c p\<rparr>, Inr ())"
proof -
  obtain ct where ct: "aead_encrypt A (cipher (cstate c)) (frame_nonce (send_prefix c) (send_counter c)) p = Some ct"
    using assms(1,2) by (rule aead_correctE)
  with assms show ?thesis
    by (simp add: write_frame_def sealed_def Let_def leD stream_simps)
qed

definition can_open :: "frame_codec \<Rightarrow> frame_codec \<Rightarrow> bool" where
  "can_open s r \<longleftrightarrow> recv_prefix r = send_prefix s
     \<and> select_key (cstate r) (kid (cstate s)) = Some (cipher (cstate s))
     \<and> snd (replay_check (recv_replay r) (send_counter s))"

lemma read_sealed:
  assumes "aead_correct A" and "length p \<le> MAX_PAYLOAD" and n: "send_counter s < REKEY_THRESHOLD"
    and open': "can_open s r" and buf: "rbuf i = sealed A s p @ rest"
  shows "read_frame A r i =
    (r\<lparr>recv_replay := fst (replay_check (recv_replay r) (send_counter s)),
       cstate := count_overlap (cstate r)\<rparr>, i\<lparr>rbuf := rest\<rparr>, Inr p)"
proof -
  obtain ct where ct: "aead_encrypt A (cipher (cstate s)) (frame_nonce (send_prefix s) (send_counter s)) p = Some ct"
      "length ct = length p + TAG_SIZE"
      "aead_decrypt A (cipher (cstate s)) (frame_nonce (send_prefix s) (send_counter s)) ct = Some p"
    using assms(1,2) by (rule aead_correctE)
  let ?b = "[kid (cstate s)] @ be32 (ucast (send_counter s)) @ ct"
  have drop: "drop (KID_SIZE + COUNTER_SIZE) ?b = ct"
    by (simp add: codec_simps be32_def)
  have rc: "replay_check (recv_replay r) (send_counter s) =
      (fst (replay_check (recv_replay r) (send_counter s)), True)"
    using open' by (simp add: can_open_def prod_eq_iff)
  have "open_body A r ?b = (r\<lparr>recv_replay := fst (replay_check (recv_replay r) (send_counter s)),
       cstate := count_overlap (cstate r)\<rparr>, Inr p)"
    unfolding open_body_def Let_def drop body_counter_frame [OF n]
    by (subst rc) (use open' ct(3) in \<open>simp add: can_open_def\<close>)
  moreover have "rbuf i = frame_bytes (kid (cstate s)) (send_counter s) ct @ rest"
    using buf ct(1) by (simp add: sealed_def)
  ultimately show ?thesis
    using read_frame_frame [of ct i "kid (cstate s)" "send_counter s" rest A r] ct(2) assms(2) by simp
qed

section \<open>A stream of frames across a link\<close>

text \<open>Writing several frames and reading several frames, as a session does.\<close>

fun write_frames ::
  "aead \<Rightarrow> frame_codec \<Rightarrow> writer \<Rightarrow> bytes list \<Rightarrow> frame_codec \<times> writer \<times> (transport_error + unit)" where
  "write_frames A c w [] = (c, w, Inr ())"
| "write_frames A c w (p # ps) =
     (case write_frame A c w p of
        (c, w, Inl e) \<Rightarrow> (c, w, Inl e)
      | (c, w, Inr _) \<Rightarrow> write_frames A c w ps)"

fun read_frames ::
  "aead \<Rightarrow> frame_codec \<Rightarrow> reader \<Rightarrow> nat \<Rightarrow> frame_codec \<times> reader \<times> (transport_error + bytes list)" where
  "read_frames A c r 0 = (c, r, Inr [])"
| "read_frames A c r (Suc n) =
     (case read_frame A c r of
        (c, r, Inl e) \<Rightarrow> (c, r, Inl e)
      | (c, r, Inr p) \<Rightarrow>
          (case read_frames A c r n of
             (c, r, Inl e) \<Rightarrow> (c, r, Inl e)
           | (c, r, Inr ps) \<Rightarrow> (c, r, Inr (p # ps))))"

text \<open>Two codecs are linked when the receiver has the sender's key and has seen only older frames.\<close>

definition linked :: "frame_codec \<Rightarrow> frame_codec \<Rightarrow> bool" where
  "linked s r \<longleftrightarrow> recv_prefix r = send_prefix s \<and> kid (cstate r) = kid (cstate s)
     \<and> cipher (cstate r) = cipher (cstate s)
     \<and> (\<forall>m. max_counter (recv_replay r) = Some m \<longrightarrow> m < send_counter s)"

lemma linked_new: "linked (codec_new key p q k) (codec_new key q p k)"
  by (simp add: linked_def codec_new_def replay_new_def)

lemma linked_can_open: "linked s r \<Longrightarrow> can_open s r"
  by (simp add: linked_def can_open_def select_key_def replay_check_above)

lemma count_overlap_keeps [simp]:
  "kid (count_overlap st) = kid st" "cipher (count_overlap st) = cipher st"
  by (simp_all add: count_overlap_def Let_def)

lemma counter_less_succ: "n < REKEY_THRESHOLD \<Longrightarrow> n < n + (1 :: u64)"
  by (simp add: word_less_nat_alt unat_word_ariths REKEY_THRESHOLD_def)

lemma linked_step:
  assumes "linked s r" and "send_counter s < REKEY_THRESHOLD"
  shows "linked (s\<lparr>send_counter := send_counter s + 1\<rparr>)
    (r\<lparr>recv_replay := fst (replay_check (recv_replay r) (send_counter s)), cstate := count_overlap (cstate r)\<rparr>)"
  using assms replay_check_above(2) [of "recv_replay r" "send_counter s"] counter_less_succ [OF assms(2)]
  by (auto simp: linked_def)

lemma counter_succ_bound:
  assumes "unat (n :: u64) + Suc k \<le> unat REKEY_THRESHOLD"
  shows "n < REKEY_THRESHOLD" and "unat (n + 1) + k \<le> unat REKEY_THRESHOLD"
proof -
  show n: "n < REKEY_THRESHOLD" using assms by (simp add: word_less_nat_alt)
  have "unat (n + 1) = Suc (unat n)"
    using n by (simp add: unat_word_ariths word_less_nat_alt REKEY_THRESHOLD_def)
  with assms show "unat (n + 1) + k \<le> unat REKEY_THRESHOLD" by simp
qed

lemma write_read_frames:
  assumes "aead_correct A" and "linked s r" and "healthy w"
    and "\<forall>p \<in> set ps. length p \<le> MAX_PAYLOAD"
    and "unat (send_counter s) + length ps \<le> unat REKEY_THRESHOLD"
  shows "\<exists>s' r' wire. write_frames A s w ps = (s', w\<lparr>wbuf := wbuf w @ wire\<rparr>, Inr ())
    \<and> linked s' r' \<and> unat (send_counter s') = unat (send_counter s) + length ps
    \<and> (\<forall>i rest. rbuf i = wire @ rest \<longrightarrow> read_frames A r i (length ps) = (r', i\<lparr>rbuf := rest\<rparr>, Inr ps))"
  using assms(2-)
proof (induction ps arbitrary: s r w)
  case Nil
  then show ?case by (intro exI [of _ s] exI [of _ r] exI [of _ "[]"]) simp
next
  case (Cons p ps)
  let ?s = "s\<lparr>send_counter := send_counter s + 1\<rparr>"
  let ?r = "r\<lparr>recv_replay := fst (replay_check (recv_replay r) (send_counter s)), cstate := count_overlap (cstate r)\<rparr>"
  let ?w = "w\<lparr>wbuf := wbuf w @ sealed A s p\<rparr>"
  have n: "send_counter s < REKEY_THRESHOLD" "unat (send_counter s + 1) + length ps \<le> unat REKEY_THRESHOLD"
    using Cons.prems(4) counter_succ_bound [of "send_counter s" "length ps"] by auto
  have p: "length p \<le> MAX_PAYLOAD" using Cons.prems(3) by simp
  have wr: "write_frame A s w p = (?s, ?w, Inr ())"
    by (rule write_frame_ok [OF assms(1) p n(1) Cons.prems(2)])
  have rd: "read_frame A r i = (?r, i\<lparr>rbuf := rest\<rparr>, Inr p)" if "rbuf i = sealed A s p @ rest" for i rest
    by (rule read_sealed [OF assms(1) p n(1) linked_can_open [OF Cons.prems(1)] that])
  obtain s' r' wire where ih: "write_frames A ?s ?w ps = (s', ?w\<lparr>wbuf := wbuf ?w @ wire\<rparr>, Inr ())"
      "linked s' r'" "unat (send_counter s') = unat (send_counter ?s) + length ps"
      "\<forall>i rest. rbuf i = wire @ rest \<longrightarrow> read_frames A ?r i (length ps) = (r', i\<lparr>rbuf := rest\<rparr>, Inr ps)"
    using Cons.IH [of ?s ?r ?w] linked_step [OF Cons.prems(1) n(1)] Cons.prems n(2) by auto
  have "unat (send_counter s + 1) = Suc (unat (send_counter s))"
    using n(1) by (simp add: unat_word_ariths word_less_nat_alt REKEY_THRESHOLD_def)
  moreover have "read_frames A r i (length (p # ps)) = (r', i\<lparr>rbuf := rest\<rparr>, Inr (p # ps))"
    if "rbuf i = (sealed A s p @ wire) @ rest" for i rest
    using rd [of i "wire @ rest"] ih(4) [rule_format, of "i\<lparr>rbuf := wire @ rest\<rparr>" rest] that by simp
  ultimately show ?case using ih wr
    by (intro exI [of _ s'] exI [of _ r'] exI [of _ "sealed A s p @ wire"]) simp
qed

section \<open>Sessions as sequences of operations\<close>

text \<open>
  Everything a session does with its codec: writes to any stream, reads from any stream (an
  adversary chooses the bytes), rekeys. The trace functions record the key and nonce each write
  hands to the cipher, and the counter of each frame that a read delivers.
\<close>

datatype codec_op =
    WriteOp bytes writer
  | ReadOp reader
  | StartRekeyOp u8 bytes
  | CompleteRekeyOp

fun codec_exec :: "aead \<Rightarrow> frame_codec \<Rightarrow> codec_op \<Rightarrow> frame_codec" where
  "codec_exec A c (WriteOp p w) = fst (write_frame A c w p)"
| "codec_exec A c (ReadOp r) = fst (read_frame A c r)"
| "codec_exec A c (StartRekeyOp k key) = start_rekey c k key"
| "codec_exec A c CompleteRekeyOp = complete_rekey c"

definition encrypts :: "frame_codec \<Rightarrow> bytes \<Rightarrow> bool" where
  "encrypts c p \<longleftrightarrow> length p \<le> MAX_PAYLOAD \<and> send_counter c < REKEY_THRESHOLD"

fun op_nonce :: "frame_codec \<Rightarrow> codec_op \<Rightarrow> (bytes \<times> bytes) list" where
  "op_nonce c (WriteOp p w) =
     (if encrypts c p then [(cipher (cstate c), frame_nonce (send_prefix c) (send_counter c))] else [])"
| "op_nonce c _ = []"

fun nonce_trace :: "aead \<Rightarrow> frame_codec \<Rightarrow> codec_op list \<Rightarrow> (bytes \<times> bytes) list" where
  "nonce_trace A c [] = []"
| "nonce_trace A c (x # xs) = op_nonce c x @ nonce_trace A (codec_exec A c x) xs"

definition wire_counter :: "reader \<Rightarrow> u64" where
  "wire_counter r = body_counter (drop TLS_RECORD_HEADER_SIZE (rbuf r))"

fun op_delivered :: "aead \<Rightarrow> frame_codec \<Rightarrow> codec_op \<Rightarrow> u64 list" where
  "op_delivered A c (ReadOp r) =
     (case read_frame A c r of (_, _, Inr _) \<Rightarrow> [wire_counter r] | _ \<Rightarrow> [])"
| "op_delivered A c _ = []"

fun delivered :: "aead \<Rightarrow> frame_codec \<Rightarrow> codec_op list \<Rightarrow> u64 list" where
  "delivered A c [] = []"
| "delivered A c (x # xs) = op_delivered A c x @ delivered A (codec_exec A c x) xs"

subsection \<open>Nonces\<close>

text \<open>The cipher is consulted at the recorded key and nonce and nowhere else.\<close>

lemma write_frame_cipher_use:
  assumes "encrypts c p \<Longrightarrow>
      aead_encrypt A (cipher (cstate c)) (frame_nonce (send_prefix c) (send_counter c)) p
      = aead_encrypt B (cipher (cstate c)) (frame_nonce (send_prefix c) (send_counter c)) p"
    and "aead_error A = aead_error B"
  shows "write_frame A c w p = write_frame B c w p"
  using assms by (auto simp: write_frame_def encrypts_def Let_def not_less not_le split: option.split)

lemma write_frame_codec:
  "fst (write_frame A c w p) =
     (if length p \<le> MAX_PAYLOAD then c\<lparr>send_counter := send_counter c + 1\<rparr> else c)"
  by (simp add: write_frame_def Let_def split: option.split prod.split sum.split)

lemma open_body_fields [simp]:
  "send_counter (fst (open_body A c b)) = send_counter c"
  "send_prefix (fst (open_body A c b)) = send_prefix c"
  "recv_prefix (fst (open_body A c b)) = recv_prefix c"
  by (simp_all add: open_body_def Let_def split: option.split prod.split bool.split)

text \<open>A read either fails before the body has arrived, or its outcome is that of the body.\<close>

lemma read_frame_cases:
  obtains (early) r' e where "read_frame A c r = (c, r', Inl e)"
      "e \<in> range Io \<union> range Protocol \<union> {FrameTooLarge n MAX_FRAME_BODY | n. True}"
  | (body) b r' where "body_counter b = wire_counter r" "b = take (length b) (drop TLS_RECORD_HEADER_SIZE (rbuf r))"
      "read_frame A c r = (fst (open_body A c b), r', snd (open_body A c b))"
proof (cases "read_exact TLS_RECORD_HEADER_SIZE r")
  case (Pair r1 res1)
  note hd = this
  show thesis
  proof (cases res1)
    case (Inl e)
    with hd show thesis by (intro early) (auto simp: read_frame_def)
  next
    case (Inr header)
    note ok1 = read_exact_InrD [OF hd [unfolded Inr]]
    show thesis
    proof (cases "check_header header")
      case (Inl e)
      then have "e \<in> range Io \<union> range Protocol \<union> {FrameTooLarge n MAX_FRAME_BODY | n. True}"
        by (auto simp: check_header_def Let_def split: if_splits)
      with hd Inr Inl show thesis by (intro early) (auto simp: read_frame_def)
    next
      case (Inr body_len)
      then have len: "21 \<le> body_len"
        by (auto simp: check_header_def Let_def codec_simps split: if_splits)
      obtain r2 res2 where bd: "read_exact body_len r1 = (r2, res2)" by fastforce
      show thesis
      proof (cases res2)
        case (Inl e)
        with hd \<open>res1 = Inr header\<close> Inr bd show thesis by (intro early) (auto simp: read_frame_def)
      next
        case (Inr b)
        note ok2 = read_exact_InrD [OF bd [unfolded Inr]]
        have buf: "drop TLS_RECORD_HEADER_SIZE (rbuf r) = b @ rbuf r2" using ok1 ok2 by simp
        with len ok2 have "body_counter b = wire_counter r"
          by (simp add: wire_counter_def body_counter_def nth_append)
        moreover have "read_frame A c r = (fst (open_body A c b), r2, snd (open_body A c b))"
          using hd \<open>res1 = Inr header\<close> \<open>check_header header = Inr body_len\<close> bd Inr
          by (simp add: read_frame_def split: prod.split)
        ultimately show thesis using buf by (intro body [of b r2]) auto
      qed
    qed
  qed
qed

lemma read_frame_fields [simp]:
  "send_counter (fst (read_frame A c r)) = send_counter c"
  "send_prefix (fst (read_frame A c r)) = send_prefix c"
  "recv_prefix (fst (read_frame A c r)) = recv_prefix c"
  by (rule read_frame_cases [where A = A and c = c and r = r]; simp)+

lemma codec_exec_prefix [simp]: "send_prefix (codec_exec A c x) = send_prefix c"
  by (cases x) (simp_all add: write_frame_codec start_rekey_def complete_rekey_def Let_def)

lemma codec_exec_counter:
  "send_counter (codec_exec A c x) = send_counter c \<and> op_nonce c x = []
   \<or> send_counter (codec_exec A c x) = send_counter c + 1"
  by (cases x) (auto simp: write_frame_codec start_rekey_def complete_rekey_def encrypts_def Let_def)

lemma nonce_trace_bounds:
  assumes "unat (send_counter c) + length xs < 2 ^ 64" and "(k, n) \<in> set (nonce_trace A c xs)"
  shows "\<exists>m. n = frame_nonce (send_prefix c) m \<and> send_counter c \<le> m \<and> m < REKEY_THRESHOLD"
  using assms
proof (induction xs arbitrary: c)
  case (Cons x xs)
  let ?c = "codec_exec A c x"
  consider "(k, n) \<in> set (op_nonce c x)" | "(k, n) \<in> set (nonce_trace A ?c xs)"
    using Cons.prems(2) by auto
  then show ?case
  proof cases
    case 1
    then show ?thesis by (cases x) (auto simp: encrypts_def split: if_splits)
  next
    case 2
    have le: "send_counter c \<le> send_counter ?c \<and> unat (send_counter ?c) \<le> Suc (unat (send_counter c))"
      using codec_exec_counter [of A c x] Cons.prems(1)
      by (auto simp: word_le_nat_alt unat_word_ariths)
    then obtain m where "n = frame_nonce (send_prefix c) m" "send_counter ?c \<le> m" "m < REKEY_THRESHOLD"
      using Cons.IH [of ?c] 2 Cons.prems(1) by auto
    with le show ?thesis by (intro exI [of _ m]) (auto intro: order_trans)
  qed
qed simp

lemma frame_nonce_inject:
  assumes "m < REKEY_THRESHOLD" and "n < REKEY_THRESHOLD" and "frame_nonce p m = frame_nonce p n"
  shows "m = n"
proof -
  have "(ucast m :: u32) = ucast n" using assms(3) by (simp add: frame_nonce_def)
  then have "ucast (ucast m :: u32) = (ucast (ucast n :: u32) :: u64)" by simp
  then show ?thesis using assms(1,2) by (simp only: ucast_u32_u64)
qed

lemma nonce_trace_distinct:
  assumes "unat (send_counter c) + length xs < 2 ^ 64"
  shows "distinct (map snd (nonce_trace A c xs))"
  using assms
proof (induction xs arbitrary: c)
  case (Cons x xs)
  let ?c = "codec_exec A c x"
  have succ: "unat (send_counter ?c) \<le> Suc (unat (send_counter c))"
    using codec_exec_counter [of A c x] Cons.prems by (auto simp: unat_word_ariths)
  then have ih: "distinct (map snd (nonce_trace A ?c xs))" using Cons by auto
  show ?case
  proof (cases "op_nonce c x")
    case Nil
    with ih show ?thesis by simp
  next
    case (Cons kn ks)
    then have op: "op_nonce c x = [(cipher (cstate c), frame_nonce (send_prefix c) (send_counter c))]"
      and thr: "send_counter c < REKEY_THRESHOLD"
      and next': "send_counter ?c = send_counter c + 1"
      by (cases x; auto simp: encrypts_def write_frame_codec split: if_splits)+
    have "frame_nonce (send_prefix c) (send_counter c) \<notin> snd ` set (nonce_trace A ?c xs)"
    proof
      assume "frame_nonce (send_prefix c) (send_counter c) \<in> snd ` set (nonce_trace A ?c xs)"
      then obtain k where k: "(k, frame_nonce (send_prefix c) (send_counter c)) \<in> set (nonce_trace A ?c xs)"
        by auto
      obtain m where m: "frame_nonce (send_prefix c) (send_counter c) = frame_nonce (send_prefix c) m"
          "send_counter ?c \<le> m" "m < REKEY_THRESHOLD"
        using nonce_trace_bounds [OF _ k] succ Cons.prems by auto
      have "send_counter c = m" by (rule frame_nonce_inject [OF thr m(3,1)])
      with m(2) next' counter_less_succ [OF thr] show False by (simp add: leD)
    qed
    with ih op show ?thesis by simp
  qed
qed simp

subsection \<open>Delivered frames\<close>

lemma open_body_window [simp]:
  "recv_replay (fst (open_body A c b)) = fst (replay_check (recv_replay c) (body_counter b))"
  by (simp add: open_body_def Let_def split: option.split prod.split bool.split)

lemma open_body_delivers:
  "snd (open_body A c b) = Inr p \<longleftrightarrow>
     snd (replay_check (recv_replay c) (body_counter b)) \<and>
     (\<exists>key. select_key (cstate c) (b ! 0) = Some key \<and>
        aead_decrypt A key (frame_nonce (recv_prefix c) (body_counter b)) (drop 5 b) = Some p)"
  by (auto simp: open_body_def Let_def KID_SIZE_def COUNTER_SIZE_def
      split: option.splits prod.splits bool.splits)

lemma replay_abs_check:
  assumes "replay_abs n w H"
  shows "\<exists>H'. replay_abs n (fst (replay_check w c)) H' \<and> H \<subseteq> H' \<and> (snd (replay_check w c) \<longrightarrow> c \<in> H' - H)"
proof (cases "replay_check w c")
  case (Pair w' b)
  with assms show ?thesis
    by (cases b) (use window.chk_accept [OF assms] window.chk_reject [OF assms] in \<open>fastforce+\<close>)
qed

lemma codec_exec_delivers:
  assumes "replay_abs n (recv_replay c) H"
  shows "\<exists>H'. replay_abs n (recv_replay (codec_exec A c x)) H' \<and> H \<subseteq> H'
    \<and> distinct (op_delivered A c x) \<and> set (op_delivered A c x) \<subseteq> H' - H"
proof (cases x)
  case (ReadOp r)
  show ?thesis
  proof (rule read_frame_cases [where A = A and c = c and r = r], goal_cases)
    case (2 b r')
    with replay_abs_check [OF assms, of "body_counter b"] ReadOp show ?case
      by (cases "snd (open_body A c b)") (auto simp: open_body_delivers)
  qed (use assms ReadOp in auto)
qed (use assms in \<open>auto simp: write_frame_codec start_rekey_def complete_rekey_def Let_def\<close>)

lemma delivered_once:
  "replay_abs n (recv_replay c) H \<Longrightarrow> distinct (delivered A c xs) \<and> set (delivered A c xs) \<inter> H = {}"
proof (induction xs arbitrary: c H)
  case (Cons x xs)
  obtain H' where "replay_abs n (recv_replay (codec_exec A c x)) H'" "H \<subseteq> H'"
    "distinct (op_delivered A c x)" "set (op_delivered A c x) \<subseteq> H' - H"
    using codec_exec_delivers [OF Cons.prems] by blast
  with Cons.IH [of "codec_exec A c x" H'] show ?case by auto
qed simp

subsection \<open>Exhausted counters\<close>

text \<open>Nothing a codec offers lowers its send counter, so once exhausted it stays exhausted.\<close>

lemma exhausted_run:
  assumes "REKEY_THRESHOLD \<le> send_counter c" and "unat (send_counter c) + length xs < 2 ^ 64"
  shows "REKEY_THRESHOLD \<le> send_counter (foldl (codec_exec A) c xs)"
  using assms
proof (induction xs arbitrary: c)
  case (Cons x xs)
  let ?c = "codec_exec A c x"
  have "send_counter c \<le> send_counter ?c \<and> unat (send_counter ?c) \<le> Suc (unat (send_counter c))"
    using codec_exec_counter [of A c x] Cons.prems(2) by (auto simp: word_le_nat_alt unat_word_ariths)
  then have "REKEY_THRESHOLD \<le> send_counter ?c" "unat (send_counter ?c) + length xs < 2 ^ 64"
    using Cons.prems order_trans by auto
  then show ?case using Cons.IH [of ?c] by simp
qed simp

lemma write_frame_exhausted:
  "length p \<le> MAX_PAYLOAD \<Longrightarrow> REKEY_THRESHOLD \<le> send_counter c \<Longrightarrow>
   write_frame A c w p = (c\<lparr>send_counter := send_counter c + 1\<rparr>, w, Inl (RekeyNeeded (send_counter c) REKEY_THRESHOLD))"
  by (simp add: write_frame_def Let_def)

subsection \<open>The overlap window of a rekey\<close>

lemma read_op_cstate:
  "cstate (codec_exec A c (ReadOp r)) =
     (if op_delivered A c (ReadOp r) = [] then cstate c else count_overlap (cstate c))"
proof (rule read_frame_cases [where A = A and c = c and r = r], goal_cases)
  case (2 b r')
  then show ?case
    by (auto simp: open_body_def Let_def split: option.split prod.split bool.split)
qed auto

lemma op_delivered_read_length: "length (op_delivered A c (ReadOp r)) \<le> 1"
  by (simp split: prod.split sum.split)

lemma reads_keep_kid [simp]:
  "kid (cstate (foldl (codec_exec A) c (map ReadOp rs))) = kid (cstate c)"
  "cipher (cstate (foldl (codec_exec A) c (map ReadOp rs))) = cipher (cstate c)"
  by (induction rs arbitrary: c) (auto simp: read_op_cstate simp del: codec_exec.simps)

lemma reads_after_overlap:
  "prev (cstate c) = None \<Longrightarrow> cstate (foldl (codec_exec A) c (map ReadOp rs)) = cstate c"
  by (induction rs arbitrary: c) (auto simp: read_op_cstate count_overlap_def simp del: codec_exec.simps)

lemma count_overlap_frames:
  assumes "prev st = Some pv" and "unat (frames_since_rekey st) < 256"
  shows "unat (frames_since_rekey (count_overlap st)) = Suc (unat (frames_since_rekey st))"
    and "prev (count_overlap st) = (if Suc (unat (frames_since_rekey st)) < 256 then Some pv else None)"
proof -
  have "unat (frames_since_rekey st + 1) = Suc (unat (frames_since_rekey st))"
    using assms(2) by (simp add: unat_word_ariths)
  then show "unat (frames_since_rekey (count_overlap st)) = Suc (unat (frames_since_rekey st))"
    and "prev (count_overlap st) = (if Suc (unat (frames_since_rekey st)) < 256 then Some pv else None)"
    using assms by (simp_all add: count_overlap_def Let_def word_le_nat_alt REKEY_OVERLAP_FRAMES_def)
qed

lemma overlap_run:
  assumes "prev (cstate c) = Some pv" and "unat (frames_since_rekey (cstate c)) < 256"
  shows "prev (cstate (foldl (codec_exec A) c (map ReadOp rs))) =
    (if unat (frames_since_rekey (cstate c)) + length (delivered A c (map ReadOp rs)) < 256
     then Some pv else None)"
  using assms
proof (induction rs arbitrary: c)
  case (Cons r rs)
  let ?c = "codec_exec A c (ReadOp r)"
  show ?case
  proof (cases "op_delivered A c (ReadOp r) = []")
    case True
    then show ?thesis using Cons.IH [of ?c] Cons.prems read_op_cstate [of A c r]
      by (simp del: codec_exec.simps op_delivered.simps)
  next
    case False
    then have one: "length (op_delivered A c (ReadOp r)) = 1"
      using op_delivered_read_length [of A c r]
      by (cases "op_delivered A c (ReadOp r)") (simp_all del: op_delivered.simps)
    have st: "cstate ?c = count_overlap (cstate c)" using False by (simp only: read_op_cstate if_False)
    show ?thesis
    proof (cases "Suc (unat (frames_since_rekey (cstate c))) < 256")
      case True
      then show ?thesis using Cons.IH [of ?c] st one count_overlap_frames [OF Cons.prems]
        by (simp del: codec_exec.simps op_delivered.simps)
    next
      case False
      then show ?thesis using st one count_overlap_frames [OF Cons.prems] reads_after_overlap [of ?c A rs]
        by (simp del: codec_exec.simps op_delivered.simps)
    qed
  qed
qed simp

section \<open>The key store\<close>

text \<open>Removing keys leaves the store's map; \<open>active_key\<close> panics when its \<open>expect\<close> fails.\<close>

record key_store =
  keys :: "u8 \<rightharpoonup> bytes"
  active_kid :: u8

definition keystore_new :: "bytes \<Rightarrow> key_store" where
  "keystore_new key = \<lparr>keys = Map.empty(0 \<mapsto> key), active_kid = 0\<rparr>"

definition add_key :: "key_store \<Rightarrow> u8 \<Rightarrow> bytes \<Rightarrow> key_store" where
  "add_key ks k key = ks\<lparr>keys := (keys ks)(k \<mapsto> key)\<rparr>"

definition get_key :: "key_store \<Rightarrow> u8 \<Rightarrow> bytes option" where
  "get_key ks k = keys ks k"

definition active_key :: "key_store \<Rightarrow> bytes outcome" where
  "active_key ks = (case keys ks (active_kid ks) of Some key \<Rightarrow> Ret key | None \<Rightarrow> Panic)"

definition rotate :: "key_store \<Rightarrow> u8 \<Rightarrow> bytes \<Rightarrow> key_store" where
  "rotate ks k key = ks\<lparr>keys := (keys ks)(k \<mapsto> key), active_kid := k\<rparr>"

definition remove_key :: "key_store \<Rightarrow> u8 \<Rightarrow> key_store" where
  "remove_key ks k = (if k \<noteq> active_kid ks then ks\<lparr>keys := (keys ks)(k := None)\<rparr> else ks)"

definition keystore_len :: "key_store \<Rightarrow> nat" where
  "keystore_len ks = card (dom (keys ks))"

datatype key_op = AddKey u8 bytes | Rotate u8 bytes | RemoveKey u8

fun key_exec :: "key_store \<Rightarrow> key_op \<Rightarrow> key_store" where
  "key_exec ks (AddKey k key) = add_key ks k key"
| "key_exec ks (Rotate k key) = rotate ks k key"
| "key_exec ks (RemoveKey k) = remove_key ks k"

lemmas keystore_defs = keystore_new_def add_key_def get_key_def active_key_def rotate_def remove_key_def

text \<open>The key the last rotation installed, unless the same identifier was added over it since.\<close>

fun last_active :: "bytes \<times> u8 \<Rightarrow> key_op \<Rightarrow> bytes \<times> u8" where
  "last_active (key, a) (AddKey k key') = (if k = a then (key', a) else (key, a))"
| "last_active (key, a) (Rotate k key') = (key', k)"
| "last_active (key, a) (RemoveKey k) = (key, a)"

lemma key_exec_active:
  "keys ks (active_kid ks) = Some key \<Longrightarrow>
   (case last_active (key, active_kid ks) x of (key', a) \<Rightarrow>
      active_kid (key_exec ks x) = a \<and> keys (key_exec ks x) a = Some key')"
  by (cases x) (auto simp: keystore_defs)

lemma key_run_active:
  "keys ks (active_kid ks) = Some key \<Longrightarrow>
   (case foldl last_active (key, active_kid ks) xs of (key', a) \<Rightarrow>
      active_kid (foldl key_exec ks xs) = a \<and> keys (foldl key_exec ks xs) a = Some key')"
proof (induction xs arbitrary: ks key)
  case (Cons x xs)
  obtain key' a where la: "last_active (key, active_kid ks) x = (key', a)" by fastforce
  with key_exec_active [OF Cons.prems, of x] have "active_kid (key_exec ks x) = a" "keys (key_exec ks x) a = Some key'"
    by auto
  with Cons.IH [of "key_exec ks x" key'] la show ?case by simp
qed simp

section \<open>An instance of the cipher parameter\<close>

text \<open>
  A checksum in place of the cipher: the tag repeats the start of key and nonce. It is not
  secret, but it satisfies what the code relies on and it rejects a tag made for another key or
  nonce, which is enough to evaluate the codec on concrete input.
\<close>

definition toy_tag :: "bytes \<Rightarrow> bytes \<Rightarrow> bytes" where
  "toy_tag key nonce = take 16 (take 2 key @ nonce @ replicate 16 0)"

definition toy_aead :: aead where
  "toy_aead = \<lparr>aead_encrypt = (\<lambda>key nonce p. Some (p @ toy_tag key nonce)),
     aead_decrypt = (\<lambda>key nonce c. if drop (length c - 16) c = toy_tag key nonce
       then Some (take (length c - 16) c) else None),
     aead_error = ''aead::Error''\<rparr>"

lemma length_toy_tag [simp]: "length (toy_tag key nonce) = 16"
  by (simp add: toy_tag_def)

lemma toy_aead_correct: "aead_correct toy_aead"
  by (simp add: aead_correct_def toy_aead_def TAG_SIZE_def)

definition sample_codec :: frame_codec where
  "sample_codec = codec_new [7, 7] [1, 2, 3, 4, 5, 6, 7, 8] [8, 7, 6, 5, 4, 3, 2, 1] 0"

definition sample_peer :: frame_codec where
  "sample_peer = codec_new [7, 7] [8, 7, 6, 5, 4, 3, 2, 1] [1, 2, 3, 4, 5, 6, 7, 8] 0"

section \<open>Properties of the codec\<close>

text \<open>
  C7. Round trip of a session: whatever list of payloads of permitted size a fresh codec writes,
  up to the rekey threshold, every write succeeds and the peer's codec (same key, prefixes
  swapped) reads exactly those payloads, in order, and leaves what follows on the stream alone.
\<close>

theorem session_roundtrip:
  assumes "aead_correct A" and "healthy w" and "\<forall>p \<in> set ps. length p \<le> MAX_PAYLOAD"
    and "length ps \<le> unat REKEY_THRESHOLD"
  shows "\<exists>s' r' wire. write_frames A (codec_new key p q k) w ps = (s', w\<lparr>wbuf := wbuf w @ wire\<rparr>, Inr ())
    \<and> (\<forall>i rest. rbuf i = wire @ rest \<longrightarrow>
         read_frames A (codec_new key q p k) i (length ps) = (r', i\<lparr>rbuf := rest\<rparr>, Inr ps))"
proof -
  have "unat (send_counter (codec_new key p q k)) + length ps \<le> unat REKEY_THRESHOLD"
    using assms(4) by (simp add: codec_new_def)
  from write_read_frames [OF assms(1) linked_new assms(2,3) this] show ?thesis by blast
qed

theorem session_roundtrip_witness:
  "\<exists>s' r' wire. write_frames toy_aead sample_codec vec_writer [[104, 105], []] =
      (s', vec_writer\<lparr>wbuf := wbuf vec_writer @ wire\<rparr>, Inr ())
    \<and> (\<forall>i rest. rbuf i = wire @ rest \<longrightarrow>
         read_frames toy_aead sample_peer i (length [[104, 105], [] :: bytes]) =
           (r', i\<lparr>rbuf := rest\<rparr>, Inr [[104, 105], []]))"
  unfolding sample_codec_def sample_peer_def
  by (rule session_roundtrip [OF toy_aead_correct]) (simp_all add: MAX_PAYLOAD_def REKEY_THRESHOLD_def)

text \<open>
  No nonce is ever used twice by a codec: in every sequence of writes, reads (of bytes an
  adversary chooses) and rekeys, the nonces handed to the cipher are pairwise distinct, across
  keys as well, and all carry the codec's own prefix. The bound is the wrap of the counter's 64
  bits.
\<close>

theorem nonces_never_repeat:
  assumes "length xs < 2 ^ 64"
  shows "distinct (map snd (nonce_trace A (codec_new key sp rp k) xs))
    \<and> (\<forall>n \<in> snd ` set (nonce_trace A (codec_new key sp rp k) xs). \<exists>m. n = frame_nonce sp m \<and> m < REKEY_THRESHOLD)"
proof -
  let ?c = "codec_new key sp rp k"
  have b: "unat (send_counter ?c) + length xs < 2 ^ 64" using assms by (simp add: codec_new_def)
  have "\<exists>m. n = frame_nonce sp m \<and> m < REKEY_THRESHOLD" if "(key', n) \<in> set (nonce_trace A ?c xs)" for key' n
    using nonce_trace_bounds [OF b that] by (auto simp: codec_new_def)
  with nonce_trace_distinct [OF b] show ?thesis by force
qed

theorem nonces_never_repeat_witness:
  "distinct (map snd (nonce_trace toy_aead sample_codec
      [WriteOp [1] vec_writer, StartRekeyOp 1 [9, 9], WriteOp [] vec_writer, ReadOp (cursor [])]))
   \<and> length (nonce_trace toy_aead sample_codec
      [WriteOp [1] vec_writer, StartRekeyOp 1 [9, 9], WriteOp [] vec_writer, ReadOp (cursor [])]) = 2"
proof -
  have "length (nonce_trace toy_aead sample_codec
      [WriteOp [1] vec_writer, StartRekeyOp 1 [9, 9], WriteOp [] vec_writer, ReadOp (cursor [])]) = 2"
    by code_simp
  then show ?thesis
    unfolding sample_codec_def
    using nonces_never_repeat [of "[WriteOp [1] vec_writer, StartRekeyOp 1 [9, 9], WriteOp [] vec_writer,
        ReadOp (cursor [])]" toy_aead "[7, 7]" "[1, 2, 3, 4, 5, 6, 7, 8]" "[8, 7, 6, 5, 4, 3, 2, 1]" 0] by simp
qed

text \<open>
  C11. Every frame counter is delivered at most once: in every sequence of operations, with every
  stream content an adversary may choose and with any rekeys in between, the counters of the
  frames that \<open>read_frame\<close> returned as plaintext are pairwise distinct.
\<close>

theorem frames_delivered_at_most_once: "distinct (delivered A (codec_new key sp rp k) xs)"
  using delivered_once [of REPLAY_WINDOW_SIZE "codec_new key sp rp k" "{}" A xs]
  by (simp add: codec_new_def replay_abs_new)

text \<open>
  Only authenticated data is delivered: when \<open>read_frame\<close> returns a plaintext, the stream
  held a frame whose counter the replay window had not accepted before, whose key identifier
  names the active key or the previous one of a running rekey, and whose body decrypts to that
  plaintext under that key and the receive prefix.
\<close>

theorem read_frame_delivers_authentic:
  assumes "read_frame A c r = (c', r', Inr p)"
  shows "\<exists>b key. b = take (length b) (drop 5 (rbuf r))
    \<and> snd (replay_check (recv_replay c) (body_counter b))
    \<and> (b ! 0 = codec_kid c \<and> key = cipher (cstate c) \<or> prev (cstate c) = Some (b ! 0, key))
    \<and> aead_decrypt A key (frame_nonce (recv_prefix c) (body_counter b)) (drop 5 b) = Some p"
proof (rule read_frame_cases [where A = A and c = c and r = r])
  fix b r1
  assume b: "b = take (length b) (drop TLS_RECORD_HEADER_SIZE (rbuf r))"
    and rf: "read_frame A c r = (fst (open_body A c b), r1, snd (open_body A c b))"
  then have "snd (open_body A c b) = Inr p" using assms by simp
  then obtain key where "snd (replay_check (recv_replay c) (body_counter b))"
      "select_key (cstate c) (b ! 0) = Some key"
      "aead_decrypt A key (frame_nonce (recv_prefix c) (body_counter b)) (drop 5 b) = Some p"
    by (auto simp: open_body_delivers)
  with b show ?thesis
    by (intro exI [of _ b] exI [of _ key])
      (auto simp: select_key_def codec_kid_def TLS_RECORD_HEADER_SIZE_def split: if_splits option.splits)
qed (use assms in auto)

theorem read_frame_delivers_authentic_witness:
  "\<exists>b key. b = take (length b) (drop 5 (rbuf (cursor (sealed toy_aead sample_codec [42]))))
    \<and> snd (replay_check (recv_replay sample_peer) (body_counter b))
    \<and> (b ! 0 = codec_kid sample_peer \<and> key = cipher (cstate sample_peer) \<or> prev (cstate sample_peer) = Some (b ! 0, key))
    \<and> aead_decrypt toy_aead key (frame_nonce (recv_prefix sample_peer) (body_counter b)) (drop 5 b) = Some [42]"
proof -
  have "snd (snd (read_frame toy_aead sample_peer (cursor (sealed toy_aead sample_codec [42])))) = Inr [42]"
    by code_simp
  then obtain c' r' where "read_frame toy_aead sample_peer (cursor (sealed toy_aead sample_codec [42])) = (c', r', Inr [42])"
    by (metis prod.collapse)
  then show ?thesis by (rule read_frame_delivers_authentic)
qed

lemma replay_check_again:
  assumes "snd (replay_check w n)"
  shows "snd (replay_check (fst (replay_check w n)) n) = False"
  using assms by (auto simp: replay_check_def Let_def split: option.splits if_splits)

text \<open>The body of a frame with a bad tag: the window moves although the frame is refused.\<close>

lemma open_body_forged:
  assumes n: "n < REKEY_THRESHOLD" and "snd (replay_check (recv_replay c) n)"
    and "aead_decrypt A (cipher (cstate c)) (frame_nonce (recv_prefix c) n) ct = None"
  shows "open_body A c ([kid (cstate c)] @ be32 (ucast n) @ ct) =
    (c\<lparr>recv_replay := fst (replay_check (recv_replay c) n)\<rparr>, Inl (Crypto (aead_error A)))"
proof -
  have "drop (KID_SIZE + COUNTER_SIZE) ([kid (cstate c)] @ be32 (ucast n) @ ct) = ct"
    by (simp add: codec_simps be32_def)
  moreover have "replay_check (recv_replay c) n = (fst (replay_check (recv_replay c) n), True)"
    using assms(2) by (simp add: prod_eq_iff)
  ultimately show ?thesis
    unfolding open_body_def Let_def body_counter_frame [OF n]
    using assms(3) by (auto simp: select_key_def split: prod.split bool.split)
qed

lemma open_body_replayed:
  assumes "\<not> snd (replay_check (recv_replay c) (body_counter b))"
  shows "snd (open_body A c b) = Inl (ReplayDetected (body_counter b))"
  using assms by (auto simp: open_body_def Let_def split: prod.split bool.split)

text \<open>
  C24. The replay window is updated before a frame is authenticated, so a forged frame can cost a
  genuine one: with a receiver that would deliver the sender's next frame, a frame with that
  frame's counter and a ciphertext that does not decrypt is refused with a crypto error, and the
  genuine frame that follows is then refused as a replay.
\<close>

theorem forged_frame_blocks_genuine:
  assumes "aead_correct A" and "linked s r" and "length p \<le> MAX_PAYLOAD"
    and n: "send_counter s < REKEY_THRESHOLD"
    and "TAG_SIZE \<le> length ct" and "length ct \<le> MAX_PAYLOAD + TAG_SIZE"
    and bad: "aead_decrypt A (cipher (cstate r)) (frame_nonce (recv_prefix r) (send_counter s)) ct = None"
  shows "snd (snd (read_frame A r (cursor (sealed A s p)))) = Inr p
    \<and> (case read_frame A r (cursor (frame_bytes (codec_kid r) (send_counter s) ct @ sealed A s p)) of
         (r1, i1, res1) \<Rightarrow> res1 = Inl (Crypto (aead_error A))
           \<and> snd (snd (read_frame A r1 i1)) = Inl (ReplayDetected (send_counter s)))"
proof -
  have acc: "snd (replay_check (recv_replay r) (send_counter s))"
    using linked_can_open [OF assms(2)] by (simp add: can_open_def)
  let ?r = "r\<lparr>recv_replay := fst (replay_check (recv_replay r) (send_counter s))\<rparr>"
  have first: "read_frame A r (cursor (frame_bytes (codec_kid r) (send_counter s) ct @ sealed A s p))
      = (?r, cursor (sealed A s p), Inl (Crypto (aead_error A)))"
    using read_frame_frame [OF assms(5,6), of "cursor (frame_bytes (codec_kid r) (send_counter s) ct @ sealed A s p)"
        "codec_kid r" "send_counter s" "sealed A s p" A r]
    unfolding codec_kid_def open_body_forged [OF n acc bad] by (simp add: cursor_def)
  obtain ct' where ct': "aead_encrypt A (cipher (cstate s)) (frame_nonce (send_prefix s) (send_counter s)) p = Some ct'"
      "length ct' = length p + TAG_SIZE"
    using assms(1,3) by (rule aead_correctE)
  let ?b = "[kid (cstate s)] @ be32 (ucast (send_counter s)) @ ct'"
  have "snd (open_body A ?r ?b) = Inl (ReplayDetected (body_counter ?b))"
    by (rule open_body_replayed) (unfold body_counter_frame [OF n], simp add: replay_check_again [OF acc])
  then have "snd (snd (read_frame A ?r (cursor (sealed A s p)))) = Inl (ReplayDetected (send_counter s))"
    using ct' assms(3) body_counter_frame [OF n, of "kid (cstate s)" ct']
      read_frame_frame [of ct' "cursor (sealed A s p)" "kid (cstate s)" "send_counter s" "[]" A ?r]
    by (simp add: sealed_def cursor_def case_prod_beta)
  with first read_sealed [OF assms(1,3) n linked_can_open [OF assms(2)], of "cursor (sealed A s p)" "[]"]
  show ?thesis by (simp add: cursor_def)
qed

theorem forged_frame_blocks_genuine_witness:
  "case read_frame toy_aead sample_peer
       (cursor (frame_bytes (codec_kid sample_peer) (send_counter sample_codec) (replicate 16 0)
          @ sealed toy_aead sample_codec [1, 2, 3])) of
     (r1, i1, res1) \<Rightarrow> res1 = Inl (Crypto (aead_error toy_aead))
       \<and> snd (snd (read_frame toy_aead r1 i1)) = Inl (ReplayDetected (send_counter sample_codec))"
  by (rule forged_frame_blocks_genuine [THEN conjunct2, OF toy_aead_correct])
    (simp_all add: sample_codec_def sample_peer_def linked_new codec_simps,
     simp add: codec_new_def REKEY_THRESHOLD_def, code_simp)

text \<open>
  C23. A codec whose send counter has reached the rekey threshold never writes again: after any
  further operations, rekeys included, every write of a permitted payload fails with
  \<open>RekeyNeeded\<close> and transmits nothing. So no rekey message can be sent through the codec, and
  installing a new key does not revive it.
\<close>

theorem exhausted_codec_stays_silent:
  assumes "REKEY_THRESHOLD \<le> send_counter c" and "unat (send_counter c) + length xs < 2 ^ 64"
    and "length p \<le> MAX_PAYLOAD"
  shows "snd (write_frame A (foldl (codec_exec A) c xs) w p) =
    (w, Inl (RekeyNeeded (send_counter (foldl (codec_exec A) c xs)) REKEY_THRESHOLD))"
  using write_frame_exhausted [OF assms(3) exhausted_run [OF assms(1,2)]] by simp

theorem exhausted_codec_stays_silent_witness:
  "snd (write_frame toy_aead (foldl (codec_exec toy_aead) (sample_codec\<lparr>send_counter := REKEY_THRESHOLD\<rparr>)
      [StartRekeyOp 1 [9, 9], CompleteRekeyOp]) vec_writer [1]) =
    (vec_writer, Inl (RekeyNeeded (send_counter (foldl (codec_exec toy_aead)
       (sample_codec\<lparr>send_counter := REKEY_THRESHOLD\<rparr>) [StartRekeyOp 1 [9, 9], CompleteRekeyOp])) REKEY_THRESHOLD))"
  by (rule exhausted_codec_stays_silent) (simp_all add: REKEY_THRESHOLD_def MAX_PAYLOAD_def)

text \<open>
  C21. The overlap window of a rekey: after \<open>start_rekey\<close>, through any sequence of reads of any
  stream contents, frames of the new key identifier are matched with the new key, and frames of
  the old one with the old key for exactly as long as fewer than 256 frames were delivered; from
  then on the old key is gone.
\<close>

theorem rekey_overlap_window:
  fixes A c k key rs
  defines "c1 \<equiv> start_rekey c k key"
  assumes "k \<noteq> codec_kid c"
  shows "select_key (cstate (foldl (codec_exec A) c1 (map ReadOp rs))) k = Some key
    \<and> select_key (cstate (foldl (codec_exec A) c1 (map ReadOp rs))) (codec_kid c) =
       (if length (delivered A c1 (map ReadOp rs)) < 256 then Some (cipher (cstate c)) else None)
    \<and> (is_rekey_overlap (foldl (codec_exec A) c1 (map ReadOp rs))
        \<longleftrightarrow> length (delivered A c1 (map ReadOp rs)) < 256)"
proof -
  have "prev (cstate c1) = Some (codec_kid c, cipher (cstate c))" "frames_since_rekey (cstate c1) = 0"
    "kid (cstate c1) = k" "cipher (cstate c1) = key"
    by (simp_all add: c1_def start_rekey_def codec_kid_def Let_def)
  with overlap_run [of c1 "(codec_kid c, cipher (cstate c))" A rs] assms(2)
  show ?thesis by (simp add: select_key_def is_rekey_overlap_def)
qed

theorem rekey_overlap_window_witness:
  "is_rekey_overlap (foldl (codec_exec toy_aead) (start_rekey sample_peer 1 [9, 9])
       (map ReadOp [cursor (sealed toy_aead sample_codec [5])]))
     \<longleftrightarrow> length (delivered toy_aead (start_rekey sample_peer 1 [9, 9])
       (map ReadOp [cursor (sealed toy_aead sample_codec [5])])) < 256"
proof -
  have "1 \<noteq> codec_kid sample_peer" by (simp add: codec_kid_def sample_peer_def codec_new_def)
  from rekey_overlap_window [OF this, of toy_aead "[9, 9]" "[cursor (sealed toy_aead sample_codec [5])]"]
  show ?thesis by blast
qed

lemma read_frame_error_kinds:
  assumes "read_frame A c r = (c', r', Inl e)"
  shows "e \<in> range Io \<union> range Protocol \<union> {FrameTooLarge n MAX_FRAME_BODY | n. True}
    \<union> range ReplayDetected \<union> range UnknownKeyId \<union> {Crypto (aead_error A)}"
proof (rule read_frame_cases [where A = A and c = c and r = r])
  fix b r1
  assume "read_frame A c r = (fst (open_body A c b), r1, snd (open_body A c b))"
  then have "snd (open_body A c b) = Inl e" using assms by simp
  then show ?thesis
    by (auto simp: open_body_def Let_def split: option.splits prod.splits bool.splits)
qed (use assms in auto)

text \<open>
  The errors of \<open>read_frame\<close>: an I/O error, a framing error, an oversized frame, a replay, an
  unknown key identifier or a decryption failure, and no other. In particular a read never asks
  for a rekey.
\<close>

theorem read_frame_errors:
  assumes "read_frame A c r = (c', r', Inl e)"
  shows "e \<in> range Io \<union> range Protocol \<union> {FrameTooLarge n MAX_FRAME_BODY | n. True}
    \<union> range ReplayDetected \<union> range UnknownKeyId \<union> {Crypto (aead_error A)}"
  by (rule read_frame_error_kinds [OF assms])

theorem read_frame_errors_witness:
  "Protocol ''frame body too small: 0 (min 21)'' \<in> range Io \<union> range Protocol
    \<union> {FrameTooLarge n MAX_FRAME_BODY | n. True} \<union> range ReplayDetected \<union> range UnknownKeyId
    \<union> {Crypto (aead_error toy_aead)}"
proof -
  have "read_frame toy_aead sample_peer (cursor [0x17, 3, 3, 0, 0])
      = (sample_peer, cursor [], Inl (Protocol ''frame body too small: 0 (min 21)''))"
    by code_simp
  then show ?thesis by (rule read_frame_errors)
qed

text \<open>
  What reaches the wire is a TLS application-data record: a successful write appends exactly
  one record \<open>17 03 03\<close> whose sixteen-bit length field is the number of bytes that follow it,
  within the limit the reader accepts, and which carries the key identifier and the counter.
\<close>

theorem write_frame_is_tls_record:
  assumes "aead_correct A" and "length p \<le> MAX_PAYLOAD" and "write_frame A c w p = (c', w', Inr ())"
  shows "\<exists>h l body. wbuf w' = wbuf w @ [0x17, 0x03, 0x03, h, l] @ body
    \<and> unat (from_be16 h l) = length body \<and> length body = length p + 21 \<and> length body \<le> MAX_FRAME_BODY
    \<and> body ! 0 = codec_kid c \<and> body_counter body = send_counter c \<and> send_counter c' = send_counter c + 1"
proof -
  obtain ct where ct: "aead_encrypt A (cipher (cstate c)) (frame_nonce (send_prefix c) (send_counter c)) p = Some ct"
      "length ct = length p + TAG_SIZE"
    using assms(1,2) by (rule aead_correctE)
  let ?b = "be16 (of_nat (KID_SIZE + COUNTER_SIZE + length ct))"
  let ?body = "[kid (cstate c)] @ be32 (ucast (send_counter c)) @ ct"
  obtain h l where hl: "?b = [h, l]" by (simp add: be16_def)
  then have "unat (from_be16 h l) = 5 + length ct"
    using from_be16_be16 [of "of_nat (KID_SIZE + COUNTER_SIZE + length ct)"] body_len_fits [of ct] ct(2) assms(2) by simp
  moreover have n: "send_counter c < REKEY_THRESHOLD"
    using assms(2,3) by (auto simp: write_frame_def Let_def not_le [symmetric] split: if_splits)
  moreover have "wbuf w' = wbuf w @ frame_bytes (kid (cstate c)) (send_counter c) ct"
    and "send_counter c' = send_counter c + 1"
    using assms(2,3) ct n
    by (auto simp: write_frame_def Let_def flush_def leD dest!: write_all_InrD split: prod.splits sum.splits if_splits)
  moreover have "frame_bytes (kid (cstate c)) (send_counter c) ct = [0x17, 0x03, 0x03, h, l] @ ?body"
    using hl by (simp add: frame_bytes_def TLS_CONTENT_TYPE_def TLS_VERSION_MAJOR_def TLS_VERSION_MINOR_def)
  ultimately show ?thesis
    using ct(2) assms(2) body_counter_frame [OF n, of "kid (cstate c)" ct]
    by (intro exI [of _ h] exI [of _ l] exI [of _ ?body]) (simp add: codec_simps codec_kid_def)
qed

theorem write_frame_is_tls_record_witness:
  "\<exists>h l body. wbuf (fst (snd (write_frame toy_aead sample_codec vec_writer [5, 6])))
      = wbuf vec_writer @ [0x17, 0x03, 0x03, h, l] @ body \<and> length body = 23"
proof -
  have "snd (snd (write_frame toy_aead sample_codec vec_writer [5, 6])) = Inr ()" by code_simp
  then have "write_frame toy_aead sample_codec vec_writer [5, 6] =
      (fst (write_frame toy_aead sample_codec vec_writer [5, 6]),
       fst (snd (write_frame toy_aead sample_codec vec_writer [5, 6])), Inr ())"
    by (metis prod.collapse)
  from write_frame_is_tls_record [OF toy_aead_correct _ this] show ?thesis
    by (auto simp: MAX_PAYLOAD_def)
qed

text \<open>
  The key store never loses its active key: after any sequence of additions, rotations and
  removals \<open>active_key\<close> does not panic and returns the key the last rotation (or a later
  addition under the same identifier) stored.
\<close>

theorem keystore_active_key:
  "active_key (foldl key_exec (keystore_new key) xs) = Ret (fst (foldl last_active (key, 0) xs))
   \<and> active_kid (foldl key_exec (keystore_new key) xs) = snd (foldl last_active (key, 0) xs)"
  using key_run_active [of "keystore_new key" key xs]
  by (auto simp: active_key_def keystore_new_def split: prod.splits)

end
