(* ===== verification/Key_Exchange.thy ===== *)
theory Key_Exchange
  imports Prelude
begin

text \<open>
  The key agreement the handshake rests on, and \<open>transport-core/src/auth.rs\<close>. X25519 and
  HKDF-SHA256 are parameters: a record of the public key of a secret, the shared secret of a
  secret and a public key, and the 32-byte expansion of input key material under a label (an
  expansion of that length never fails, so the \<open>expect\<close> of the sources has no failing branch).
  Random secrets are arguments of the operations that draw them.
\<close>

record kex =
  kx_public :: "bytes \<Rightarrow> bytes"
  kx_dh :: "bytes \<Rightarrow> bytes \<Rightarrow> bytes"
  kx_hkdf :: "bytes \<Rightarrow> bytes \<Rightarrow> bytes"

definition AUTH_KEY_SIZE :: nat where "AUTH_KEY_SIZE = 32"

text \<open>What the code relies on: the two sides of an exchange agree, and all values have 32 bytes.\<close>

definition kex_correct :: "kex \<Rightarrow> bool" where
  "kex_correct K \<longleftrightarrow>
     (\<forall>a b. kx_dh K a (kx_public K b) = kx_dh K b (kx_public K a)) \<and>
     (\<forall>a. length (kx_public K a) = 32) \<and> (\<forall>a p. length (kx_dh K a p) = 32) \<and>
     (\<forall>ikm info. length (kx_hkdf K ikm info) = 32)"

lemma kex_correctD:
  assumes "kex_correct K"
  shows "kx_dh K a (kx_public K b) = kx_dh K b (kx_public K a)"
    and "length (kx_public K a) = 32" and "length (kx_dh K a p) = 32" and "length (kx_hkdf K ikm info) = 32"
  using assms unfolding kex_correct_def by blast+

section \<open>Key pairs and the deprecated token\<close>

record auth_key_pair =
  kp_secret :: bytes
  kp_public :: bytes

definition key_pair_from_bytes :: "kex \<Rightarrow> bytes \<Rightarrow> auth_key_pair" where
  "key_pair_from_bytes K secret_bytes = \<lparr>kp_secret = secret_bytes, kp_public = kx_public K secret_bytes\<rparr>"

text \<open>\<open>generate\<close> is \<open>from_bytes\<close> on the secret the random generator draws.\<close>

definition key_pair_generate :: "kex \<Rightarrow> bytes \<Rightarrow> auth_key_pair" where
  "key_pair_generate K drawn = \<lparr>kp_secret = drawn, kp_public = kx_public K drawn\<rparr>"

definition derive_shared_key :: "kex \<Rightarrow> auth_key_pair \<Rightarrow> bytes \<Rightarrow> bytes" where
  "derive_shared_key K kp peer_public =
     kx_hkdf K (kx_dh K (kp_secret kp) peer_public) (bytes_of ''isolated-browser-auth'')"

definition verify_auth_token :: "kex \<Rightarrow> bytes \<Rightarrow> bytes \<Rightarrow> bytes \<Rightarrow> bool" where
  "verify_auth_token K client_public server_secret expected_token \<longleftrightarrow>
     derive_shared_key K (key_pair_from_bytes K server_secret) client_public = expected_token"

definition generate_auth_token :: "kex \<Rightarrow> bytes \<Rightarrow> bytes \<Rightarrow> bytes" where
  "generate_auth_token K client_secret server_public =
     derive_shared_key K (key_pair_from_bytes K client_secret) server_public"

text \<open>
  The deprecated token exchange agrees: a token a client generates for a server's public key
  is the one and only token the server verifies for that client, and has 32 bytes.
\<close>

theorem auth_token_agreement:
  assumes "kex_correct K"
  shows "(verify_auth_token K (kp_public (key_pair_from_bytes K c)) s t
          \<longleftrightarrow> t = generate_auth_token K c (kp_public (key_pair_from_bytes K s)))
    \<and> length (generate_auth_token K c p) = AUTH_KEY_SIZE"
  using kex_correctD [OF assms]
  by (auto simp: verify_auth_token_def generate_auth_token_def derive_shared_key_def
      key_pair_from_bytes_def AUTH_KEY_SIZE_def)

section \<open>An instance of the parameter\<close>

text \<open>A commutative stand-in for the group and a padded reversal for the expansion.\<close>

definition pad32 :: "bytes \<Rightarrow> bytes" where
  "pad32 bs = take 32 (bs @ replicate 32 0)"

definition toy_kex :: kex where
  "toy_kex = \<lparr>kx_public = pad32, kx_dh = (\<lambda>a p. map2 (+) (pad32 a) (pad32 p)),
     kx_hkdf = (\<lambda>ikm info. pad32 (rev ikm @ info))\<rparr>"

lemma length_pad32 [simp]: "length (pad32 bs) = 32"
  by (simp add: pad32_def)

lemma pad32_pad32 [simp]: "pad32 (pad32 bs) = pad32 bs"
  by (simp add: pad32_def)

lemma toy_kex_correct: "kex_correct toy_kex"
proof -
  have "map2 (+) xs ys = map2 (+) ys xs" for xs ys :: bytes
    by (intro nth_equalityI) (simp_all add: add.commute)
  then show ?thesis by (simp add: kex_correct_def toy_kex_def)
qed

theorem auth_token_agreement_witness:
  "verify_auth_token toy_kex (kp_public (key_pair_from_bytes toy_kex [1, 2])) [9]
     (generate_auth_token toy_kex [1, 2] (kp_public (key_pair_from_bytes toy_kex [9])))"
  using auth_token_agreement [OF toy_kex_correct] by blast

end
