(* ===== verification/Steal.thy ===== *)
theory Steal
  imports Protocol Key_Exchange
begin

text \<open>
  The session handshake and the rekey exchange of \<open>transport-core/src/steal.rs\<close>. A stream is a
  reader and a writer. The secrets and nonce prefixes that the sources draw at random are
  arguments.
\<close>

section \<open>The handshake\<close>

definition AUTH_FRAME_SIZE :: nat where "AUTH_FRAME_SIZE = 80"
definition AUTH_RESPONSE_SIZE :: nat where "AUTH_RESPONSE_SIZE = 32"
definition AUTH_INFO :: bytes where "AUTH_INFO = bytes_of ''isolated-browser-auth''"
definition SESSION_INFO :: bytes where "SESSION_INFO = bytes_of ''isolated-browser-session''"

record client_auth =
  session_key :: bytes
  c2s_prefix :: bytes
  s2c_prefix :: bytes

text \<open>
  \<open>ct_eq\<close> of the crate \<open>subtle\<close> answers whether two arrays are equal, in a time that does not depend
  on where they differ. Times are not modelled.
\<close>

definition constant_time_eq :: "bytes \<Rightarrow> bytes \<Rightarrow> bool" where
  "constant_time_eq a b \<longleftrightarrow> a = b"

definition auth_token_for :: "kex \<Rightarrow> bytes \<Rightarrow> bytes \<Rightarrow> bytes" where
  "auth_token_for K dh_shared client_psk = kx_hkdf K (dh_shared @ client_psk) AUTH_INFO"

definition client_handshake ::
  "kex \<Rightarrow> bytes \<Rightarrow> bytes \<Rightarrow> bytes \<Rightarrow> bytes \<Rightarrow> bytes \<Rightarrow> reader \<Rightarrow> writer
   \<Rightarrow> reader \<times> writer \<times> (transport_error + client_auth)" where
  "client_handshake K client_secret c2s s2c server_static_public client_psk r w =
     (let client_public = kx_public K client_secret;
          dh_shared = kx_dh K client_secret server_static_public;
          auth_token = auth_token_for K dh_shared client_psk;
          frame = client_public @ auth_token @ c2s @ s2c
      in case write_all frame w of
           (w, Inl e) \<Rightarrow> (r, w, Inl (Io e))
         | (w, Inr _) \<Rightarrow>
             (case flush w of
                (w, Inl e) \<Rightarrow> (r, w, Inl (Io e))
              | (w, Inr _) \<Rightarrow>
                  (case read_exact AUTH_RESPONSE_SIZE r of
                     (r, Inl e) \<Rightarrow> (r, w, Inl (Io e))
                   | (r, Inr response) \<Rightarrow>
                       (r, w, Inr \<lparr>session_key = kx_hkdf K (kx_dh K client_secret response) SESSION_INFO,
                                   c2s_prefix = c2s, s2c_prefix = s2c\<rparr>))))"

definition server_derive_session ::
  "kex \<Rightarrow> bytes \<Rightarrow> bytes \<Rightarrow> bytes \<Rightarrow> bytes \<Rightarrow> bytes \<Rightarrow> (bytes \<times> bytes) option" where
  "server_derive_session K server_ephemeral_secret server_static_secret client_ephemeral_public
       received_auth_token client_psk =
     (let dh_shared = kx_dh K server_static_secret client_ephemeral_public;
          expected_token = auth_token_for K dh_shared client_psk
      in if \<not> constant_time_eq expected_token received_auth_token then None
         else Some (kx_public K server_ephemeral_secret,
                    kx_hkdf K (kx_dh K server_ephemeral_secret client_ephemeral_public) SESSION_INFO))"

definition read_auth_frame ::
  "reader \<Rightarrow> reader \<times> (transport_error + bytes \<times> bytes \<times> bytes \<times> bytes)" where
  "read_auth_frame r =
     (case read_exact AUTH_FRAME_SIZE r of
        (r, Inl e) \<Rightarrow> (r, Inl (Io e))
      | (r, Inr frame) \<Rightarrow>
          (r, Inr (take 32 frame, take 32 (drop 32 frame), take 8 (drop 64 frame), take 8 (drop 72 frame))))"

definition establish_session ::
  "kex \<Rightarrow> bytes \<Rightarrow> bytes \<Rightarrow> bytes \<Rightarrow> bytes \<Rightarrow> u8 \<Rightarrow> bytes \<Rightarrow> reader \<Rightarrow> writer
   \<Rightarrow> reader \<times> writer \<times> (transport_error + frame_codec)" where
  "establish_session K client_secret c2s s2c server_public k client_psk r w =
     (case client_handshake K client_secret c2s s2c server_public client_psk r w of
        (r, w, Inl e) \<Rightarrow> (r, w, Inl e)
      | (r, w, Inr a) \<Rightarrow> (r, w, Inr (codec_new (session_key a) (c2s_prefix a) (s2c_prefix a) k)))"

section \<open>The rekey exchange\<close>

definition send_rekey_init ::
  "aead \<Rightarrow> frame_codec \<Rightarrow> writer \<Rightarrow> u8 \<Rightarrow> bytes \<Rightarrow> frame_codec \<times> writer \<times> (transport_error + unit)" where
  "send_rekey_init A c w new_kid new_key = write_frame A c w (REKEY_INIT_MAGIC @ [new_kid] @ new_key)"

definition client_handle_rekey ::
  "aead \<Rightarrow> frame_codec \<Rightarrow> reader \<Rightarrow> writer
   \<Rightarrow> frame_codec \<times> reader \<times> writer \<times> (transport_error + u8 \<times> bytes)" where
  "client_handle_rekey A c r w =
     (case read_frame A c r of
        (c, r, Inl e) \<Rightarrow> (c, r, w, Inl e)
      | (c, r, Inr frame) \<Rightarrow>
          let m = length REKEY_INIT_MAGIC in
          if length frame < m + 1 + 32 then (c, r, w, Inl (Protocol ''REKEY_INIT too short''))
          else if take m frame \<noteq> REKEY_INIT_MAGIC then (c, r, w, Inl (Protocol ''bad REKEY_INIT magic''))
          else
            let new_kid = frame ! m; new_key = take 32 (drop (m + 1) frame) in
            (case write_frame A c w (REKEY_ACK_MAGIC @ [new_kid]) of
               (c, w, Inl e) \<Rightarrow> (c, r, w, Inl e)
             | (c, w, Inr _) \<Rightarrow> (start_rekey c new_kid new_key, r, w, Inr (new_kid, new_key))))"

definition server_handle_rekey_ack ::
  "aead \<Rightarrow> frame_codec \<Rightarrow> reader \<Rightarrow> u8 \<Rightarrow> bytes \<Rightarrow> frame_codec \<times> reader \<times> (transport_error + unit)" where
  "server_handle_rekey_ack A c r new_kid new_key =
     (case read_frame A c r of
        (c, r, Inl e) \<Rightarrow> (c, r, Inl e)
      | (c, r, Inr frame) \<Rightarrow>
          let m = length REKEY_ACK_MAGIC in
          if length frame < m + 1 then (c, r, Inl (Protocol ''REKEY_ACK too short''))
          else if take m frame \<noteq> REKEY_ACK_MAGIC then (c, r, Inl (Protocol ''bad REKEY_ACK magic''))
          else if frame ! m \<noteq> new_kid then
            (c, r, Inl (Protocol (''REKEY_ACK kid mismatch: '' @ show_nat (unat (frame ! m))
               @ '' != '' @ show_nat (unat new_kid))))
          else (start_rekey c new_kid new_key, r, Inr ()))"

section \<open>Lemmas\<close>

lemma constant_time_eq_iff [simp]: "constant_time_eq a b \<longleftrightarrow> a = b"
  by (simp add: constant_time_eq_def)

definition auth_frame :: "kex \<Rightarrow> bytes \<Rightarrow> bytes \<Rightarrow> bytes \<Rightarrow> bytes \<Rightarrow> bytes \<Rightarrow> bytes" where
  "auth_frame K cs c2s s2c spub psk = kx_public K cs @ auth_token_for K (kx_dh K cs spub) psk @ c2s @ s2c"

lemma read_auth_frame_parts:
  assumes "length pk = 32" and "length tok = 32" and "length a = 8" and "length b = 8"
    and "rbuf r = (pk @ tok @ a @ b) @ rest"
  shows "read_auth_frame r = (r\<lparr>rbuf := rest\<rparr>, Inr (pk, tok, a, b))"
proof -
  have "read_exact AUTH_FRAME_SIZE r = (r\<lparr>rbuf := rest\<rparr>, Inr (pk @ tok @ a @ b))"
    using assms by (intro read_exact_append) (simp_all add: AUTH_FRAME_SIZE_def)
  then show ?thesis using assms by (simp add: read_auth_frame_def)
qed

lemma client_handshake_ok:
  assumes "healthy w" and "length resp = 32" and "rbuf r = resp @ rest"
  shows "client_handshake K cs c2s s2c spub psk r w =
    (r\<lparr>rbuf := rest\<rparr>, w\<lparr>wbuf := wbuf w @ auth_frame K cs c2s s2c spub psk\<rparr>,
     Inr \<lparr>session_key = kx_hkdf K (kx_dh K cs resp) SESSION_INFO, c2s_prefix = c2s, s2c_prefix = s2c\<rparr>)"
  using assms read_exact_append [of resp 32 r rest]
  by (simp add: client_handshake_def auth_frame_def Let_def stream_simps AUTH_RESPONSE_SIZE_def)

lemma linked_start_rekey:
  "linked s r \<Longrightarrow> linked (start_rekey s k key) (start_rekey r k key)"
  by (simp add: linked_def start_rekey_def Let_def)

lemma linked_unaffected:
  "linked x (s\<lparr>send_counter := n\<rparr>) = linked x s"
  "linked (r\<lparr>recv_replay := w, cstate := count_overlap (cstate r)\<rparr>) x = linked r x"
  "sealed A (r\<lparr>recv_replay := w, cstate := count_overlap (cstate r)\<rparr>) p = sealed A r p"
  "send_counter (r\<lparr>recv_replay := w, cstate := count_overlap (cstate r)\<rparr>) = send_counter r"
  by (simp_all add: linked_def sealed_def)

text \<open>One frame between linked codecs, as the receiver's outcome on a stream that starts with it.\<close>

lemma linked_send_one:
  assumes "aead_correct A" and "linked s r" and "length p \<le> MAX_PAYLOAD"
    and "send_counter s < REKEY_THRESHOLD" and "healthy w" and "rbuf i = sealed A s p @ rest"
  shows "\<exists>s' r'. write_frame A s w p = (s', w\<lparr>wbuf := wbuf w @ sealed A s p\<rparr>, Inr ())
    \<and> read_frame A r i = (r', i\<lparr>rbuf := rest\<rparr>, Inr p) \<and> linked s' r'
    \<and> (\<forall>x. linked x s \<longrightarrow> linked x s') \<and> (\<forall>x. linked r x \<longrightarrow> linked r' x)
    \<and> send_counter r' = send_counter r \<and> (\<forall>q. sealed A r' q = sealed A r q)"
  using write_frame_ok [OF assms(1,3-5)] linked_step [OF assms(2,4)]
    read_sealed [OF assms(1,3,4) linked_can_open [OF assms(2)] assms(6)]
  by (intro exI [of _ "s\<lparr>send_counter := send_counter s + 1\<rparr>"]
      exI [of _ "r\<lparr>recv_replay := fst (replay_check (recv_replay r) (send_counter s)), cstate := count_overlap (cstate r)\<rparr>"])
    (simp only: linked_unaffected simp_thms)

lemma length_magics [simp]: "length REKEY_INIT_MAGIC = 6" "length REKEY_ACK_MAGIC = 9"
  by (simp_all add: REKEY_INIT_MAGIC_def REKEY_ACK_MAGIC_def)

section \<open>Properties\<close>

text \<open>
  C12. Both ends of the handshake agree: the client transmits one 80-byte frame, the server reads
  from it the client's ephemeral key, its token and both prefixes, accepts the token, and after
  its 32-byte answer the client's codec (send and receive prefix as drawn) and the server's codec
  (prefixes swapped) are linked in both directions under the same session key.
\<close>

theorem handshake_agreement:
  assumes K: "kex_correct K" and "length c2s = 8" and "length s2c = 8" and "healthy w"
  shows "\<exists>wire tok resp key. length wire = AUTH_FRAME_SIZE
    \<and> (\<forall>i rest. rbuf i = wire @ rest \<longrightarrow>
         read_auth_frame i = (i\<lparr>rbuf := rest\<rparr>, Inr (kx_public K cs, tok, c2s, s2c)))
    \<and> server_derive_session K es ss (kx_public K cs) tok psk = Some (resp, key) \<and> length resp = AUTH_RESPONSE_SIZE
    \<and> (\<forall>r rest. rbuf r = resp @ rest \<longrightarrow>
         establish_session K cs c2s s2c (kx_public K ss) k psk r w =
           (r\<lparr>rbuf := rest\<rparr>, w\<lparr>wbuf := wbuf w @ wire\<rparr>, Inr (codec_new key c2s s2c k)))
    \<and> linked (codec_new key c2s s2c k) (codec_new key s2c c2s k)
    \<and> linked (codec_new key s2c c2s k) (codec_new key c2s s2c k)"
proof -
  note kx = kex_correctD [OF K]
  let ?tok = "auth_token_for K (kx_dh K cs (kx_public K ss)) psk"
  let ?key = "kx_hkdf K (kx_dh K es (kx_public K cs)) SESSION_INFO"
  have tok: "length ?tok = 32" by (simp add: auth_token_for_def kx)
  have "server_derive_session K es ss (kx_public K cs) ?tok psk = Some (kx_public K es, ?key)"
    by (simp add: server_derive_session_def Let_def kx(1) [of ss cs])
  moreover have "establish_session K cs c2s s2c (kx_public K ss) k psk r w =
      (r\<lparr>rbuf := rest\<rparr>, w\<lparr>wbuf := wbuf w @ auth_frame K cs c2s s2c (kx_public K ss) psk\<rparr>,
       Inr (codec_new ?key c2s s2c k))" if "rbuf r = kx_public K es @ rest" for r rest
    by (simp add: establish_session_def client_handshake_ok [OF assms(4) kx(2) that] kx(1) [of cs es])
  moreover have "read_auth_frame i = (i\<lparr>rbuf := rest\<rparr>, Inr (kx_public K cs, ?tok, c2s, s2c))"
    if "rbuf i = auth_frame K cs c2s s2c (kx_public K ss) psk @ rest" for i rest
    using that by (intro read_auth_frame_parts kx tok assms) (simp add: auth_frame_def)
  moreover have "length (auth_frame K cs c2s s2c (kx_public K ss) psk) = AUTH_FRAME_SIZE"
    using assms(2,3) tok by (simp add: auth_frame_def kx AUTH_FRAME_SIZE_def)
  ultimately show ?thesis
    by (intro exI [of _ "auth_frame K cs c2s s2c (kx_public K ss) psk"] exI [of _ ?tok]
        exI [of _ "kx_public K es"] exI [of _ ?key] conjI linked_new allI impI)
      (simp_all add: kx AUTH_RESPONSE_SIZE_def)
qed

theorem handshake_agreement_witness:
  "\<exists>wire tok resp key. server_derive_session toy_kex [5] [6] (kx_public toy_kex [7]) tok [8] = Some (resp, key)
    \<and> (\<forall>r rest. rbuf r = resp @ rest \<longrightarrow>
         establish_session toy_kex [7] (replicate 8 1) (replicate 8 2) (kx_public toy_kex [6]) 0 [8] r vec_writer =
           (r\<lparr>rbuf := rest\<rparr>, vec_writer\<lparr>wbuf := wbuf vec_writer @ wire\<rparr>,
            Inr (codec_new key (replicate 8 1) (replicate 8 2) 0)))"
  using handshake_agreement [OF toy_kex_correct, of "replicate 8 1" "replicate 8 2" vec_writer "[7]" "[5]" "[6]" "[8]" 0]
  by auto

text \<open>
  C22. A rekey converges: from codecs linked in both directions, with counters below the
  threshold, the server's announcement, the client's acknowledgement and the server's check all
  succeed on each other's bytes, both sides install the announced key and identifier, and they
  are linked in both directions again.
\<close>

theorem rekey_converges:
  assumes A: "aead_correct A" and "linked s c" and "linked c s" and "length key = 32"
    and "send_counter s < REKEY_THRESHOLD" and "send_counter c < REKEY_THRESHOLD"
    and "healthy ws" and "healthy wc"
    and down: "rbuf ic = sealed A s (REKEY_INIT_MAGIC @ [k] @ key) @ restc"
    and up: "rbuf is = sealed A c (REKEY_ACK_MAGIC @ [k]) @ rests"
  shows "\<exists>s' s'' c'. send_rekey_init A s ws k key =
        (s', ws\<lparr>wbuf := wbuf ws @ sealed A s (REKEY_INIT_MAGIC @ [k] @ key)\<rparr>, Inr ())
    \<and> client_handle_rekey A c ic wc =
        (c', ic\<lparr>rbuf := restc\<rparr>, wc\<lparr>wbuf := wbuf wc @ sealed A c (REKEY_ACK_MAGIC @ [k])\<rparr>, Inr (k, key))
    \<and> server_handle_rekey_ack A s' is k key = (s'', is\<lparr>rbuf := rests\<rparr>, Inr ())
    \<and> linked s'' c' \<and> linked c' s'' \<and> codec_kid s'' = k \<and> codec_kid c' = k
    \<and> is_rekey_overlap s'' \<and> is_rekey_overlap c'"
proof -
  have len: "length (REKEY_INIT_MAGIC @ [k] @ key) \<le> MAX_PAYLOAD" "length (REKEY_ACK_MAGIC @ [k]) \<le> MAX_PAYLOAD"
    using assms(4) by (simp_all add: MAX_PAYLOAD_def)
  obtain s1 c1 where one: "write_frame A s ws (REKEY_INIT_MAGIC @ [k] @ key) =
        (s1, ws\<lparr>wbuf := wbuf ws @ sealed A s (REKEY_INIT_MAGIC @ [k] @ key)\<rparr>, Inr ())"
      "read_frame A c ic = (c1, ic\<lparr>rbuf := restc\<rparr>, Inr (REKEY_INIT_MAGIC @ [k] @ key))"
      "linked s1 c1" "\<forall>x. linked x s \<longrightarrow> linked x s1" "\<forall>x. linked c x \<longrightarrow> linked c1 x"
      "send_counter c1 = send_counter c" "\<forall>q. sealed A c1 q = sealed A c q"
    using linked_send_one [OF A assms(2) len(1) assms(5,7) down] by blast
  have reverse: "linked c1 s1" using one(4,5) assms(3) by blast
  have cnt: "send_counter c1 < REKEY_THRESHOLD" unfolding one(6) by (rule assms(6))
  have up': "rbuf is = sealed A c1 (REKEY_ACK_MAGIC @ [k]) @ rests" unfolding one(7) [rule_format] by (rule up)
  obtain c2 s2 where two: "write_frame A c1 wc (REKEY_ACK_MAGIC @ [k]) =
        (c2, wc\<lparr>wbuf := wbuf wc @ sealed A c1 (REKEY_ACK_MAGIC @ [k])\<rparr>, Inr ())"
      "read_frame A s1 is = (s2, is\<lparr>rbuf := rests\<rparr>, Inr (REKEY_ACK_MAGIC @ [k]))"
      "linked c2 s2" "\<forall>x. linked x c1 \<longrightarrow> linked x c2" "\<forall>x. linked s1 x \<longrightarrow> linked s2 x"
    using linked_send_one [OF A reverse len(2) cnt assms(8) up'] by blast
  have "linked s2 c2" using two(4,5) one(3) by blast
  have "client_handle_rekey A c ic wc = (start_rekey c2 k key, ic\<lparr>rbuf := restc\<rparr>,
      wc\<lparr>wbuf := wbuf wc @ sealed A c (REKEY_ACK_MAGIC @ [k])\<rparr>, Inr (k, key))"
    using one(2,7) two(1) assms(4) by (simp add: client_handle_rekey_def Let_def nth_append)
  moreover have "server_handle_rekey_ack A s1 is k key = (start_rekey s2 k key, is\<lparr>rbuf := rests\<rparr>, Inr ())"
    using two(2) by (simp add: server_handle_rekey_ack_def Let_def nth_append)
  moreover have "linked (start_rekey s2 k key) (start_rekey c2 k key)" "linked (start_rekey c2 k key) (start_rekey s2 k key)"
    by (intro linked_start_rekey \<open>linked s2 c2\<close> two(3))+
  ultimately show ?thesis using one(1)
    by (intro exI [of _ s1] exI [of _ "start_rekey s2 k key"] exI [of _ "start_rekey c2 k key"])
      (simp add: send_rekey_init_def codec_kid_def is_rekey_overlap_def start_rekey_def Let_def)
qed

theorem rekey_converges_witness:
  "\<exists>s' s'' c'. send_rekey_init toy_aead sample_codec vec_writer 1 (replicate 32 9) =
        (s', vec_writer\<lparr>wbuf := wbuf vec_writer
           @ sealed toy_aead sample_codec (REKEY_INIT_MAGIC @ [1] @ replicate 32 9)\<rparr>, Inr ())
    \<and> server_handle_rekey_ack toy_aead s' (cursor (sealed toy_aead sample_peer (REKEY_ACK_MAGIC @ [1]))) 1 (replicate 32 9)
        = (s'', cursor [], Inr ())
    \<and> linked s'' c' \<and> linked c' s''"
proof -
  have link: "linked sample_codec sample_peer" "linked sample_peer sample_codec"
    by (simp_all add: sample_codec_def sample_peer_def linked_new)
  have n: "send_counter sample_codec < REKEY_THRESHOLD" "send_counter sample_peer < REKEY_THRESHOLD"
    by (simp_all add: sample_codec_def sample_peer_def codec_new_def REKEY_THRESHOLD_def)
  from rekey_converges [OF toy_aead_correct link _ n healthy_vec_writer healthy_vec_writer,
      of "replicate 32 9" "cursor (sealed toy_aead sample_codec (REKEY_INIT_MAGIC @ [1] @ replicate 32 9))" 1 "[]"
        "cursor (sealed toy_aead sample_peer (REKEY_ACK_MAGIC @ [1]))" "[]"]
  show ?thesis by (simp add: cursor_def) blast
qed

end
