(* ===== verification/Tls_Client.thy ===== *)
theory Tls_Client
  imports Streams
begin

text \<open>
  \<open>transport-core/src/tls.rs\<close>: the TLS client with its rotating pool of server names. The network
  and rustls are parameters: the TCP connection to an address, the server names rustls accepts,
  and the TLS handshake for a name over that connection. Text is its UTF-8 bytes.
\<close>

record 'tcp net =
  net_tcp :: "bytes \<Rightarrow> io_error + 'tcp"
  net_valid_name :: "bytes \<Rightarrow> bool"
  net_tls :: "bytes \<Rightarrow> 'tcp \<Rightarrow> io_error + (reader \<times> writer)"

record tls_client =
  sni_pool :: "bytes list"
  current_sni_idx :: nat

definition show_port :: "u16 \<Rightarrow> bytes" where
  "show_port p = bytes_of (show_nat (unat p))"

definition tls_new :: "bytes list \<Rightarrow> transport_error + tls_client" where
  "tls_new pool =
     (if pool = [] then Inl (Protocol ''SNI pool is empty'')
      else Inr \<lparr>sni_pool = pool, current_sni_idx = 0\<rparr>)"

text \<open>The remainder by zero and the index out of range panic.\<close>

definition rotate_sni :: "tls_client \<Rightarrow> tls_client outcome" where
  "rotate_sni c =
     (if length (sni_pool c) = 0 then Panic
      else Ret (c\<lparr>current_sni_idx := (current_sni_idx c + 1) mod length (sni_pool c)\<rparr>))"

definition current_sni :: "tls_client \<Rightarrow> bytes outcome" where
  "current_sni c =
     (if current_sni_idx c < length (sni_pool c) then Ret (sni_pool c ! current_sni_idx c) else Panic)"

definition tls_connect ::
  "'tcp net \<Rightarrow> tls_client \<Rightarrow> bytes \<Rightarrow> u16 \<Rightarrow> (tls_client \<times> (transport_error + reader \<times> writer)) outcome" where
  "tls_connect N c host port =
     (case net_tcp N (host @ bytes_of '':'' @ show_port port) of
        Inl e \<Rightarrow> Ret (c, Inl (Io e))
      | Inr tcp \<Rightarrow>
          (case current_sni c of
             Panic \<Rightarrow> Panic
           | Ret sni \<Rightarrow>
               if \<not> net_valid_name N sni then Ret (c, Inl (InvalidHost (string_of sni)))
               else
                 (case net_tls N sni tcp of
                    Inl e \<Rightarrow> Ret (c, Inl (Io e))
                  | Inr s \<Rightarrow> (case rotate_sni c of Panic \<Rightarrow> Panic | Ret c \<Rightarrow> Ret (c, Inr s)))))"

definition tls_wf :: "tls_client \<Rightarrow> bool" where
  "tls_wf c \<longleftrightarrow> current_sni_idx c < length (sni_pool c)"

lemma tls_new_wf: "tls_new pool = Inr c \<Longrightarrow> tls_wf c \<and> sni_pool c = pool \<and> current_sni_idx c = 0"
  by (auto simp: tls_new_def tls_wf_def split: if_splits)

lemma tls_connect_wf:
  assumes "tls_wf c"
  obtains c' r where "tls_connect N c host port = Ret (c', r)" "tls_wf c'" "sni_pool c' = sni_pool c"
    "current_sni_idx c' = (case r of Inl _ \<Rightarrow> current_sni_idx c | Inr _ \<Rightarrow> (current_sni_idx c + 1) mod length (sni_pool c))"
proof -
  have "length (sni_pool c) \<noteq> 0" "current_sni c = Ret (sni_pool c ! current_sni_idx c)"
    using assms by (auto simp: tls_wf_def current_sni_def)
  then have "\<exists>c' r. tls_connect N c host port = Ret (c', r) \<and> tls_wf c' \<and> sni_pool c' = sni_pool c \<and>
    current_sni_idx c' = (case r of Inl _ \<Rightarrow> current_sni_idx c | Inr _ \<Rightarrow> (current_sni_idx c + 1) mod length (sni_pool c))"
    using assms by (auto simp: tls_connect_def rotate_sni_def tls_wf_def split: sum.split)
  then show thesis using that by blast
qed

text \<open>A sequence of connections made by one client, and the names it presented in the successful ones.\<close>

fun tls_run :: "'tcp net \<Rightarrow> tls_client \<Rightarrow> (bytes \<times> u16) list \<Rightarrow> tls_client outcome" where
  "tls_run N c [] = Ret c"
| "tls_run N c ((h, p) # xs) = (case tls_connect N c h p of Panic \<Rightarrow> Panic | Ret (c', _) \<Rightarrow> tls_run N c' xs)"

text \<open>
  A TLS client never panics and always has a name to present: from any non-empty pool, through
  any connection attempts with any outcomes, the index stays within the pool, the pool is
  unchanged, and the name presented next is one of the pool.
\<close>

theorem tls_client_always_has_sni:
  assumes "tls_new pool = Inr c"
  shows "\<exists>c' sni. tls_run N c xs = Ret c' \<and> sni_pool c' = pool \<and> current_sni c' = Ret sni \<and> sni \<in> set pool"
proof -
  have "tls_wf c \<Longrightarrow> \<exists>c'. tls_run N c xs = Ret c' \<and> tls_wf c' \<and> sni_pool c' = sni_pool c" for c
  proof (induction xs arbitrary: c)
    case (Cons x xs)
    obtain h p where x: "x = (h, p)" by fastforce
    obtain c1 r where "tls_connect N c h p = Ret (c1, r)" "tls_wf c1" "sni_pool c1 = sni_pool c"
      using tls_connect_wf [OF Cons.prems] by metis
    with Cons.IH [of c1] x show ?case by auto
  qed simp
  with tls_new_wf [OF assms] obtain c' where "tls_run N c xs = Ret c'" "tls_wf c'" "sni_pool c' = pool" by metis
  then show ?thesis by (auto simp: tls_wf_def current_sni_def)
qed

definition refusing_net :: "unit net" where
  "refusing_net = \<lparr>net_tcp = (\<lambda>a. Inl (IoError ConnectionRefused ''connection refused'')),
     net_valid_name = (\<lambda>n. True), net_tls = (\<lambda>n t. Inl early_eof)\<rparr>"

theorem tls_client_always_has_sni_witness:
  "\<exists>c' sni. tls_run refusing_net \<lparr>sni_pool = [[97], [98]], current_sni_idx = 0\<rparr> [([104], 443)] = Ret c'
     \<and> sni_pool c' = [[97], [98]] \<and> current_sni c' = Ret sni \<and> sni \<in> set [[97], [98]]"
  by (rule tls_client_always_has_sni) (simp add: tls_new_def)

end
