(* ===== verification/Rate_Limiter.thy ===== *)
theory Rate_Limiter
  imports Prelude
begin

text \<open>
  The token bucket of \<open>transport-core/src/rate_limiter.rs\<close>. An instant is a number of
  nanoseconds; \<open>duration_since\<close> saturates at zero. Counts are 64-bit words that wrap. One call
  at a time runs its compare-and-exchange loop through at the first attempt; the last section
  models the loop itself under arbitrary interleaving of threads.
\<close>

definition second :: nat where "second = 1000000000"

record token_bucket =
  capacity :: u64
  tokens :: u64
  refill_rate :: u64
  last_refill :: nat

definition bucket_new :: "u64 \<Rightarrow> u64 \<Rightarrow> nat \<Rightarrow> token_bucket" where
  "bucket_new cap rate now = \<lparr>capacity = cap, tokens = cap, refill_rate = rate, last_refill = now\<rparr>"

definition refill :: "nat \<Rightarrow> token_bucket \<Rightarrow> token_bucket" where
  "refill now b =
     (let elapsed = now - last_refill b in
      if elapsed \<ge> second then
        let tokens_to_add = refill_rate b * of_nat (elapsed div second) in
        b\<lparr>tokens := min (tokens b + tokens_to_add) (capacity b), last_refill := now\<rparr>
      else b)"

definition try_consume :: "nat \<Rightarrow> u64 \<Rightarrow> token_bucket \<Rightarrow> token_bucket \<times> bool" where
  "try_consume now amount b =
     (let b = refill now b in
      if tokens b < amount then (b, False) else (b\<lparr>tokens := tokens b - amount\<rparr>, True))"

definition update_limits :: "u64 \<Rightarrow> u64 \<Rightarrow> token_bucket \<Rightarrow> token_bucket" where
  "update_limits cap rate b = b\<lparr>capacity := cap, refill_rate := rate, tokens := cap\<rparr>"

text \<open>\<open>RateLimiter\<close> is a bucket of one second's worth of bytes.\<close>

definition rate_limiter_new :: "u64 \<Rightarrow> nat \<Rightarrow> token_bucket" where
  "rate_limiter_new bytes_per_second now = bucket_new bytes_per_second bytes_per_second now"

definition update_limit :: "u64 \<Rightarrow> token_bucket \<Rightarrow> token_bucket" where
  "update_limit bps b = update_limits bps bps b"

definition limiter_try_consume :: "nat \<Rightarrow> u64 \<Rightarrow> token_bucket \<Rightarrow> token_bucket \<times> bool" where
  "limiter_try_consume now amount b = try_consume now amount b"

section \<open>The contract of a limiter\<close>

text \<open>The total granted to a sequence of requests, each at its instant.\<close>

fun granted :: "(nat \<Rightarrow> u64 \<Rightarrow> 's \<Rightarrow> 's \<times> bool) \<Rightarrow> 's \<Rightarrow> (nat \<times> u64) list \<Rightarrow> nat" where
  "granted consume s [] = 0"
| "granted consume s ((now, a) # xs) =
     (case consume now a s of (s, ok) \<Rightarrow> (if ok then unat a else 0) + granted consume s xs)"

text \<open>
  The waiting loops poll until the limiter grants the amount. The instants of the polls are an
  argument; \<open>None\<close> says that no poll of the list succeeded, so the loop is still waiting.
\<close>

fun wait_until :: "(nat \<Rightarrow> u64 \<Rightarrow> 's \<Rightarrow> 's \<times> bool) \<Rightarrow> u64 \<Rightarrow> nat list \<Rightarrow> 's \<Rightarrow> ('s \<times> nat) option" where
  "wait_until consume amount [] s = None"
| "wait_until consume amount (now # polls) s =
     (case consume now amount s of
        (s, True) \<Rightarrow> Some (s, now)
      | (s, False) \<Rightarrow> wait_until consume amount polls s)"

definition wait_for_tokens :: "u64 \<Rightarrow> nat list \<Rightarrow> token_bucket \<Rightarrow> (token_bucket \<times> nat) option" where
  "wait_for_tokens amount polls b = wait_until try_consume amount polls b"

definition wait_for_bytes_async :: "u64 \<Rightarrow> nat list \<Rightarrow> token_bucket \<Rightarrow> (token_bucket \<times> nat) option" where
  "wait_for_bytes_async amount polls b = wait_for_tokens amount polls b"

text \<open>
  What the relays rely on, for any limiter with a level, a capacity, a rate and the instant of
  its last refill. The law \<open>budget\<close> is the conservation law: what a call grants is paid for by
  the level or by the time that the refill accounts for.
\<close>

locale token_limiter =
  fixes consume :: "nat \<Rightarrow> u64 \<Rightarrow> 's \<Rightarrow> 's \<times> bool"
    and level cap rate :: "'s \<Rightarrow> u64"
    and stamp :: "'s \<Rightarrow> nat"
  assumes fixed: "cap (fst (consume now a s)) = cap s" "rate (fst (consume now a s)) = rate s"
    and bounded: "level s \<le> cap s \<Longrightarrow> level (fst (consume now a s)) \<le> cap s"
    and stamp_between: "stamp s \<le> now \<Longrightarrow> stamp s \<le> stamp (fst (consume now a s)) \<and> stamp (fst (consume now a s)) \<le> now"
    and budget: "stamp s \<le> now \<Longrightarrow>
      second * ((if snd (consume now a s) then unat a else 0) + unat (level (fst (consume now a s))))
      + unat (rate s) * stamp s \<le> second * unat (level s) + unat (rate s) * stamp (fst (consume now a s))"
    and grant_le: "level s \<le> cap s \<Longrightarrow> snd (consume now a s) \<Longrightarrow> a \<le> cap s"
    and deny_keeps: "stamp s \<le> now \<Longrightarrow> now < stamp s + second \<Longrightarrow> \<not> snd (consume now a s) \<Longrightarrow> fst (consume now a s) = s"
    and refilled: "stamp s + second \<le> now \<Longrightarrow> a \<le> cap s \<Longrightarrow> a \<le> rate s \<Longrightarrow>
      unat (level s) + unat (rate s) * ((now - stamp s) div second) < 2 ^ 64 \<Longrightarrow> snd (consume now a s)"
begin

text \<open>The throughput bound: bytes granted up to an instant never exceed level plus rate times time.\<close>

lemma granted_bound:
  assumes "sorted (map fst xs)" and "\<forall>(now, a) \<in> set xs. stamp s \<le> now \<and> now \<le> end'" and "stamp s \<le> end'"
  shows "second * granted consume s xs + unat (rate s) * stamp s \<le> second * unat (level s) + unat (rate s) * end'"
  using assms
proof (induction xs arbitrary: s)
  case Nil
  then show ?case by (simp add: trans_le_add2)
next
  case (Cons x xs)
  obtain now a where x: "x = (now, a)" by fastforce
  let ?s = "fst (consume now a s)"
  have now: "stamp s \<le> now" "now \<le> end'" using Cons.prems(2) x by auto
  have st: "stamp ?s \<le> now" using stamp_between [OF now(1)] by blast
  have "second * granted consume ?s xs + unat (rate ?s) * stamp ?s \<le> second * unat (level ?s) + unat (rate ?s) * end'"
    using Cons.prems st now(2) x by (intro Cons.IH) (auto intro: order_trans)
  with budget [OF now(1), of a] show ?case
    by (simp add: x fixed algebra_simps case_prod_beta)
qed

lemma never_granted: "level s \<le> cap s \<Longrightarrow> cap s < a \<Longrightarrow> \<not> snd (consume now a s)"
  using grant_le [of s now a] by (meson leD)

text \<open>Waiting for more than the capacity never ends; waiting for what one refill covers does.\<close>

lemma wait_never: "level s \<le> cap s \<Longrightarrow> cap s < a \<Longrightarrow> wait_until consume a polls s = None"
proof (induction polls arbitrary: s)
  case (Cons now polls)
  have "\<not> snd (consume now a s)" by (rule never_granted [OF Cons.prems])
  moreover have "wait_until consume a polls (fst (consume now a s)) = None"
    using Cons.prems by (intro Cons.IH) (simp_all only: bounded fixed)
  ultimately show ?case by (cases "consume now a s") simp
qed simp

lemma wait_ends:
  assumes "a \<le> cap s" and "a \<le> rate s" and "\<forall>t \<in> set polls. stamp s \<le> t"
    and "\<exists>t \<in> set polls. stamp s + second \<le> t"
    and "\<forall>t \<in> set polls. unat (level s) + unat (rate s) * ((t - stamp s) div second) < 2 ^ 64"
  shows "\<exists>s' t. wait_until consume a polls s = Some (s', t) \<and> t \<in> set polls"
  using assms(3-)
proof (induction polls)
  case (Cons now polls)
  show ?case
  proof (cases "snd (consume now a s)")
    case True
    then show ?thesis by (cases "consume now a s") simp
  next
    case False
    then have early: "now < stamp s + second"
      using refilled [OF _ assms(1,2), of now] Cons.prems(3) by (meson leI list.set_intros(1))
    then have "fst (consume now a s) = s" using False Cons.prems(1) by (intro deny_keeps) auto
    moreover have "\<exists>s' t. wait_until consume a polls s = Some (s', t) \<and> t \<in> set polls"
      using Cons.prems early by (intro Cons.IH) auto
    ultimately show ?thesis using False by (cases "consume now a s") auto
  qed
qed simp

text \<open>Polled one second after its last refill, a limiter grants any request within capacity and rate.\<close>

lemma wait_keeps:
  assumes "wait_until consume a polls s = Some (s', t)" and "level s \<le> cap s"
  shows "cap s' = cap s \<and> rate s' = rate s \<and> level s' \<le> cap s'"
  using assms
proof (induction polls arbitrary: s)
  case (Cons now polls)
  obtain s1 b where c: "consume now a s = (s1, b)" by fastforce
  have k: "cap s1 = cap s" "rate s1 = rate s" "level s1 \<le> cap s1"
    using fixed [of now a s] bounded [OF Cons.prems(2), of now a] c by simp_all
  show ?case using Cons.IH [of s1] Cons.prems(1) c k by (cases b) auto
qed simp

lemma wait_one_second:
  assumes "a \<le> cap s" and "a \<le> rate s" and "level s \<le> cap s" and "unat (cap s) + unat (rate s) < 2 ^ 64"
  shows "\<exists>s' t. wait_until consume a [stamp s + second] s = Some (s', t) \<and> cap s' = cap s \<and> rate s' = rate s \<and> level s' \<le> cap s'"
proof -
  have "unat (level s) + unat (rate s) * ((stamp s + second - stamp s) div second) < 2 ^ 64"
    using assms(3,4) by (simp add: word_le_nat_alt second_def)
  with wait_ends [OF assms(1,2), of "[stamp s + second]"]
  obtain s' t where "wait_until consume a [stamp s + second] s = Some (s', t)" by auto
  with wait_keeps [OF this assms(3)] show ?thesis by blast
qed

end

section \<open>The bucket meets the contract\<close>

lemma unat_add_le: "unat ((a :: u64) + b) \<le> unat a + unat b"
  by (simp add: unat_word_ariths)

lemma unat_mult_le: "unat ((a :: u64) * of_nat n) \<le> unat a * n"
proof -
  have "unat (a * of_nat n) \<le> unat a * unat (of_nat n :: u64)" by (simp add: unat_word_ariths)
  also have "\<dots> \<le> unat a * n" by (simp add: unat_of_nat)
  finally show ?thesis .
qed

lemma unat_min_le: "unat (min a (b :: u64)) \<le> unat a"
  by (simp add: min_def word_le_nat_alt)

text \<open>What a refill over a given time can add at most.\<close>

lemma refill_add_le:
  fixes t r c :: u64
  shows "second * unat (min (t + r * of_nat (e div second)) c) \<le> second * unat t + unat r * e"
proof -
  have "unat (min (t + r * of_nat (e div second)) c) \<le> unat t + unat r * (e div second)"
    using unat_min_le [of "t + r * of_nat (e div second)" c] unat_add_le [of t "r * of_nat (e div second)"]
      unat_mult_le [of r "e div second"] by linarith
  then have "second * unat (min (t + r * of_nat (e div second)) c) \<le> second * (unat t + unat r * (e div second))"
    by (rule mult_le_mono2)
  also have "\<dots> = second * unat t + unat r * (second * (e div second))" by (simp add: algebra_simps)
  also have "\<dots> \<le> second * unat t + unat r * e" by (simp add: mult_le_mono2)
  finally show ?thesis .
qed

text \<open>After a full second without wrap-around the refill covers any amount within rate and capacity.\<close>

lemma refill_covers:
  fixes t r c a :: u64
  assumes "1 \<le> n" and "a \<le> c" and "a \<le> r" and "unat t + unat r * n < 2 ^ 64"
  shows "a \<le> min (t + r * of_nat n) c"
proof -
  have "unat r * n < 2 ^ 64" using assms(4) by simp
  have "unat (r * of_nat n) = unat r * n"
  proof (cases "r = 0")
    case False
    then have "1 \<le> unat r" by (simp add: Suc_le_eq unat_gt_0)
    then have "n < 2 ^ 64" using \<open>unat r * n < 2 ^ 64\<close> by (metis dual_order.strict_trans2 mult_1 mult_le_mono1)
    with \<open>unat r * n < 2 ^ 64\<close> show ?thesis by (simp add: unat_word_ariths unat_of_nat)
  qed simp
  then have "unat (t + r * of_nat n) = unat t + unat r * n" using assms(4) by (simp add: unat_word_ariths)
  moreover have "unat r \<le> unat r * n" using assms(1) by simp
  ultimately have "a \<le> t + r * of_nat n" using assms(3) unfolding word_le_nat_alt by linarith
  with assms(2) show ?thesis by simp
qed

lemma refill_keeps [simp]:
  "capacity (refill now b) = capacity b" "refill_rate (refill now b) = refill_rate b"
  by (simp_all add: refill_def Let_def)

lemma refill_stamp:
  "last_refill b \<le> now \<Longrightarrow> last_refill b \<le> last_refill (refill now b) \<and> last_refill (refill now b) \<le> now"
  by (simp add: refill_def Let_def)

lemma refill_bounded: "tokens b \<le> capacity b \<Longrightarrow> tokens (refill now b) \<le> capacity b"
  by (simp add: refill_def Let_def)

lemma refill_budget:
  assumes "last_refill b \<le> now"
  shows "second * unat (tokens (refill now b)) + unat (refill_rate b) * last_refill b
    \<le> second * unat (tokens b) + unat (refill_rate b) * last_refill (refill now b)"
proof (cases "second \<le> now - last_refill b")
  case True
  have "unat (refill_rate b) * (now - last_refill b) + unat (refill_rate b) * last_refill b = unat (refill_rate b) * now"
    using assms by (simp add: diff_mult_distrib2)
  with refill_add_le [of "tokens b" "refill_rate b" "now - last_refill b" "capacity b"] True
  show ?thesis by (simp add: refill_def Let_def)
qed (simp add: refill_def)

lemma try_consume_eq:
  "try_consume now a b =
     (if a \<le> tokens (refill now b) then ((refill now b)\<lparr>tokens := tokens (refill now b) - a\<rparr>, True)
      else (refill now b, False))"
  by (simp add: try_consume_def Let_def not_less [symmetric])

lemma refill_early: "now < last_refill b + second \<Longrightarrow> refill now b = b"
  by (auto simp: refill_def second_def Let_def)

lemma refill_late:
  assumes "last_refill b + second \<le> now" and "a \<le> capacity b" and "a \<le> refill_rate b"
    and "unat (tokens b) + unat (refill_rate b) * ((now - last_refill b) div second) < 2 ^ 64"
  shows "a \<le> tokens (refill now b)"
proof -
  have late: "second \<le> now - last_refill b" using assms(1) by simp
  then have "1 \<le> (now - last_refill b) div second"
    using div_le_mono [OF late, of second] by (simp add: second_def)
  from refill_covers [OF this assms(2-4)] late show ?thesis by (simp add: refill_def Let_def)
qed

lemma word_sub_le: "(a :: u64) \<le> t \<Longrightarrow> t - a \<le> t"
  by (simp add: word_le_nat_alt unat_sub)

interpretation client_bucket: token_limiter try_consume tokens capacity refill_rate last_refill
proof
  fix now a s
  show "capacity (fst (try_consume now a s)) = capacity s" "refill_rate (fst (try_consume now a s)) = refill_rate s"
    by (simp_all add: try_consume_eq)
  show "last_refill s \<le> now \<Longrightarrow> last_refill s \<le> last_refill (fst (try_consume now a s))
      \<and> last_refill (fst (try_consume now a s)) \<le> now"
    using refill_stamp by (simp add: try_consume_eq)
  show "tokens s \<le> capacity s \<Longrightarrow> tokens (fst (try_consume now a s)) \<le> capacity s"
    using order_trans [OF word_sub_le refill_bounded] by (simp add: try_consume_eq refill_bounded)
  show "second * ((if snd (try_consume now a s) then unat a else 0) + unat (tokens (fst (try_consume now a s))))
      + unat (refill_rate s) * last_refill s
    \<le> second * unat (tokens s) + unat (refill_rate s) * last_refill (fst (try_consume now a s))"
    if "last_refill s \<le> now"
    using refill_budget [OF that] by (simp add: try_consume_eq unat_sub word_le_nat_alt)
  show "tokens s \<le> capacity s \<Longrightarrow> snd (try_consume now a s) \<Longrightarrow> a \<le> capacity s"
    using order_trans [OF _ refill_bounded] by (simp add: try_consume_eq split: if_splits)
  show "now < last_refill s + second \<Longrightarrow> \<not> snd (try_consume now a s) \<Longrightarrow> fst (try_consume now a s) = s"
    by (simp add: try_consume_eq refill_early split: if_splits)
  show "last_refill s + second \<le> now \<Longrightarrow> a \<le> capacity s \<Longrightarrow> a \<le> refill_rate s \<Longrightarrow>
      unat (tokens s) + unat (refill_rate s) * ((now - last_refill s) div second) < 2 ^ 64 \<Longrightarrow> snd (try_consume now a s)"
    using refill_late by (simp add: try_consume_eq)
qed

section \<open>Properties of the bucket\<close>

text \<open>
  C31. The throughput of a rate limiter is bounded: whatever amounts are requested at whatever
  instants between its creation and an instant \<open>t1\<close>, the bytes it grants do not exceed one
  second's worth (the initial burst) plus its rate times the time that has passed.
\<close>

theorem limiter_throughput:
  assumes "sorted (map fst xs)" and "\<forall>(now, a) \<in> set xs. t0 \<le> now \<and> now \<le> t1" and "t0 \<le> t1"
  shows "second * granted try_consume (rate_limiter_new bps t0) xs \<le> unat bps * (second + (t1 - t0))"
proof -
  have "second * granted try_consume (rate_limiter_new bps t0) xs + unat bps * t0 \<le> second * unat bps + unat bps * t1"
    using client_bucket.granted_bound [of xs "rate_limiter_new bps t0" t1] assms
    by (simp add: rate_limiter_new_def bucket_new_def)
  moreover have "unat bps * t1 = unat bps * (t1 - t0) + unat bps * t0"
    using assms(3) by (simp add: diff_mult_distrib2)
  ultimately show ?thesis by (simp add: algebra_simps)
qed

theorem limiter_throughput_witness:
  "second * granted try_consume (rate_limiter_new 100 0) [(0, 60), (5, 60), (second, 60)]
     \<le> unat (100 :: u64) * (second + (2 * second - 0))"
  by (rule limiter_throughput) (simp_all add: second_def)

text \<open>
  C32. Waiting ends: when the amount fits both the capacity and one second's refill, and some poll
  comes a second or more after the last refill (without the level wrapping around), one of the
  polls is granted, so \<open>wait_for_tokens\<close> returns.
\<close>

theorem wait_for_tokens_returns:
  assumes "a \<le> capacity b" and "a \<le> refill_rate b" and "\<forall>t \<in> set polls. last_refill b \<le> t"
    and "\<exists>t \<in> set polls. last_refill b + second \<le> t"
    and "\<forall>t \<in> set polls. unat (tokens b) + unat (refill_rate b) * ((t - last_refill b) div second) < 2 ^ 64"
  shows "\<exists>b' t. wait_for_tokens a polls b = Some (b', t) \<and> t \<in> set polls"
  unfolding wait_for_tokens_def by (rule client_bucket.wait_ends [OF assms])

theorem wait_for_tokens_returns_witness:
  "\<exists>b' t. wait_for_tokens 80 [10000000, 500000000, 1000000000] ((rate_limiter_new 100 0)\<lparr>tokens := 3\<rparr>) = Some (b', t)
    \<and> t \<in> set [10000000, 500000000, 1000000000]"
  by (rule wait_for_tokens_returns) (simp_all add: rate_limiter_new_def bucket_new_def second_def)

text \<open>
  Waiting for more than the capacity never returns, however often and however long the bucket
  is polled: a chunk larger than one second's worth of bytes stalls its connection for good.
\<close>

theorem wait_for_tokens_beyond_capacity:
  assumes "tokens b \<le> capacity b" and "capacity b < a"
  shows "wait_for_tokens a polls b = None"
  unfolding wait_for_tokens_def by (rule client_bucket.wait_never [OF assms])

theorem wait_for_tokens_beyond_capacity_witness:
  "wait_for_tokens 16384 [0, 10000000000] (rate_limiter_new 8192 0) = None"
  by (rule wait_for_tokens_beyond_capacity) (simp_all add: rate_limiter_new_def bucket_new_def)

section \<open>The compare-and-exchange loops under interleaving\<close>

text \<open>
  Threads share the token count. A consumer loads it, gives up when it is short, and otherwise
  tries to exchange the value it saw for the reduced one; the exchange succeeds only when the
  count is still the one it saw, and a weak exchange may fail for no reason. The refill does the
  same with the increased value. \<open>paid\<close> and \<open>added\<close> are ghost sums of what was granted and put in.
\<close>

datatype cas_pc =
    Idle
  | Loading u64
  | Loaded u64 u64
  | Granted u64
  | Denied
  | RefillLoading u64
  | RefillLoaded u64 u64

record cas_state =
  shared_tokens :: u64
  pcs :: "nat \<Rightarrow> cas_pc"
  paid :: nat
  added :: nat

abbreviation set_pc :: "nat \<Rightarrow> cas_pc \<Rightarrow> cas_state \<Rightarrow> cas_state" where
  "set_pc t pc s \<equiv> s\<lparr>pcs := (pcs s)(t := pc)\<rparr>"

inductive cas_step :: "u64 \<Rightarrow> cas_state \<Rightarrow> cas_state \<Rightarrow> bool" for cap :: u64 where
  consume_start: "pcs s t = Idle \<Longrightarrow> cas_step cap s (set_pc t (Loading a) s)"
| consume_deny: "pcs s t = Loading a \<Longrightarrow> shared_tokens s < a \<Longrightarrow> cas_step cap s (set_pc t Denied s)"
| consume_load: "pcs s t = Loading a \<Longrightarrow> \<not> shared_tokens s < a \<Longrightarrow>
    cas_step cap s (set_pc t (Loaded (shared_tokens s) a) s)"
| consume_ok: "pcs s t = Loaded cur a \<Longrightarrow> shared_tokens s = cur \<Longrightarrow>
    cas_step cap s ((set_pc t (Granted a) s)\<lparr>shared_tokens := cur - a, paid := paid s + unat a\<rparr>)"
| consume_retry: "pcs s t = Loaded cur a \<Longrightarrow> cas_step cap s (set_pc t (Loading a) s)"
| consume_done: "pcs s t = Granted a \<or> pcs s t = Denied \<Longrightarrow> cas_step cap s (set_pc t Idle s)"
| refill_start: "pcs s t = Idle \<Longrightarrow> cas_step cap s (set_pc t (RefillLoading n) s)"
| refill_load: "pcs s t = RefillLoading n \<Longrightarrow> cas_step cap s (set_pc t (RefillLoaded (shared_tokens s) n) s)"
| refill_ok: "pcs s t = RefillLoaded cur n \<Longrightarrow> shared_tokens s = cur \<Longrightarrow>
    cas_step cap s ((set_pc t Idle s)\<lparr>shared_tokens := min (cur + n) cap, added := added s + unat n\<rparr>)"
| refill_retry: "pcs s t = RefillLoaded cur n \<Longrightarrow> cas_step cap s (set_pc t (RefillLoading n) s)"

definition cas_start :: "u64 \<Rightarrow> cas_state \<Rightarrow> bool" where
  "cas_start cap s \<longleftrightarrow> s = \<lparr>shared_tokens = cap, pcs = (\<lambda>_. Idle), paid = 0, added = 0\<rparr>"

definition cas_inv :: "u64 \<Rightarrow> cas_state \<Rightarrow> bool" where
  "cas_inv cap s \<longleftrightarrow> shared_tokens s \<le> cap \<and> paid s + unat (shared_tokens s) \<le> unat cap + added s
     \<and> (\<forall>t cur a. pcs s t = Loaded cur a \<longrightarrow> a \<le> cur)"

lemma min_add_le: "unat (min ((a :: u64) + n) c) \<le> unat a + unat n"
  using unat_min_le [of "a + n" c] unat_add_le [of a n] by linarith

lemma cas_inv_pc:
  "cas_inv cap s \<Longrightarrow> (\<And>cur a. pc = Loaded cur a \<Longrightarrow> a \<le> cur) \<Longrightarrow> cas_inv cap (set_pc t pc s)"
  by (simp add: cas_inv_def)

lemma cas_inv_step:
  assumes inv: "cas_inv cap s" and "cas_step cap s s'"
  shows "cas_inv cap s'"
  using assms(2)
proof (cases rule: cas_step.cases)
  case (consume_ok t cur a)
  then have "a \<le> shared_tokens s" using inv by (simp add: cas_inv_def)
  moreover from this have "unat (shared_tokens s - a) + unat a = unat (shared_tokens s)"
    by (simp add: unat_sub word_le_nat_alt)
  moreover from \<open>a \<le> shared_tokens s\<close> have "shared_tokens s - a \<le> cap"
    using inv word_sub_le order_trans unfolding cas_inv_def by blast
  ultimately show ?thesis using inv consume_ok by (simp add: cas_inv_def)
next
  case (refill_ok t cur n)
  then show ?thesis using inv min_add_le [of "shared_tokens s" n cap] by (simp add: cas_inv_def)
qed (use inv in \<open>auto intro!: cas_inv_pc simp: not_less\<close>)

interpretation cas: step_system "cas_start cap" "cas_step cap" "cas_inv cap" for cap
  by unfold_locales (auto simp: cas_start_def cas_inv_def [of _ "\<lparr>shared_tokens = _, pcs = _, paid = _, added = _\<rparr>"] intro: cas_inv_step)

text \<open>
  C33. No interleaving over-spends a bucket: in every state reachable by any number of threads
  consuming and refilling concurrently through the compare-and-exchange loops, what has been
  granted plus what is left is covered by the initial level and the refills, and the level never
  exceeds the capacity.
\<close>

theorem cas_never_overspends:
  assumes "reach (cas_start cap) (cas_step cap) s"
  shows "paid s + unat (shared_tokens s) \<le> unat cap + added s \<and> shared_tokens s \<le> cap"
  using cas.reach_sinv [OF assms] by (simp add: cas_inv_def)

text \<open>Two threads want 60 of 100: both load, one exchange succeeds, the other retries and is denied.\<close>

definition cas_sample :: "nat \<Rightarrow> cas_pc \<Rightarrow> cas_pc \<Rightarrow> nat \<Rightarrow> cas_state" where
  "cas_sample n p q k = \<lparr>shared_tokens = of_nat n, pcs = (\<lambda>_. Idle)(0 := p, 1 := q), paid = k, added = 0\<rparr>"

lemma cas_sample_reach: "reach (cas_start 100) (cas_step 100) (cas_sample 40 (Granted 60) Denied 60)"
proof -
  have "reach (cas_start 100) (cas_step 100) (cas_sample 100 Idle Idle 0)"
    by (intro reach_init) (simp add: cas_start_def cas_sample_def fun_eq_iff)
  then have "reach (cas_start 100) (cas_step 100) (cas_sample 100 (Loading 60) Idle 0)"
    by (rule reach_step) (use consume_start [of "cas_sample 100 Idle Idle 0" 0 100 60] in \<open>simp add: cas_sample_def fun_upd_twist\<close>)
  then have "reach (cas_start 100) (cas_step 100) (cas_sample 100 (Loading 60) (Loading 60) 0)"
    by (rule reach_step) (use consume_start [of "cas_sample 100 (Loading 60) Idle 0" 1 100 60] in \<open>simp add: cas_sample_def\<close>)
  then have "reach (cas_start 100) (cas_step 100) (cas_sample 100 (Loaded 100 60) (Loading 60) 0)"
    by (rule reach_step) (use consume_load [of "cas_sample 100 (Loading 60) (Loading 60) 0" 0 60 100] in \<open>simp add: cas_sample_def fun_upd_twist\<close>)
  then have "reach (cas_start 100) (cas_step 100) (cas_sample 100 (Loaded 100 60) (Loaded 100 60) 0)"
    by (rule reach_step) (use consume_load [of "cas_sample 100 (Loaded 100 60) (Loading 60) 0" 1 60 100] in \<open>simp add: cas_sample_def\<close>)
  then have "reach (cas_start 100) (cas_step 100) (cas_sample 40 (Granted 60) (Loaded 100 60) 60)"
    by (rule reach_step) (use consume_ok [of "cas_sample 100 (Loaded 100 60) (Loaded 100 60) 0" 0 100 60 100] in \<open>simp add: cas_sample_def fun_upd_twist\<close>)
  then have "reach (cas_start 100) (cas_step 100) (cas_sample 40 (Granted 60) (Loading 60) 60)"
    by (rule reach_step) (use consume_retry [of "cas_sample 40 (Granted 60) (Loaded 100 60) 60" 1 100 60 100] in \<open>simp add: cas_sample_def\<close>)
  then show ?thesis
    by (rule reach_step) (use consume_deny [of "cas_sample 40 (Granted 60) (Loading 60) 60" 1 60 100] in \<open>simp add: cas_sample_def\<close>)
qed

theorem cas_never_overspends_witness:
  "paid (cas_sample 40 (Granted 60) Denied 60) + unat (shared_tokens (cas_sample 40 (Granted 60) Denied 60)) \<le> unat (100 :: u64) + 0"
  using cas_never_overspends [OF cas_sample_reach] by (simp add: cas_sample_def)

end
