(* ===== verification/Rust_Str.thy ===== *)
theory Rust_Str
  imports Prelude
begin

text \<open>
  The operations of Rust's \<open>str\<close> and \<open>u8\<close> the sources use, on the UTF-8 bytes of a string:
  validation (\<open>String::from_utf8\<close>), splitting into characters, \<open>trim\<close>, slicing with its panic
  off a character boundary, \<open>u8::from_str_radix\<close> with its optional sign, \<open>starts_with\<close>,
  \<open>trim_start_matches\<close> and \<open>hex::encode\<close>.
\<close>

section \<open>UTF-8\<close>

definition is_cont :: "u8 \<Rightarrow> bool" where
  "is_cont b \<longleftrightarrow> 0x80 \<le> b \<and> b < 0xC0"

text \<open>The length of the first character, if the string starts with a valid one.\<close>

definition utf8_first :: "bytes \<Rightarrow> nat option" where
  "utf8_first bs =
     (case bs of
        [] \<Rightarrow> None
      | a # r \<Rightarrow>
          if a < 0x80 then Some 1
          else if 0xC2 \<le> a \<and> a \<le> 0xDF then
            (case r of b # _ \<Rightarrow> if is_cont b then Some 2 else None | _ \<Rightarrow> None)
          else if 0xE0 \<le> a \<and> a \<le> 0xEF then
            (case r of
               b # c # _ \<Rightarrow>
                 if is_cont b \<and> is_cont c \<and> (a = 0xE0 \<longrightarrow> 0xA0 \<le> b) \<and> (a = 0xED \<longrightarrow> b \<le> 0x9F)
                 then Some 3 else None
             | _ \<Rightarrow> None)
          else if 0xF0 \<le> a \<and> a \<le> 0xF4 then
            (case r of
               b # c # d # _ \<Rightarrow>
                 if is_cont b \<and> is_cont c \<and> is_cont d \<and> (a = 0xF0 \<longrightarrow> 0x90 \<le> b) \<and> (a = 0xF4 \<longrightarrow> b \<le> 0x8F)
                 then Some 4 else None
             | _ \<Rightarrow> None)
          else None)"

lemma utf8_first_pos: "utf8_first bs = Some n \<Longrightarrow> 0 < n"
  by (auto simp: utf8_first_def split: list.splits if_splits)

text \<open>The characters of a string, \<open>None\<close> when it is not UTF-8.\<close>

function utf8_chars :: "bytes \<Rightarrow> bytes list option" where
  "utf8_chars bs =
     (if bs = [] then Some []
      else case utf8_first bs of
             None \<Rightarrow> None
           | Some n \<Rightarrow> map_option (\<lambda>cs. take n bs # cs) (utf8_chars (drop n bs)))"
  by pat_completeness auto
termination
  by (relation "measure length") (auto dest: utf8_first_pos)

declare utf8_chars.simps [simp del]

definition utf8_valid :: "bytes \<Rightarrow> bool" where
  "utf8_valid bs \<longleftrightarrow> utf8_chars bs \<noteq> None"

lemma utf8_chars_Nil [simp]: "utf8_chars [] = Some []"
  by (simp add: utf8_chars.simps)

lemma utf8_chars_ascii [simp]:
  "a < 0x80 \<Longrightarrow> utf8_chars (a # bs) = map_option (\<lambda>cs. [a] # cs) (utf8_chars bs)"
  by (subst utf8_chars.simps) (simp add: utf8_first_def)

lemma utf8_chars_all_ascii: "\<forall>b \<in> set bs. b < 0x80 \<Longrightarrow> utf8_chars bs = Some (map (\<lambda>b. [b]) bs)"
  by (induction bs) auto

lemma utf8_valid_ascii: "\<forall>b \<in> set bs. b < 0x80 \<Longrightarrow> utf8_valid bs"
  by (simp add: utf8_valid_def utf8_chars_all_ascii)

lemma utf8_chars_concat: "utf8_chars bs = Some cs \<Longrightarrow> concat cs = bs"
proof (induction bs arbitrary: cs rule: utf8_chars.induct)
  case (1 bs)
  show ?case
  proof (cases "bs = []")
    case False
    with "1.prems" obtain n ds where
      n: "utf8_first bs = Some n" and ds: "utf8_chars (drop n bs) = Some ds" "cs = take n bs # ds"
      by (subst (asm) utf8_chars.simps) (auto split: option.splits)
    with "1.IH" [OF False n ds(1)] show ?thesis by simp
  qed (use "1.prems" in simp)
qed

section \<open>Trimming and slicing\<close>

text \<open>The characters with the Unicode property \<open>White_Space\<close>, as their UTF-8 bytes.\<close>

definition is_whitespace :: "bytes \<Rightarrow> bool" where
  "is_whitespace ch \<longleftrightarrow>
     (case ch of
        [a] \<Rightarrow> (0x09 \<le> a \<and> a \<le> 0x0D) \<or> a = 0x20
      | [a, b] \<Rightarrow> a = 0xC2 \<and> (b = 0x85 \<or> b = 0xA0)
      | [a, b, c] \<Rightarrow>
          (a = 0xE1 \<and> b = 0x9A \<and> c = 0x80)
          \<or> (a = 0xE2 \<and> b = 0x80 \<and> (c \<le> 0x8A \<or> c = 0xA8 \<or> c = 0xA9 \<or> c = 0xAF))
          \<or> (a = 0xE2 \<and> b = 0x81 \<and> c = 0x9F)
          \<or> (a = 0xE3 \<and> b = 0x80 \<and> c = 0x80)
      | _ \<Rightarrow> False)"

definition str_chars :: "bytes \<Rightarrow> bytes list" where
  "str_chars s = (case utf8_chars s of Some cs \<Rightarrow> cs | None \<Rightarrow> map (\<lambda>b. [b]) s)"

definition str_trim :: "bytes \<Rightarrow> bytes" where
  "str_trim s = concat (rev (dropWhile is_whitespace (rev (dropWhile is_whitespace (str_chars s)))))"

definition is_char_boundary :: "bytes \<Rightarrow> nat \<Rightarrow> bool" where
  "is_char_boundary s i \<longleftrightarrow> i = 0 \<or> i = length s \<or> (i < length s \<and> \<not> is_cont (s ! i))"

definition str_slice :: "bytes \<Rightarrow> nat \<Rightarrow> nat \<Rightarrow> bytes outcome" where
  "str_slice s i j =
     (if i \<le> j \<and> j \<le> length s \<and> is_char_boundary s i \<and> is_char_boundary s j
      then Ret (take (j - i) (drop i s)) else Panic)"

definition starts_with :: "bytes \<Rightarrow> bytes \<Rightarrow> bool" where
  "starts_with s p \<longleftrightarrow> take (length p) s = p"

lemma take_eq_length_le: "take (length p) s = p \<Longrightarrow> p \<noteq> [] \<Longrightarrow> length s - length p < length s"
  by (cases s; cases p) auto

function trim_start_matches :: "bytes \<Rightarrow> bytes \<Rightarrow> bytes" where
  "trim_start_matches p s =
     (if p \<noteq> [] \<and> starts_with s p then trim_start_matches p (drop (length p) s) else s)"
  by pat_completeness auto
termination
  by (relation "measure (\<lambda>(p, s). length s)") (auto simp: starts_with_def dest: take_eq_length_le)

declare trim_start_matches.simps [simp del]

lemma starts_with_append [simp]: "starts_with (p @ s) p"
  by (simp add: starts_with_def)

lemma trim_start_matches_stop [simp]: "\<not> starts_with s p \<Longrightarrow> trim_start_matches p s = s"
  by (subst trim_start_matches.simps) simp

lemma trim_start_matches_step [simp]:
  "p \<noteq> [] \<Longrightarrow> trim_start_matches p (p @ s) = trim_start_matches p s"
  by (subst trim_start_matches.simps) simp

section \<open>Hexadecimal digits\<close>

definition is_ascii_hexdigit :: "u8 \<Rightarrow> bool" where
  "is_ascii_hexdigit b \<longleftrightarrow> (0x30 \<le> b \<and> b \<le> 0x39) \<or> (0x41 \<le> b \<and> b \<le> 0x46) \<or> (0x61 \<le> b \<and> b \<le> 0x66)"

definition to_digit16 :: "u8 \<Rightarrow> nat option" where
  "to_digit16 b =
     (if 0x30 \<le> b \<and> b \<le> 0x39 then Some (unat b - 0x30)
      else if 0x41 \<le> b \<and> b \<le> 0x46 then Some (unat b - 0x37)
      else if 0x61 \<le> b \<and> b \<le> 0x66 then Some (unat b - 0x57)
      else None)"

fun radix16_digits :: "nat \<Rightarrow> bytes \<Rightarrow> u8 option" where
  "radix16_digits acc [] = Some (of_nat acc)"
| "radix16_digits acc (b # bs) =
     (case to_digit16 b of
        None \<Rightarrow> None
      | Some d \<Rightarrow> if acc * 16 + d < 256 then radix16_digits (acc * 16 + d) bs else None)"

text \<open>\<open>u8::from_str_radix(s, 16).ok()\<close>: one leading plus sign is taken as a sign.\<close>

definition u8_from_str_radix16 :: "bytes \<Rightarrow> u8 option" where
  "u8_from_str_radix16 s =
     (case s of
        [] \<Rightarrow> None
      | [b] \<Rightarrow> if b = 0x2B \<or> b = 0x2D then None else radix16_digits 0 s
      | b # r \<Rightarrow> if b = 0x2B then radix16_digits 0 r else radix16_digits 0 s)"

definition hex_lower :: "nat \<Rightarrow> u8" where
  "hex_lower d = (if d < 10 then of_nat (0x30 + d) else of_nat (0x57 + d))"

definition hex_upper :: "nat \<Rightarrow> u8" where
  "hex_upper d = (if d < 10 then of_nat (0x30 + d) else of_nat (0x37 + d))"

definition hex_encode_with :: "(nat \<Rightarrow> u8) \<Rightarrow> bytes \<Rightarrow> bytes" where
  "hex_encode_with dig bs = concat (map (\<lambda>b. [dig (unat b div 16), dig (unat b mod 16)]) bs)"

abbreviation hex_encode :: "bytes \<Rightarrow> bytes" where
  "hex_encode \<equiv> hex_encode_with hex_lower"

lemma is_ascii_hexdigit_iff: "is_ascii_hexdigit b \<longleftrightarrow> to_digit16 b \<noteq> None"
  by (simp add: is_ascii_hexdigit_def to_digit16_def)

lemma to_digit16_bound: "to_digit16 b = Some d \<Longrightarrow> d < 16"
  by (auto simp: to_digit16_def word_le_nat_alt split: if_splits)

lemma to_digit16_hex: "d < 16 \<Longrightarrow> to_digit16 (hex_lower d) = Some d \<and> to_digit16 (hex_upper d) = Some d"
  by (auto simp: to_digit16_def hex_lower_def hex_upper_def word_le_nat_alt unat_word_ariths unat_of_nat)

lemma hexdigit_ascii: "is_ascii_hexdigit b \<Longrightarrow> b < 0x80 \<and> b \<noteq> 0x2B \<and> \<not> is_cont b"
  by (auto simp: is_ascii_hexdigit_def is_cont_def word_le_nat_alt word_less_nat_alt)

lemma radix16_pair:
  assumes "to_digit16 a = Some d" and "to_digit16 b = Some e"
  shows "u8_from_str_radix16 [a, b] = Some (of_nat (d * 16 + e))"
proof -
  have "a \<noteq> 0x2B" using assms(1) hexdigit_ascii [of a] by (simp add: is_ascii_hexdigit_iff)
  moreover have "d < 16" "e < 16" using assms by (auto dest: to_digit16_bound)
  ultimately show ?thesis using assms by (simp add: u8_from_str_radix16_def)
qed

lemma radix16_hex_pair:
  assumes "\<And>d. d < 16 \<Longrightarrow> to_digit16 (dig d) = Some d"
  shows "u8_from_str_radix16 [dig (unat b div 16), dig (unat (b :: u8) mod 16)] = Some b"
proof -
  have "unat b div 16 < 16" using unat_u8_less [of b] by linarith
  then show ?thesis using radix16_pair [OF assms assms, of "unat b div 16" "unat b mod 16"]
    by simp
qed

end
