(* ===== verification/Endpoint.thy ===== *)
theory Endpoint
  imports Rust_Str
begin

text \<open>
  Gateway endpoint configuration, \<open>transport-core/src/endpoint.rs\<close>: the fail-closed validation
  of the endpoint list that the application hands over, and the decoding of its hexadecimal
  keys. The JSON deserializer (serde) is a parameter: a function from the text to a message or
  to the list of records.
\<close>

section \<open>Configuration and its errors\<close>

record endpoint_config =
  host :: bytes
  port :: u16
  sni :: bytes
  server_pub :: bytes
  psk :: bytes

datatype endpoint_config_error =
    EmptyList
  | TooManyEndpoints nat
  | InvalidHex string nat
  | WrongHexLength string nat nat nat
  | EmptyHost nat
  | EmptySni nat
  | ZeroPort nat
  | DuplicateEndpoint nat bytes u16
  | MalformedJson string

fun endpoint_error_display :: "endpoint_config_error \<Rightarrow> string" where
  "endpoint_error_display EmptyList = ''endpoint list is empty''"
| "endpoint_error_display (TooManyEndpoints n) = ''too many endpoints: '' @ show_nat n @ '' (max 16)''"
| "endpoint_error_display (InvalidHex field index) =
     ''invalid hex in field '' @ [CHR 0x27] @ field @ [CHR 0x27] @ '' at endpoint index '' @ show_nat index"
| "endpoint_error_display (WrongHexLength field index expected got) =
     ''field '' @ [CHR 0x27] @ field @ [CHR 0x27] @ '' at index '' @ show_nat index
       @ '' has wrong length: expected '' @ show_nat expected @ '' hex chars, got '' @ show_nat got"
| "endpoint_error_display (EmptyHost index) = ''empty host at endpoint index '' @ show_nat index"
| "endpoint_error_display (EmptySni index) = ''empty sni at endpoint index '' @ show_nat index"
| "endpoint_error_display (ZeroPort index) = ''port is 0 at endpoint index '' @ show_nat index"
| "endpoint_error_display (DuplicateEndpoint index h p) =
     ''duplicate endpoint at index '' @ show_nat index @ '': '' @ string_of h @ '':''
       @ show_nat (unat p) @ '' already present''"
| "endpoint_error_display (MalformedJson msg) = ''malformed JSON: '' @ msg"

definition MAX_ENDPOINTS :: nat where
  "MAX_ENDPOINTS = 16"

definition KEY_HEX_LEN :: nat where
  "KEY_HEX_LEN = 64"

section \<open>Validation\<close>

definition validate_hex_field :: "string \<Rightarrow> bytes \<Rightarrow> nat \<Rightarrow> endpoint_config_error + unit" where
  "validate_hex_field field v index =
     (if length v \<noteq> KEY_HEX_LEN then Inl (WrongHexLength field index KEY_HEX_LEN (length v))
      else if \<not> list_all is_ascii_hexdigit v then Inl (InvalidHex field index)
      else Inr ())"

text \<open>The body of the loop over the endpoints, with the pairs seen so far.\<close>

fun validate_endpoints ::
  "nat \<Rightarrow> (bytes \<times> u16) list \<Rightarrow> endpoint_config list \<Rightarrow> endpoint_config_error + unit" where
  "validate_endpoints i seen [] = Inr ()"
| "validate_endpoints i seen (ep # eps) =
     (if str_trim (host ep) = [] then Inl (EmptyHost i)
      else if str_trim (sni ep) = [] then Inl (EmptySni i)
      else if port ep = 0 then Inl (ZeroPort i)
      else case validate_hex_field ''server_pub'' (server_pub ep) i of Inl e \<Rightarrow> Inl e | Inr _ \<Rightarrow>
           case validate_hex_field ''psk'' (psk ep) i of Inl e \<Rightarrow> Inl e | Inr _ \<Rightarrow>
             if (host ep, port ep) \<in> set seen then Inl (DuplicateEndpoint i (host ep) (port ep))
             else validate_endpoints (Suc i) (seen @ [(host ep, port ep)]) eps)"

definition parse_endpoints ::
  "(bytes \<Rightarrow> string + endpoint_config list) \<Rightarrow> bytes \<Rightarrow> endpoint_config_error + endpoint_config list" where
  "parse_endpoints from_json json =
     (case from_json json of
        Inl msg \<Rightarrow> Inl (MalformedJson msg)
      | Inr endpoints \<Rightarrow>
          if endpoints = [] then Inl EmptyList
          else if length endpoints > MAX_ENDPOINTS then Inl (TooManyEndpoints (length endpoints))
          else case validate_endpoints 0 [] endpoints of
                 Inl e \<Rightarrow> Inl e
               | Inr _ \<Rightarrow> Inr endpoints)"

section \<open>Key decoding\<close>

fun decode_hex_loop :: "bytes \<Rightarrow> nat \<Rightarrow> nat \<Rightarrow> bytes option outcome" where
  "decode_hex_loop hex i 0 = Ret (Some [])"
| "decode_hex_loop hex i (Suc k) =
     (case str_slice hex (i * 2) (i * 2 + 2) of
        Panic \<Rightarrow> Panic
      | Ret s \<Rightarrow>
          (case u8_from_str_radix16 s of
             None \<Rightarrow> Ret None
           | Some v \<Rightarrow>
               (case decode_hex_loop hex (Suc i) k of
                  Panic \<Rightarrow> Panic
                | Ret r \<Rightarrow> Ret (map_option (\<lambda>vs. v # vs) r))))"

definition decode_hex32 :: "bytes \<Rightarrow> bytes option outcome" where
  "decode_hex32 hex = (if length hex \<noteq> KEY_HEX_LEN then Ret None else decode_hex_loop hex 0 32)"

section \<open>What validation guarantees\<close>

definition hex_key :: "bytes \<Rightarrow> bool" where
  "hex_key v \<longleftrightarrow> length v = 64 \<and> list_all is_ascii_hexdigit v"

definition endpoint_ok :: "endpoint_config \<Rightarrow> bool" where
  "endpoint_ok ep \<longleftrightarrow> str_trim (host ep) \<noteq> [] \<and> str_trim (sni ep) \<noteq> [] \<and> port ep \<noteq> 0
     \<and> hex_key (server_pub ep) \<and> hex_key (psk ep)"

definition endpoints_ok :: "endpoint_config list \<Rightarrow> bool" where
  "endpoints_ok eps \<longleftrightarrow> eps \<noteq> [] \<and> length eps \<le> 16 \<and> list_all endpoint_ok eps
     \<and> distinct (map (\<lambda>ep. (host ep, port ep)) eps)"

lemma validate_hex_field_Inr [simp]: "validate_hex_field f v i = Inr u \<longleftrightarrow> hex_key v"
  by (simp add: validate_hex_field_def hex_key_def KEY_HEX_LEN_def)

lemma validate_hex_field_cases:
  "(case validate_hex_field f v i of Inl e \<Rightarrow> Inl e | Inr _ \<Rightarrow> r) = Inr u \<longleftrightarrow> hex_key v \<and> r = Inr u"
  by (simp add: validate_hex_field_def hex_key_def KEY_HEX_LEN_def)

lemma validate_endpoints_Inr:
  "validate_endpoints i seen eps = Inr () \<longleftrightarrow>
     list_all endpoint_ok eps \<and> distinct (map (\<lambda>ep. (host ep, port ep)) eps)
     \<and> (\<lambda>ep. (host ep, port ep)) ` set eps \<inter> set seen = {}"
  by (induction i seen eps rule: validate_endpoints.induct)
    (auto simp: validate_hex_field_cases endpoint_ok_def)

lemma parse_endpoints_Inr:
  "parse_endpoints from_json json = Inr eps \<longleftrightarrow> from_json json = Inr eps \<and> endpoints_ok eps"
proof -
  have v: "(case validate_endpoints 0 [] es of Inl e \<Rightarrow> Inl e | Inr _ \<Rightarrow> Inr es) = Inr eps \<longleftrightarrow>
      es = eps \<and> list_all endpoint_ok es \<and> distinct (map (\<lambda>ep. (host ep, port ep)) es)" for es
  proof (cases "validate_endpoints 0 [] es")
    case (Inl e)
    with validate_endpoints_Inr [of 0 "[]" es] show ?thesis by auto
  next
    case (Inr u)
    with validate_endpoints_Inr [of 0 "[]" es] show ?thesis by auto
  qed
  show ?thesis
  proof (cases "from_json json")
    case (Inr es)
    then have "parse_endpoints from_json json = Inr eps \<longleftrightarrow> es \<noteq> [] \<and> length es \<le> 16 \<and>
        (case validate_endpoints 0 [] es of Inl e \<Rightarrow> Inl e | Inr _ \<Rightarrow> Inr es) = Inr eps"
      by (simp add: parse_endpoints_def MAX_ENDPOINTS_def)
    with Inr show ?thesis unfolding v by (auto simp: endpoints_ok_def)
  qed (simp add: parse_endpoints_def)
qed

lemma str_slice_hex:
  assumes "list_all is_ascii_hexdigit v" and "j \<le> length v" and "i \<le> j"
  shows "str_slice v i j = Ret (take (j - i) (drop i v))"
proof -
  have "is_char_boundary v k" if "k \<le> length v" for k
    using assms(1) that hexdigit_ascii
    by (auto simp: is_char_boundary_def list_all_length)
  then show ?thesis using assms by (simp add: str_slice_def)
qed

lemma decode_hex_loop_hex:
  assumes "list_all is_ascii_hexdigit v" and "length v = 2 * (i + k)"
  shows "\<exists>bs. decode_hex_loop v i k = Ret (Some bs) \<and> length bs = k"
  using assms(2)
proof (induction k arbitrary: i)
  case (Suc k)
  have "2 \<le> length (drop (i * 2) v)" using Suc.prems by simp
  then obtain a b r where v: "drop (i * 2) v = a # b # r"
    unfolding numeral_2_eq_2 Suc_le_length_iff by blast
  then have "a \<in> set v" and "b \<in> set v"
    by (metis in_set_dropD list.set_intros)+
  then obtain d e where "to_digit16 a = Some d" and "to_digit16 b = Some e"
    using assms(1) unfolding list_all_iff is_ascii_hexdigit_iff by blast
  then have "u8_from_str_radix16 [a, b] = Some (of_nat (d * 16 + e))" by (rule radix16_pair)
  moreover have "str_slice v (i * 2) (i * 2 + 2) = Ret [a, b]"
    using str_slice_hex [OF assms(1), of "i * 2 + 2" "i * 2"] Suc.prems v by simp
  moreover obtain bs where "decode_hex_loop v (Suc i) k = Ret (Some bs)" "length bs = k"
    using Suc.IH [of "Suc i"] Suc.prems by auto
  ultimately show ?case by simp
qed simp

lemma decode_hex_loop_encode:
  assumes dig: "\<And>d. d < 16 \<Longrightarrow> to_digit16 (dig d) = Some d"
    and hex: "list_all is_ascii_hexdigit v" and v: "drop (i * 2) v = hex_encode_with dig bs"
  shows "decode_hex_loop v i (length bs) = Ret (Some bs)"
  using v
proof (induction bs arbitrary: i)
  case (Cons b bs)
  let ?a = "dig (unat b div 16)" and ?b = "dig (unat b mod 16)"
  have v: "drop (i * 2) v = ?a # ?b # hex_encode_with dig bs"
    using Cons.prems by (simp add: hex_encode_with_def)
  have "length v - i * 2 = Suc (Suc (length (hex_encode_with dig bs)))"
    using arg_cong [OF v, of length] by simp
  then have len: "i * 2 + 2 \<le> length v" by linarith
  have rest: "drop (Suc i * 2) v = hex_encode_with dig bs"
  proof -
    have "drop (Suc i * 2) v = drop 2 (drop (i * 2) v)" by simp
    with v show ?thesis by (simp add: numeral_2_eq_2)
  qed
  have "str_slice v (i * 2) (i * 2 + 2) = Ret [?a, ?b]"
    using str_slice_hex [OF hex len, of "i * 2"] v by simp
  moreover have "u8_from_str_radix16 [?a, ?b] = Some b" by (rule radix16_hex_pair [OF dig])
  ultimately show ?case using Cons.IH [OF rest] by simp
qed simp

lemma hex_key_encode:
  assumes dig: "\<And>d. d < 16 \<Longrightarrow> to_digit16 (dig d) = Some d" and "length bs = 32"
  shows "hex_key (hex_encode_with dig bs)"
proof -
  have "is_ascii_hexdigit (dig (unat b div 16)) \<and> is_ascii_hexdigit (dig (unat b mod 16))" for b :: u8
  proof -
    have "unat b div 16 < 16" using unat_u8_less [of b] by linarith
    with dig show ?thesis by (simp add: is_ascii_hexdigit_iff)
  qed
  moreover have "length (hex_encode_with dig bs) = 2 * length bs"
    by (simp add: hex_encode_with_def length_concat o_def sum_list_triv)
  ultimately show ?thesis using assms(2)
    by (auto simp: hex_key_def hex_encode_with_def list_all_iff)
qed

lemma decode_hex32_encode:
  assumes dig: "\<And>d. d < 16 \<Longrightarrow> to_digit16 (dig d) = Some d" and "length bs = 32"
  shows "decode_hex32 (hex_encode_with dig bs) = Ret (Some bs)"
  using decode_hex_loop_encode [OF dig, of "hex_encode_with dig bs" 0 bs]
    hex_key_encode [OF assms] assms(2)
  by (simp add: decode_hex32_def KEY_HEX_LEN_def hex_key_def)

lemma hex_key_decodes: "hex_key v \<Longrightarrow> \<exists>k. decode_hex32 v = Ret (Some k) \<and> length k = 32"
  using decode_hex_loop_hex [of v 0 32] by (simp add: hex_key_def decode_hex32_def KEY_HEX_LEN_def)

section \<open>Properties\<close>

text \<open>A concrete configuration for the witnesses: one endpoint with all-\<open>a\<close> keys.\<close>

definition sample_endpoint :: endpoint_config where
  "sample_endpoint = \<lparr>host = bytes_of ''gw.example.com'', port = 443, sni = bytes_of ''example.com'',
     server_pub = replicate 64 0x61, psk = replicate 64 0x61\<rparr>"

lemma sample_endpoint_ok: "endpoint_ok sample_endpoint"
proof -
  have "str_trim (bytes_of ''gw.example.com'') \<noteq> []" and "str_trim (bytes_of ''example.com'') \<noteq> []"
    by (simp_all add: str_trim_def str_chars_def bytes_of_def is_whitespace_def)
  moreover have "hex_key (replicate 64 0x61)"
    by (simp add: hex_key_def is_ascii_hexdigit_def list_all_iff)
  ultimately show ?thesis by (simp add: sample_endpoint_def endpoint_ok_def)
qed

text \<open>
  C27. Validation is fail-closed and loses nothing: \<open>parse_endpoints\<close> succeeds exactly when the JSON
  is well formed and the list has between 1 and 16 endpoints, all of them with a non-blank host and
  SNI, a non-zero port and two keys of 64 hexadecimal digits, with no two of the same host and
  port; it then returns that list unchanged.
\<close>

theorem parse_endpoints_accepts_iff:
  "parse_endpoints from_json json = Inr eps \<longleftrightarrow>
     from_json json = Inr eps \<and> eps \<noteq> [] \<and> length eps \<le> 16
     \<and> list_all endpoint_ok eps \<and> distinct (map (\<lambda>ep. (host ep, port ep)) eps)"
  by (simp add: parse_endpoints_Inr endpoints_ok_def)

text \<open>
  Every key of an accepted configuration decodes to 32 bytes without a panic, so the later
  decoding in the proxy cannot fail.
\<close>

theorem parsed_keys_decode:
  assumes "parse_endpoints from_json json = Inr eps" and "ep \<in> set eps"
  shows "\<exists>pub k. decode_hex32 (server_pub ep) = Ret (Some pub) \<and> length pub = 32
    \<and> decode_hex32 (psk ep) = Ret (Some k) \<and> length k = 32"
proof -
  have "endpoint_ok ep"
    using assms by (auto simp: parse_endpoints_Inr endpoints_ok_def list_all_iff)
  then show ?thesis using hex_key_decodes by (auto simp: endpoint_ok_def)
qed

theorem parsed_keys_decode_witness:
  "\<exists>pub k. decode_hex32 (server_pub sample_endpoint) = Ret (Some pub) \<and> length pub = 32
    \<and> decode_hex32 (psk sample_endpoint) = Ret (Some k) \<and> length k = 32"
proof -
  have "parse_endpoints (\<lambda>_. Inr [sample_endpoint]) [] = Inr [sample_endpoint]"
    using sample_endpoint_ok by (simp add: parse_endpoints_Inr endpoints_ok_def)
  then show ?thesis by (rule parsed_keys_decode) simp
qed

text \<open>
  Decoding inverts encoding for every 32-byte key, in lower and in upper case.
\<close>

theorem decode_hex32_roundtrip:
  assumes "length k = 32"
  shows "decode_hex32 (hex_encode_with hex_lower k) = Ret (Some k)
    \<and> decode_hex32 (hex_encode_with hex_upper k) = Ret (Some k)"
  using assms to_digit16_hex by (simp add: decode_hex32_encode)

theorem decode_hex32_roundtrip_witness:
  "decode_hex32 (hex_encode_with hex_lower (replicate 31 0 @ [0xFF])) = Ret (Some (replicate 31 0 @ [0xFF]))"
  using decode_hex32_roundtrip [of "replicate 31 0 @ [0xFF]"] by simp

text \<open>
  The two readings of a key differ on sixty-four-byte strings that are not plain digits: a
  string of \<open>+a\<close> pairs is refused by \<open>validate_hex_field\<close> and decoded by \<open>decode_hex32\<close>, and a
  multi-byte character across a pair boundary makes \<open>decode_hex32\<close> panic.
\<close>

theorem decode_hex32_laxer_than_validation:
  "(\<exists>s k. validate_hex_field f s i = Inl (InvalidHex f i) \<and> decode_hex32 s = Ret (Some k))
   \<and> (\<exists>s. utf8_valid s \<and> decode_hex32 s = Panic)"
proof (intro conjI)
  let ?s = "concat (replicate 32 [0x2B, 0x61]) :: bytes"
  have "\<not> list_all is_ascii_hexdigit ?s"
    by code_simp
  moreover have "decode_hex32 ?s = Ret (Some (replicate 32 0x0A))"
    by code_simp
  ultimately show "\<exists>s k. validate_hex_field f s i = Inl (InvalidHex f i) \<and> decode_hex32 s = Ret (Some k)"
    by (intro exI [of _ ?s] exI [of _ "replicate 32 0x0A"])
      (simp add: validate_hex_field_def KEY_HEX_LEN_def length_concat sum_list_replicate)
  show "\<exists>s. utf8_valid s \<and> decode_hex32 s = Panic"
    by (rule exI [of _ "0x61 # 0xC3 # 0xA9 # replicate 61 0x61"]) code_simp
qed

end
