(* ===== verification/Failover.thy ===== *)
theory Failover
  imports Endpoint
begin

text \<open>
  The failover manager of \<open>transport-core/src/failover.rs\<close>: a priority list of endpoints with a
  consecutive-failure counter and a cooldown per endpoint. All mutable state is under one mutex
  in the source, so each operation is one atomic step here. An \<open>Instant\<close> is a number of
  nanoseconds (\<open>duration_since\<close> saturates at zero, as subtraction on \<open>nat\<close> does); a \<open>SystemTime\<close>
  is a number of nanoseconds relative to the Unix epoch. The readings of the two clocks are
  arguments of the operations. Indexing out of range is a panic.
\<close>

section \<open>State\<close>

type_synonym instant = nat

definition secs :: "nat \<Rightarrow> nat" where
  "secs n = n * 1000000000"

definition FAILOVER_MIN_INTERVAL :: nat where
  "FAILOVER_MIN_INTERVAL = secs 60"

definition FAILURE_THRESHOLD :: u32 where
  "FAILURE_THRESHOLD = 3"

record endpoint_state =
  consecutive_failures :: u32
  last_failure :: "instant option"

definition endpoint_state_fresh :: endpoint_state where
  "endpoint_state_fresh = \<lparr>consecutive_failures = 0, last_failure = None\<rparr>"

definition in_cooldown :: "endpoint_state \<Rightarrow> instant \<Rightarrow> bool" where
  "in_cooldown st now =
     (case last_failure st of
        Some t \<Rightarrow> now - t < FAILOVER_MIN_INTERVAL
      | None \<Rightarrow> False)"

record failover_manager =
  endpoints :: "endpoint_config list"
  current_idx :: nat
  states :: "endpoint_state list"
  last_switch_system_time :: "int option"

definition failover_new :: "endpoint_config list \<Rightarrow> failover_manager" where
  "failover_new eps =
     \<lparr>endpoints = eps, current_idx = 0, states = map (\<lambda>_. endpoint_state_fresh) eps,
      last_switch_system_time = None\<rparr>"

section \<open>Operations\<close>

definition current_endpoint :: "failover_manager \<Rightarrow> endpoint_config outcome" where
  "current_endpoint fo =
     (if current_idx fo < length (endpoints fo) then Ret (endpoints fo ! current_idx fo) else Panic)"

definition failover_len :: "failover_manager \<Rightarrow> nat" where
  "failover_len fo = length (endpoints fo)"

text \<open>The loop of \<open>try_switch_locked\<close> over the steps still to try.\<close>

fun switch_scan :: "instant \<Rightarrow> int \<Rightarrow> nat list \<Rightarrow> failover_manager \<Rightarrow> (failover_manager \<times> bool) outcome" where
  "switch_scan now sysnow [] fo = Ret (fo, False)"
| "switch_scan now sysnow (step # steps) fo =
     (let old_idx = current_idx fo;
          candidate = (old_idx + step) mod length (endpoints fo)
      in if \<not> candidate < length (states fo) then Panic
         else if \<not> in_cooldown (states fo ! candidate) now then
           (if \<not> old_idx < length (states fo) then Panic
            else Ret (fo\<lparr>states := (states fo)[old_idx := (states fo ! old_idx)\<lparr>consecutive_failures := 0\<rparr>],
                         current_idx := candidate,
                         last_switch_system_time := Some sysnow\<rparr>, True))
         else switch_scan now sysnow steps fo)"

definition try_switch_locked :: "failover_manager \<Rightarrow> instant \<Rightarrow> int \<Rightarrow> (failover_manager \<times> bool) outcome" where
  "try_switch_locked fo now sysnow = switch_scan now sysnow [1..<length (endpoints fo) + 1] fo"

definition try_switch :: "failover_manager \<Rightarrow> instant \<Rightarrow> int \<Rightarrow> (failover_manager \<times> bool) outcome" where
  "try_switch fo now sysnow = try_switch_locked fo now sysnow"

definition report_failure :: "failover_manager \<Rightarrow> instant \<Rightarrow> int \<Rightarrow> failover_manager outcome" where
  "report_failure fo now sysnow =
     (let idx = current_idx fo in
      if \<not> idx < length (states fo) then Panic
      else
        let fo1 = fo\<lparr>states := (states fo)[idx := \<lparr>consecutive_failures = consecutive_failures (states fo ! idx) + 1,
                                                  last_failure = Some now\<rparr>]\<rparr>
        in if consecutive_failures (states fo1 ! idx) \<ge> FAILURE_THRESHOLD
           then (case try_switch_locked fo1 now sysnow of Panic \<Rightarrow> Panic | Ret (fo2, _) \<Rightarrow> Ret fo2)
           else Ret fo1)"

definition report_success :: "failover_manager \<Rightarrow> failover_manager outcome" where
  "report_success fo =
     (let idx = current_idx fo in
      if \<not> idx < length (states fo) then Panic
      else Ret (fo\<lparr>states := (states fo)[idx := \<lparr>consecutive_failures = 0, last_failure = None\<rparr>]\<rparr>))"

definition is_in_cooldown :: "failover_manager \<Rightarrow> bytes \<Rightarrow> u16 \<Rightarrow> instant \<Rightarrow> bool outcome" where
  "is_in_cooldown fo h p now =
     (case find (\<lambda>i. host (endpoints fo ! i) = h \<and> port (endpoints fo ! i) = p) [0..<length (endpoints fo)] of
        None \<Rightarrow> Ret False
      | Some i \<Rightarrow> if i < length (states fo) then Ret (in_cooldown (states fo ! i) now) else Panic)"

definition failure_count :: "failover_manager \<Rightarrow> u32 outcome" where
  "failure_count fo =
     (if current_idx fo < length (states fo) then Ret (consecutive_failures (states fo ! current_idx fo)) else Panic)"

definition last_switch_unix_ms :: "failover_manager \<Rightarrow> u64" where
  "last_switch_unix_ms fo =
     (case last_switch_system_time fo of
        None \<Rightarrow> 0
      | Some t \<Rightarrow> of_int (if t < 0 then 0 else t div 1000000))"

section \<open>Well-formedness\<close>

definition failover_wf :: "failover_manager \<Rightarrow> bool" where
  "failover_wf fo \<longleftrightarrow> endpoints fo \<noteq> [] \<and> length (states fo) = length (endpoints fo)
     \<and> current_idx fo < length (endpoints fo)"

lemma failover_wf_new [wf_intros]: "eps \<noteq> [] \<Longrightarrow> failover_wf (failover_new eps)"
  by (simp add: failover_wf_def failover_new_def)

lemma current_endpoint_wf:
  "failover_wf fo \<Longrightarrow> current_endpoint fo = Ret (endpoints fo ! current_idx fo)"
  by (simp add: failover_wf_def current_endpoint_def)

text \<open>The state after a switch to a candidate.\<close>

definition switched :: "failover_manager \<Rightarrow> nat \<Rightarrow> int \<Rightarrow> failover_manager" where
  "switched fo candidate sysnow =
     fo\<lparr>states := (states fo)[current_idx fo := (states fo ! current_idx fo)\<lparr>consecutive_failures := 0\<rparr>],
        current_idx := candidate, last_switch_system_time := Some sysnow\<rparr>"

text \<open>The scan finds the first candidate that is not in cooldown.\<close>

lemma switch_scan_find:
  assumes "failover_wf fo"
  shows "switch_scan now sysnow steps fo =
    Ret (case find (\<lambda>k. \<not> in_cooldown (states fo ! ((current_idx fo + k) mod length (endpoints fo))) now) steps of
           None \<Rightarrow> (fo, False)
         | Some k \<Rightarrow> (switched fo ((current_idx fo + k) mod length (endpoints fo)) sysnow, True))"
  using assms by (induction steps) (auto simp: failover_wf_def switched_def Let_def)

lemma switched_wf [wf_intros]:
  "failover_wf fo \<Longrightarrow> c < length (endpoints fo) \<Longrightarrow> failover_wf (switched fo c sysnow)"
  by (simp add: failover_wf_def switched_def)

lemma find_SomeE:
  assumes "find P xs = Some x"
  obtains i where "i < length xs" "xs ! i = x" "P x" "\<forall>j<i. \<not> P (xs ! j)"
  using assms by (auto simp: find_Some_iff)

lemma try_switch_cases:
  assumes wf: "failover_wf fo"
  obtains (none) "try_switch_locked fo now sysnow = Ret (fo, False)"
      "\<forall>i < length (endpoints fo). in_cooldown (states fo ! i) now"
    | (some) k where "try_switch_locked fo now sysnow =
        Ret (switched fo ((current_idx fo + k) mod length (endpoints fo)) sysnow, True)"
      "1 \<le> k" "k \<le> length (endpoints fo)"
      "\<not> in_cooldown (states fo ! ((current_idx fo + k) mod length (endpoints fo))) now"
      "\<forall>j. 1 \<le> j \<and> j < k \<longrightarrow> in_cooldown (states fo ! ((current_idx fo + j) mod length (endpoints fo))) now"
proof -
  let ?n = "length (endpoints fo)"
  let ?P = "\<lambda>k. \<not> in_cooldown (states fo ! ((current_idx fo + k) mod ?n)) now"
  have n: "current_idx fo < ?n" using wf by (simp add: failover_wf_def)
  note scan = switch_scan_find [OF wf, of now sysnow "[1..<?n + 1]", folded try_switch_locked_def]
  show ?thesis
  proof (cases "find ?P [1..<?n + 1]")
    case None
    then have cool: "in_cooldown (states fo ! ((current_idx fo + k) mod ?n)) now" if "1 \<le> k" "k \<le> ?n" for k
      using that by (auto simp: find_None_iff)
    have "in_cooldown (states fo ! i) now" if i: "i < ?n" for i
    proof -
      let ?k = "if i \<le> current_idx fo then ?n + i - current_idx fo else i - current_idx fo"
      have "(current_idx fo + ?k) mod ?n = i" using i n by auto
      moreover have "1 \<le> ?k" "?k \<le> ?n" using i n by auto
      ultimately show ?thesis using cool [of ?k] by metis
    qed
    with None scan show ?thesis by (intro none) (auto simp: try_switch_locked_def)
  next
    case (Some k)
    then obtain i where i: "i < length [1..<?n + 1]" "[1..<?n + 1] ! i = k" "?P k"
      "\<forall>j<i. \<not> ?P ([1..<?n + 1] ! j)" by (rule find_SomeE)
    have nth: "[1..<?n + 1] ! j = Suc j" if "j < ?n" for j
      using that nth_upt [of 1 j "?n + 1"] by simp
    have "i < ?n" using i(1) by (simp del: upt_Suc)
    with nth [of i] i(2) have k: "i < ?n" "k = Suc i" by (simp_all del: upt_Suc)
    have "in_cooldown (states fo ! ((current_idx fo + j) mod ?n)) now" if "1 \<le> j \<and> j < k" for j
      using i(4) [rule_format, of "j - 1"] that k nth [of "j - 1"] by auto
    with k i(3) Some scan show ?thesis by (intro some [of k]) (auto simp: try_switch_locked_def)
  qed
qed

text \<open>The state in which \<open>report_failure\<close> tries to switch: the failure is already recorded.\<close>

definition marked :: "failover_manager \<Rightarrow> instant \<Rightarrow> failover_manager" where
  "marked fo now = fo\<lparr>states := (states fo)[current_idx fo :=
     \<lparr>consecutive_failures = consecutive_failures (states fo ! current_idx fo) + 1, last_failure = Some now\<rparr>]\<rparr>"

lemma marked_wf [wf_intros]: "failover_wf fo \<Longrightarrow> failover_wf (marked fo now)"
  by (simp add: failover_wf_def marked_def)

lemma marked_sel [simp]:
  "current_idx (marked fo now) = current_idx fo" "endpoints (marked fo now) = endpoints fo"
  "length (states (marked fo now)) = length (states fo)"
  "i \<noteq> current_idx fo \<Longrightarrow> states (marked fo now) ! i = states fo ! i"
  by (simp_all add: marked_def)

lemma marked_cooldown:
  "failover_wf fo \<Longrightarrow> in_cooldown (states (marked fo now) ! current_idx fo) now"
  by (simp add: failover_wf_def marked_def in_cooldown_def FAILOVER_MIN_INTERVAL_def secs_def)

lemma report_failure_eq:
  assumes "failover_wf fo"
  shows "report_failure fo now sysnow =
    (if consecutive_failures (states fo ! current_idx fo) + 1 \<ge> FAILURE_THRESHOLD
     then (case try_switch_locked (marked fo now) now sysnow of Panic \<Rightarrow> Panic | Ret (fo2, _) \<Rightarrow> Ret fo2)
     else Ret (marked fo now))"
  using assms by (simp add: report_failure_def failover_wf_def marked_def Let_def)

text \<open>What a failure report can do: only record, or record and stay, or record and move on.\<close>

lemma report_failure_cases:
  assumes wf: "failover_wf fo"
  obtains (noted) "report_failure fo now sysnow = Ret (marked fo now)"
      "consecutive_failures (states fo ! current_idx fo) + 1 < FAILURE_THRESHOLD"
    | (stay) "report_failure fo now sysnow = Ret (marked fo now)"
      "consecutive_failures (states fo ! current_idx fo) + 1 \<ge> FAILURE_THRESHOLD"
      "\<forall>i < length (endpoints fo). in_cooldown (states (marked fo now) ! i) now"
    | (move) k where "report_failure fo now sysnow =
        Ret (switched (marked fo now) ((current_idx fo + k) mod length (endpoints fo)) sysnow)"
      "consecutive_failures (states fo ! current_idx fo) + 1 \<ge> FAILURE_THRESHOLD"
      "1 \<le> k" "k \<le> length (endpoints fo)"
      "\<not> in_cooldown (states (marked fo now) ! ((current_idx fo + k) mod length (endpoints fo))) now"
      "\<forall>j. 1 \<le> j \<and> j < k \<longrightarrow>
         in_cooldown (states (marked fo now) ! ((current_idx fo + j) mod length (endpoints fo))) now"
proof (cases "consecutive_failures (states fo ! current_idx fo) + 1 \<ge> FAILURE_THRESHOLD")
  case True
  have wf': "failover_wf (marked fo now)" using wf by (rule marked_wf)
  from wf' show ?thesis
    by (cases rule: try_switch_cases [where now = now and sysnow = sysnow])
      (use True report_failure_eq [OF wf] in \<open>auto intro: stay move\<close>)
next
  case False
  with report_failure_eq [OF wf] show ?thesis by (intro noted) auto
qed

section \<open>Sequences of operations\<close>

datatype failover_op = ReportFailure instant int | ReportSuccess | TrySwitch instant int

fun failover_exec :: "failover_manager outcome \<Rightarrow> failover_op \<Rightarrow> failover_manager outcome" where
  "failover_exec Panic _ = Panic"
| "failover_exec (Ret fo) (ReportFailure now sysnow) = report_failure fo now sysnow"
| "failover_exec (Ret fo) ReportSuccess = report_success fo"
| "failover_exec (Ret fo) (TrySwitch now sysnow) =
     (case try_switch fo now sysnow of Panic \<Rightarrow> Panic | Ret (fo', _) \<Rightarrow> Ret fo')"

text \<open>No panic, a well-formed manager, and always the same endpoint list.\<close>

definition failover_good :: "endpoint_config list \<Rightarrow> failover_manager outcome \<Rightarrow> bool" where
  "failover_good eps r \<longleftrightarrow> (case r of Panic \<Rightarrow> False | Ret fo \<Rightarrow> failover_wf fo \<and> endpoints fo = eps)"

lemma endpoints_switched [simp]: "endpoints (switched fo c sysnow) = endpoints fo"
  by (simp add: switched_def)

lemma mod_endpoints_less: "failover_wf fo \<Longrightarrow> k mod length (endpoints fo) < length (endpoints fo)"
  by (simp add: failover_wf_def)

lemma report_failure_good:
  assumes "failover_wf fo"
  shows "failover_good (endpoints fo) (report_failure fo now sysnow)"
  using assms
proof (cases rule: report_failure_cases [where now = now and sysnow = sysnow])
  case (move k)
  then show ?thesis
    using assms by (simp add: failover_good_def switched_wf marked_wf mod_endpoints_less)
qed (use assms in \<open>simp_all add: failover_good_def marked_wf\<close>)

lemma try_switch_good:
  assumes "failover_wf fo"
  obtains fo' b where "try_switch fo now sysnow = Ret (fo', b)" "failover_wf fo'" "endpoints fo' = endpoints fo"
  using assms
proof (cases rule: try_switch_cases [where now = now and sysnow = sysnow])
  case none
  then show ?thesis using that [of fo False] assms by (simp add: try_switch_def)
next
  case (some k)
  then show ?thesis
    using that [of "switched fo ((current_idx fo + k) mod length (endpoints fo)) sysnow" True] assms
    by (simp add: try_switch_def switched_wf mod_endpoints_less)
qed

lemma report_success_good:
  "failover_wf fo \<Longrightarrow> failover_good (endpoints fo) (report_success fo)"
  by (simp add: report_success_def failover_wf_def failover_good_def Let_def)

interpretation failover_run: op_system failover_exec "failover_good eps" for eps
proof
  fix r :: "failover_manager outcome" and x
  assume "failover_good eps r"
  then obtain fo where fo: "r = Ret fo" "failover_wf fo" "endpoints fo = eps"
    by (cases r) (auto simp: failover_good_def)
  show "failover_good eps (failover_exec r x)"
  proof (cases x)
    case (TrySwitch now sysnow)
    obtain fo' b where "try_switch fo now sysnow = Ret (fo', b)" "failover_wf fo'" "endpoints fo' = endpoints fo"
      using fo(2) by (rule try_switch_good)
    with TrySwitch fo show ?thesis by (simp add: failover_good_def)
  qed (use fo report_failure_good [OF fo(2)] report_success_good [OF fo(2)] in simp_all)
qed

section \<open>Properties\<close>

lemma in_cooldown_recorded: "in_cooldown \<lparr>consecutive_failures = c, last_failure = Some now\<rparr> t \<longleftrightarrow> t < now + secs 60"
  by (auto simp: in_cooldown_def FAILOVER_MIN_INTERVAL_def secs_def)

lemma in_cooldown_antimono: "\<not> in_cooldown st t \<Longrightarrow> t \<le> u \<Longrightarrow> \<not> in_cooldown st u"
  by (auto simp: in_cooldown_def split: option.splits)

lemma cyclic_step_self:
  "i < n \<Longrightarrow> 1 \<le> k \<Longrightarrow> k \<le> n \<Longrightarrow> (i + k) mod n = i \<longleftrightarrow> k = (n::nat)"
  by (cases "i + k < n") (auto simp: not_less le_mod_geq)

lemma switched_sel [simp]:
  "current_idx (switched fo c sysnow) = c"
  "i \<noteq> current_idx fo \<Longrightarrow> states (switched fo c sysnow) ! i = states fo ! i"
  "current_idx fo < length (states fo) \<Longrightarrow>
     states (switched fo c sysnow) ! current_idx fo = (states fo ! current_idx fo)\<lparr>consecutive_failures := 0\<rparr>"
  by (simp_all add: switched_def)

text \<open>The move of a failure report, seen from the state before it.\<close>

lemma report_failure_move:
  assumes wf: "failover_wf fo" and rep: "report_failure fo now sysnow = Ret fo'"
    and thr: "FAILURE_THRESHOLD \<le> consecutive_failures (states fo ! current_idx fo) + 1"
    and j: "j < length (endpoints fo)" "j \<noteq> current_idx fo" "\<not> in_cooldown (states fo ! j) now"
  obtains k where "1 \<le> k" "k < length (endpoints fo)"
    "fo' = switched (marked fo now) ((current_idx fo + k) mod length (endpoints fo)) sysnow"
    "(current_idx fo + k) mod length (endpoints fo) \<noteq> current_idx fo"
    "\<not> in_cooldown (states fo ! ((current_idx fo + k) mod length (endpoints fo))) now"
    "\<forall>i. 1 \<le> i \<and> i < k \<longrightarrow> in_cooldown (states fo ! ((current_idx fo + i) mod length (endpoints fo))) now"
  using wf
proof (cases rule: report_failure_cases [where now = now and sysnow = sysnow])
  case noted
  with thr show ?thesis by (auto simp: not_less [symmetric])
next
  case stay
  with j show ?thesis by auto
next
  case (move k)
  let ?n = "length (endpoints fo)"
  have cur: "current_idx fo < ?n" using wf by (simp add: failover_wf_def)
  have kn: "k \<noteq> ?n" using move(5) marked_cooldown [OF wf] cur by auto
  have ne: "(current_idx fo + i) mod ?n \<noteq> current_idx fo" if "1 \<le> i" "i \<le> k" for i
    using cyclic_step_self [OF cur, of i] that move(4) kn by auto
  show ?thesis
  proof (rule that [of k])
    show "\<forall>i. 1 \<le> i \<and> i < k \<longrightarrow> in_cooldown (states fo ! ((current_idx fo + i) mod ?n)) now"
      using move(6) ne by auto
  qed (use move rep ne kn in auto)
qed

text \<open>
  Whatever failures, successes and switch requests arrive, in any order and at any times, a
  manager created from a non-empty list never panics, keeps its endpoint list and always has one
  of its endpoints as the current one.
\<close>

theorem failover_run_safe:
  assumes "eps \<noteq> []"
  shows "\<exists>fo. foldl failover_exec (Ret (failover_new eps)) ops = Ret fo \<and> endpoints fo = eps
    \<and> current_idx fo < length eps \<and> current_endpoint fo = Ret (eps ! current_idx fo)"
proof -
  have "failover_good eps (foldl failover_exec (Ret (failover_new eps)) ops)"
    using assms by (intro failover_run.run_inv) (simp add: failover_good_def failover_wf_new failover_new_def failover_wf_def)
  then show ?thesis
    by (auto simp: failover_good_def failover_wf_def current_endpoint_def split: outcome.splits)
qed

theorem failover_run_safe_witness:
  "\<exists>fo. foldl failover_exec (Ret (failover_new [sample_endpoint])) [ReportFailure 5 0, ReportSuccess] = Ret fo
    \<and> endpoints fo = [sample_endpoint] \<and> current_idx fo < length [sample_endpoint]
    \<and> current_endpoint fo = Ret ([sample_endpoint] ! current_idx fo)"
  by (rule failover_run_safe) simp

text \<open>
  When the failure that reaches the threshold is reported and some other endpoint is not in
  cooldown, the manager moves to the first such endpoint in cyclic order after the current one,
  never back to itself; the endpoint it leaves starts again with no failures and stays in
  cooldown for exactly sixty seconds.
\<close>

theorem report_failure_moves_to_first_healthy:
  assumes wf: "failover_wf fo" and rep: "report_failure fo now sysnow = Ret fo'"
    and thr: "FAILURE_THRESHOLD \<le> consecutive_failures (states fo ! current_idx fo) + 1"
    and j: "j < length (endpoints fo)" "j \<noteq> current_idx fo" "\<not> in_cooldown (states fo ! j) now"
  shows "(\<exists>k. 1 \<le> k \<and> k < length (endpoints fo)
        \<and> current_idx fo' = (current_idx fo + k) mod length (endpoints fo)
        \<and> \<not> in_cooldown (states fo ! current_idx fo') now
        \<and> (\<forall>i. 1 \<le> i \<and> i < k \<longrightarrow> in_cooldown (states fo ! ((current_idx fo + i) mod length (endpoints fo))) now))
    \<and> current_idx fo' \<noteq> current_idx fo
    \<and> consecutive_failures (states fo' ! current_idx fo) = 0
    \<and> (\<forall>t. in_cooldown (states fo' ! current_idx fo) t \<longleftrightarrow> t < now + secs 60)"
proof -
  have len: "current_idx fo < length (states fo)" using wf by (simp add: failover_wf_def)
  from report_failure_move [OF assms] obtain k where
    k: "1 \<le> k" "k < length (endpoints fo)"
      "fo' = switched (marked fo now) ((current_idx fo + k) mod length (endpoints fo)) sysnow"
      "(current_idx fo + k) mod length (endpoints fo) \<noteq> current_idx fo"
      "\<not> in_cooldown (states fo ! ((current_idx fo + k) mod length (endpoints fo))) now"
      "\<forall>i. 1 \<le> i \<and> i < k \<longrightarrow> in_cooldown (states fo ! ((current_idx fo + i) mod length (endpoints fo))) now"
    by blast
  moreover have "states fo' ! current_idx fo = \<lparr>consecutive_failures = 0, last_failure = Some now\<rparr>"
    using k(3) len by (simp add: switched_def marked_def)
  ultimately show ?thesis by (auto simp: in_cooldown_recorded)
qed

text \<open>Two endpoints, the first of them one failure below the threshold.\<close>

definition sample_manager :: failover_manager where
  "sample_manager = (failover_new [sample_endpoint, sample_endpoint])
     \<lparr>states := [\<lparr>consecutive_failures = 2, last_failure = Some 5\<rparr>, endpoint_state_fresh]\<rparr>"

lemma sample_manager_facts:
  "failover_wf sample_manager" "current_idx sample_manager = 0" "length (endpoints sample_manager) = 2"
  "FAILURE_THRESHOLD \<le> consecutive_failures (states sample_manager ! 0) + 1"
  "\<not> in_cooldown (states sample_manager ! 1) now"
  by (simp_all add: sample_manager_def failover_wf_def failover_new_def FAILURE_THRESHOLD_def
      in_cooldown_def endpoint_state_fresh_def)

theorem report_failure_moves_to_first_healthy_witness:
  "\<exists>fo'. report_failure sample_manager 10 0 = Ret fo' \<and> current_idx fo' \<noteq> 0
     \<and> consecutive_failures (states fo' ! 0) = 0
     \<and> (\<forall>t. in_cooldown (states fo' ! 0) t \<longleftrightarrow> t < 10 + secs 60)"
proof -
  obtain fo' where fo': "report_failure sample_manager 10 0 = Ret fo'"
    using report_failure_good [OF sample_manager_facts(1), of 10 0]
    by (auto simp: failover_good_def split: outcome.splits)
  show ?thesis
    using report_failure_moves_to_first_healthy [OF sample_manager_facts(1) fo', of 1]
      sample_manager_facts fo' by auto
qed

lemma marked_current:
  "failover_wf fo \<Longrightarrow> states (marked fo now) ! current_idx fo =
     \<lparr>consecutive_failures = consecutive_failures (states fo ! current_idx fo) + 1, last_failure = Some now\<rparr>"
  by (simp add: failover_wf_def marked_def)

lemma report_failure_noted:
  "failover_wf fo \<Longrightarrow> consecutive_failures (states fo ! current_idx fo) + 1 < FAILURE_THRESHOLD \<Longrightarrow>
   report_failure fo now sysnow = Ret (marked fo now)"
  by (simp add: report_failure_eq not_le [symmetric])

text \<open>
  Failover is live and not hasty: from an endpoint with no recorded failures, two failure
  reports in a row keep it, and the third one leaves it whenever another endpoint is out of
  cooldown (times not going backwards).
\<close>

theorem third_failure_leaves_endpoint:
  assumes wf: "failover_wf fo" and c0: "consecutive_failures (states fo ! current_idx fo) = 0"
    and j: "j < length (endpoints fo)" "j \<noteq> current_idx fo" "\<not> in_cooldown (states fo ! j) t1"
    and t: "t1 \<le> t2" "t2 \<le> t3"
  shows "\<exists>fo1 fo2 fo3. report_failure fo t1 s1 = Ret fo1 \<and> current_idx fo1 = current_idx fo
    \<and> report_failure fo1 t2 s2 = Ret fo2 \<and> current_idx fo2 = current_idx fo
    \<and> report_failure fo2 t3 s3 = Ret fo3 \<and> current_idx fo3 \<noteq> current_idx fo"
proof -
  let ?fo1 = "marked fo t1" and ?fo2 = "marked (marked fo t1) t2"
  have wf1: "failover_wf ?fo1" and wf2: "failover_wf ?fo2" using wf by (simp_all add: marked_wf)
  have c1: "consecutive_failures (states ?fo1 ! current_idx fo) = 1"
    using marked_current [OF wf] c0 by simp
  have c2: "consecutive_failures (states ?fo2 ! current_idx fo) = 2"
    using marked_current [OF wf1] c1 by simp
  have r1: "report_failure fo t1 s1 = Ret ?fo1"
    by (rule report_failure_noted [OF wf]) (simp add: c0 FAILURE_THRESHOLD_def)
  have r2: "report_failure ?fo1 t2 s2 = Ret ?fo2"
    by (rule report_failure_noted [OF wf1]) (simp add: c1 FAILURE_THRESHOLD_def)
  obtain fo3 where r3: "report_failure ?fo2 t3 s3 = Ret fo3"
    using report_failure_good [OF wf2, of t3 s3] by (auto simp: failover_good_def split: outcome.splits)
  have cool: "\<not> in_cooldown (states ?fo2 ! j) t3"
    using in_cooldown_antimono [OF j(3)] t j(2) by simp
  have thr: "FAILURE_THRESHOLD \<le> consecutive_failures (states ?fo2 ! current_idx ?fo2) + 1"
    using c2 by (simp add: FAILURE_THRESHOLD_def)
  have "current_idx fo3 \<noteq> current_idx fo"
  proof (rule report_failure_move [OF wf2 r3 thr _ _ cool])
  qed (use j in simp_all)
  with r1 r2 r3 show ?thesis
    by (intro exI [of _ ?fo1] exI [of _ ?fo2] exI [of _ fo3]) simp
qed

theorem third_failure_leaves_endpoint_witness:
  "\<exists>fo1 fo2 fo3. report_failure (failover_new [sample_endpoint, sample_endpoint]) 1 0 = Ret fo1 \<and> current_idx fo1 = 0
    \<and> report_failure fo1 2 0 = Ret fo2 \<and> current_idx fo2 = 0
    \<and> report_failure fo2 3 0 = Ret fo3 \<and> current_idx fo3 \<noteq> 0"
  using third_failure_leaves_endpoint [of "failover_new [sample_endpoint, sample_endpoint]" 1 1 2 3 0 0 0]
  by (simp add: failover_new_def failover_wf_def endpoint_state_fresh_def in_cooldown_def)

text \<open>
  A switch succeeds exactly when some endpoint of the list is out of cooldown. It then makes
  such an endpoint current and touches only the counter of the one it leaves; otherwise nothing
  changes. (The current endpoint is itself the last candidate, so a switch can end where it began.)
\<close>

theorem try_switch_spec:
  assumes wf: "failover_wf fo"
  shows "\<exists>fo' b. try_switch fo now sysnow = Ret (fo', b)
    \<and> (b \<longleftrightarrow> (\<exists>i < length (endpoints fo). \<not> in_cooldown (states fo ! i) now))
    \<and> (if b then \<not> in_cooldown (states fo ! current_idx fo') now
         \<and> states fo' = (states fo)[current_idx fo := (states fo ! current_idx fo)\<lparr>consecutive_failures := 0\<rparr>]
         \<and> last_switch_system_time fo' = Some sysnow
       else fo' = fo)"
  using wf
proof (cases rule: try_switch_cases [where now = now and sysnow = sysnow])
  case none
  then show ?thesis by (auto simp: try_switch_def)
next
  case (some k)
  have "(current_idx fo + k) mod length (endpoints fo) < length (endpoints fo)"
    using wf by (rule mod_endpoints_less)
  with some show ?thesis by (auto simp: try_switch_def switched_def)
qed

theorem try_switch_spec_witness:
  "\<exists>fo' b. try_switch sample_manager 10 0 = Ret (fo', b)
    \<and> (b \<longleftrightarrow> (\<exists>i < length (endpoints sample_manager). \<not> in_cooldown (states sample_manager ! i) 10))"
  using try_switch_spec [OF sample_manager_facts(1), of 10 0] by blast

end
