(* ===== verification/Proxy.thy ===== *)
theory Proxy
  imports Steal Tls_Client Rate_Limiter Failover
begin

text \<open>
  The local SOCKS5 proxy of \<open>transport-core/src/proxy.rs\<close>. Text is its UTF-8 bytes. Two renderings
  of the standard library are parameters: an IPv6 address as text (its form depends on the
  toolchain) and the lossy conversion of bytes to text. What other connections do to the shared
  failover manager while this one waits is a function applied to the manager.
\<close>

record std_fmt =
  ipv6_to_string :: "bytes \<Rightarrow> bytes"
  from_utf8_lossy :: "bytes \<Rightarrow> bytes"

section \<open>The SOCKS5 request\<close>

definition SOCKS_VERSION :: u8 where "SOCKS_VERSION = 0x05"
definition NO_AUTH :: u8 where "NO_AUTH = 0x00"
definition CMD_CONNECT :: u8 where "CMD_CONNECT = 0x01"
definition ATYP_IPV4 :: u8 where "ATYP_IPV4 = 0x01"
definition ATYP_DOMAIN :: u8 where "ATYP_DOMAIN = 0x03"
definition ATYP_IPV6 :: u8 where "ATYP_IPV6 = 0x04"
definition REP_SUCCESS :: u8 where "REP_SUCCESS = 0x00"
definition REP_FAILURE :: u8 where "REP_FAILURE = 0x01"

lemmas socks_consts = SOCKS_VERSION_def NO_AUTH_def CMD_CONNECT_def ATYP_IPV4_def ATYP_DOMAIN_def
  ATYP_IPV6_def REP_SUCCESS_def REP_FAILURE_def

definition socks_reply :: "u8 \<Rightarrow> bytes" where
  "socks_reply rep = [SOCKS_VERSION, rep, 0x00, ATYP_IPV4, 0, 0, 0, 0, 0, 0]"

definition ipv4_to_string :: "bytes \<Rightarrow> bytes" where
  "ipv4_to_string ip = bytes_of (show_nat (unat (ip ! 0)) @ ''.'' @ show_nat (unat (ip ! 1)) @ ''.''
     @ show_nat (unat (ip ! 2)) @ ''.'' @ show_nat (unat (ip ! 3)))"

definition read_target_host :: "std_fmt \<Rightarrow> u8 \<Rightarrow> (conn, bytes) io" where
  "read_target_host F atyp =
     (if atyp = ATYP_IPV4 then bindE (sock_read 4) (\<lambda>ip. retE (ipv4_to_string ip))
      else if atyp = ATYP_DOMAIN then
        bindE (sock_read 1) (\<lambda>len.
        bindE (sock_read (unat (len ! 0))) (\<lambda>domain.
        if utf8_valid domain then retE domain else failE (Protocol ''invalid domain encoding'')))
      else if atyp = ATYP_IPV6 then bindE (sock_read 16) (\<lambda>ip. retE (ipv6_to_string F ip))
      else failE (Protocol (''unknown atyp: '' @ show_nat (unat atyp))))"

definition socks_request :: "std_fmt \<Rightarrow> (conn, bytes \<times> u16) io" where
  "socks_request F =
     bindE (sock_read 2) (\<lambda>header.
     if header ! 0 \<noteq> SOCKS_VERSION then failE (Protocol ''not SOCKS5'') else
     bindE (sock_read (unat (header ! 1))) (\<lambda>methods.
     if NO_AUTH \<notin> set methods then
       bindE (sock_write [SOCKS_VERSION, 0xFF]) (\<lambda>_. failE (Protocol ''no acceptable auth method'')) else
     bindE (sock_write [SOCKS_VERSION, NO_AUTH]) (\<lambda>_.
     bindE (sock_read 4) (\<lambda>req.
     if req ! 0 \<noteq> SOCKS_VERSION then failE (Protocol ''bad SOCKS version in request'') else
     if req ! 1 \<noteq> CMD_CONNECT then
       bindE (sock_write (socks_reply 0x07)) (\<lambda>_. failE (Protocol ''only CONNECT supported'')) else
     bindE (read_target_host F (req ! 3)) (\<lambda>target_host.
     bindE (sock_read 2) (\<lambda>port_bytes.
     retE (target_host, from_be16 (port_bytes ! 0) (port_bytes ! 1))))))))"

section \<open>The connection to the gateway\<close>

text \<open>The outcome of the connection attempt under its timeout, with the instant of the report.\<close>

definition tls_connect_endpoint ::
  "'tcp net \<Rightarrow> endpoint_config \<Rightarrow> (transport_error + reader \<times> writer) outcome" where
  "tls_connect_endpoint N e =
     (case tls_new [sni e] of
        Inl err \<Rightarrow> Ret (Inl err)
      | Inr c \<Rightarrow> (case tls_connect N c (host e) (port e) of Panic \<Rightarrow> Panic | Ret (_, r) \<Rightarrow> Ret r))"

record attempt =
  timed_out :: bool
  others :: "failover_manager \<Rightarrow> failover_manager"
  at :: instant
  at_sys :: int

definition fail_report ::
  "attempt \<Rightarrow> failover_manager \<Rightarrow> transport_error \<Rightarrow> (failover_manager \<times> (transport_error + 'a)) outcome" where
  "fail_report t fo e =
     (case report_failure (others t fo) (at t) (at_sys t) of Panic \<Rightarrow> Panic | Ret fo \<Rightarrow> Ret (fo, Inl e))"

definition connect_tls ::
  "'tcp net \<Rightarrow> attempt \<Rightarrow> failover_manager
   \<Rightarrow> (failover_manager \<times> (transport_error + (reader \<times> writer) \<times> endpoint_config)) outcome" where
  "connect_tls N t fo =
     (case current_endpoint fo of
        Panic \<Rightarrow> Panic
      | Ret e \<Rightarrow>
          if timed_out t then fail_report t fo (Protocol ''gateway connect timeout'')
          else
            (case tls_connect_endpoint N e of
               Panic \<Rightarrow> Panic
             | Ret (Inl err) \<Rightarrow> fail_report t fo err
             | Ret (Inr s) \<Rightarrow> Ret (others t fo, Inr (s, e))))"

section \<open>Handling a connection up to the relay\<close>

text \<open>
  The random values of the handshake, and what other connections do between the connection phase
  and the success report.
\<close>

record session_draw =
  draw_secret :: bytes
  draw_c2s :: bytes
  draw_s2c :: bytes
  others_later :: "failover_manager \<Rightarrow> failover_manager"

text \<open>The tunnel that a successful handler hands to the relay.\<close>

record tunnel =
  tn_codec :: frame_codec
  tn_in :: reader
  tn_out :: writer

text \<open>The session phase on the connected stream: keys, handshake, CONNECT, acknowledgement.\<close>

datatype session_result =
    SessionUp tunnel
  | SessionFailed transport_error
  | SessionRefused transport_error

definition connect_message :: "bytes \<Rightarrow> u16 \<Rightarrow> bytes" where
  "connect_message h p = bytes_of ''CONNECT '' @ h @ bytes_of '':'' @ show_port p"

definition open_session ::
  "std_fmt \<Rightarrow> aead \<Rightarrow> kex \<Rightarrow> session_draw \<Rightarrow> endpoint_config \<Rightarrow> bytes \<Rightarrow> u16 \<Rightarrow> reader \<Rightarrow> writer \<Rightarrow> session_result outcome" where
  "open_session F A K d e target_host target_port r w =
     (case decode_hex32 (server_pub e) of
        Panic \<Rightarrow> Panic
      | Ret None \<Rightarrow> Ret (SessionFailed (Protocol ''invalid server_pub hex''))
      | Ret (Some server_public) \<Rightarrow>
      (case decode_hex32 (psk e) of
        Panic \<Rightarrow> Panic
      | Ret None \<Rightarrow> Ret (SessionFailed (Protocol ''invalid psk hex''))
      | Ret (Some client_psk) \<Rightarrow>
      (case client_handshake K (draw_secret d) (draw_c2s d) (draw_s2c d) server_public client_psk r w of
        (r, w, Inl err) \<Rightarrow> Ret (SessionRefused err)
      | (r, w, Inr a) \<Rightarrow>
          let codec = codec_new (session_key a) (c2s_prefix a) (s2c_prefix a) 0 in
          (case write_frame A codec w (connect_message target_host target_port) of
             (codec, w, Inl err) \<Rightarrow> Ret (SessionFailed err)
           | (codec, w, Inr _) \<Rightarrow>
               (case read_frame A codec r of
                  (codec, r, Inl err) \<Rightarrow> Ret (SessionFailed err)
                | (codec, r, Inr ack) \<Rightarrow>
                    if ack \<noteq> bytes_of ''OK''
                    then Ret (SessionRefused (Protocol (''gateway refused: '' @ string_of (from_utf8_lossy F ack))))
                    else Ret (SessionUp \<lparr>tn_codec = codec, tn_in = r, tn_out = w\<rparr>))))))"

text \<open>Refusals are answered to the SOCKS client before the error is returned; failures are not.\<close>

definition refuse :: "transport_error \<Rightarrow> (conn, 'a) io" where
  "refuse e = bindE (sock_write (socks_reply REP_FAILURE)) (\<lambda>_. failE e)"

definition handle_connection ::
  "std_fmt \<Rightarrow> 'tcp net \<Rightarrow> aead \<Rightarrow> kex \<Rightarrow> attempt \<Rightarrow> session_draw \<Rightarrow> conn \<Rightarrow> failover_manager
   \<Rightarrow> (failover_manager \<times> conn \<times> (transport_error + tunnel)) outcome" where
  "handle_connection F N A K t d c fo =
     (case socks_request F c of
        (c, Inl err) \<Rightarrow> Ret (fo, c, Inl err)
      | (c, Inr (target_host, target_port)) \<Rightarrow>
      (case connect_tls N t fo of
        Panic \<Rightarrow> Panic
      | Ret (fo, Inl err) \<Rightarrow> Ret (fo, refuse err c)
      | Ret (fo, Inr ((r, w), e)) \<Rightarrow>
      (case open_session F A K d e target_host target_port r w of
        Panic \<Rightarrow> Panic
      | Ret (SessionFailed err) \<Rightarrow> Ret (fo, c, Inl err)
      | Ret (SessionRefused err) \<Rightarrow> Ret (fo, refuse err c)
      | Ret (SessionUp tn) \<Rightarrow>
          (case report_success (others_later d fo) of
             Panic \<Rightarrow> Panic
           | Ret fo \<Rightarrow> Ret (fo, bindE (sock_write (socks_reply REP_SUCCESS)) (\<lambda>_. retE tn) c)))))"

section \<open>The relay\<close>

text \<open>
  One turn of the loop takes the branch of the \<open>select!\<close> that is ready. When the local client is
  read first, the pending \<open>read_frame\<close> is dropped with the bytes it had already taken from the
  gateway stream: their number is part of the event. Waiting for the rate limiter takes the
  instants of its polls; a wait that none of them ends leaves the relay waiting.
\<close>

record relay_state =
  rl_codec :: frame_codec
  rl_client :: writer
  rl_gw_in :: reader
  rl_gw_out :: writer
  rl_limit :: "token_bucket option"

datatype relay_event =
    ClientRead nat "nat list" "io_error + bytes"
  | GatewayRead "nat list"

datatype relay_turn =
    Running relay_state
  | Closed relay_state "transport_error + unit"
  | Waiting relay_state

definition relay_wait :: "relay_state \<Rightarrow> nat \<Rightarrow> nat list \<Rightarrow> relay_state option" where
  "relay_wait st n polls =
     (case rl_limit st of
        None \<Rightarrow> Some st
      | Some b \<Rightarrow>
          (case wait_for_bytes_async (of_nat n) polls b of
             None \<Rightarrow> None
           | Some (b, _) \<Rightarrow> Some (st\<lparr>rl_limit := Some b\<rparr>)))"

definition relay_rekey :: "aead \<Rightarrow> relay_state \<Rightarrow> bytes \<Rightarrow> relay_turn" where
  "relay_rekey A st data =
     (let magic_len = length REKEY_INIT_MAGIC in
      if length data < magic_len + 1 + 32 then Closed st (Inl (Protocol ''REKEY_INIT too short''))
      else
        let new_kid = data ! magic_len; new_key = take 32 (drop (magic_len + 1) data) in
        (case write_frame A (rl_codec st) (rl_gw_out st) (REKEY_ACK_MAGIC @ [new_kid]) of
           (c, w, Inl e) \<Rightarrow> Closed (st\<lparr>rl_codec := c, rl_gw_out := w\<rparr>) (Inl e)
         | (c, w, Inr _) \<Rightarrow> Running (st\<lparr>rl_codec := start_rekey c new_kid new_key, rl_gw_out := w\<rparr>)))"

fun relay_step :: "aead \<Rightarrow> relay_state \<Rightarrow> relay_event \<Rightarrow> relay_turn" where
  "relay_step A st (ClientRead lost polls res) =
     (let st = st\<lparr>rl_gw_in := (rl_gw_in st)\<lparr>rbuf := drop lost (rbuf (rl_gw_in st))\<rparr>\<rparr> in
      case res of
        Inl e \<Rightarrow> Closed st (Inl (Io e))
      | Inr bs \<Rightarrow>
          if bs = [] then Closed st (Inr ())
          else
            (case relay_wait st (length bs) polls of
               None \<Rightarrow> Waiting st
             | Some st \<Rightarrow>
                 (case write_frame A (rl_codec st) (rl_gw_out st) bs of
                    (c, w, Inl e) \<Rightarrow> Closed (st\<lparr>rl_codec := c, rl_gw_out := w\<rparr>) (Inl e)
                  | (c, w, Inr _) \<Rightarrow> Running (st\<lparr>rl_codec := c, rl_gw_out := w\<rparr>))))"
| "relay_step A st (GatewayRead polls) =
     (case read_frame A (rl_codec st) (rl_gw_in st) of
        (c, r, Inr data) \<Rightarrow>
          let st = st\<lparr>rl_codec := c, rl_gw_in := r\<rparr> in
          if length data \<ge> length REKEY_INIT_MAGIC \<and> take (length REKEY_INIT_MAGIC) data = REKEY_INIT_MAGIC
          then relay_rekey A st data
          else
            (case relay_wait st (length data) polls of
               None \<Rightarrow> Waiting st
             | Some st \<Rightarrow>
                 (case write_all data (rl_client st) of
                    (w, Inl e) \<Rightarrow> Closed (st\<lparr>rl_client := w\<rparr>) (Inl (Io e))
                  | (w, Inr _) \<Rightarrow> Running (st\<lparr>rl_client := w\<rparr>)))
      | (c, r, Inl (Io e)) \<Rightarrow>
          Closed (st\<lparr>rl_codec := c, rl_gw_in := r\<rparr>) (if io_kind e = UnexpectedEof then Inr () else Inl (Io e))
      | (c, r, Inl e) \<Rightarrow> Closed (st\<lparr>rl_codec := c, rl_gw_in := r\<rparr>) (Inl e))"

fun relay_run :: "aead \<Rightarrow> relay_state \<Rightarrow> relay_event list \<Rightarrow> relay_turn" where
  "relay_run A st [] = Running st"
| "relay_run A st (x # xs) =
     (case relay_step A st x of Running st \<Rightarrow> relay_run A st xs | turn \<Rightarrow> turn)"

section \<open>Lemmas\<close>

lemma fail_report_id:
  "others t = id \<Longrightarrow> fail_report t fo e = (case report_failure fo (at t) (at_sys t) of Panic \<Rightarrow> Panic | Ret fo \<Rightarrow> Ret (fo, Inl e))"
  by (simp add: fail_report_def)

text \<open>A well-formed CONNECT request for a domain name.\<close>

definition socks_hello :: "bytes \<Rightarrow> bytes" where
  "socks_hello methods = [0x05, of_nat (length methods)] @ methods"

definition socks_connect_domain :: "bytes \<Rightarrow> u16 \<Rightarrow> bytes" where
  "socks_connect_domain domain p = [0x05, 0x01, 0x00, 0x03, of_nat (length domain)] @ domain @ be16 p"

lemma unat_u8_of_nat: "n < 256 \<Longrightarrow> unat (of_nat n :: u8) = n"
  by (simp only: unat_of_nat) simp

lemma read_target_domain:
  assumes "length domain < 256" and "utf8_valid domain"
    and "rbuf (inp c) = [of_nat (length domain)] @ domain @ rest"
  shows "read_target_host F 0x03 c = (c\<lparr>inp := (inp c)\<lparr>rbuf := rest\<rparr>\<rparr>, Inr domain)"
proof -
  let ?c = "c\<lparr>inp := (inp c)\<lparr>rbuf := domain @ rest\<rparr>\<rparr>"
  have "sock_read 1 c = (?c, Inr [of_nat (length domain)])"
    using sock_read_append [of c "[of_nat (length domain)]" "domain @ rest" 1] assms(3) by simp
  moreover have "sock_read (length domain) ?c = (c\<lparr>inp := (inp c)\<lparr>rbuf := rest\<rparr>\<rparr>, Inr domain)"
    using sock_read_append [of ?c domain rest "length domain"] by simp
  ultimately show ?thesis
    using assms(1,2) by (simp add: read_target_host_def socks_consts bindE_def retE_def unat_u8_of_nat)
qed

text \<open>What a read does to a codec leaves its sending side alone.\<close>

lemma linked_cong:
  assumes "send_prefix s' = send_prefix s" and "kid (cstate s') = kid (cstate s)"
    and "cipher (cstate s') = cipher (cstate s)" and "send_counter s' = send_counter s"
  shows "linked s' g = linked s g"
  using assms by (simp only: linked_def)

lemma read_frame_linked: "linked (fst (read_frame A c r)) g = linked c g"
proof (rule linked_cong)
  have "cstate (fst (read_frame A c r)) = cstate c \<or> cstate (fst (read_frame A c r)) = count_overlap (cstate c)"
    using read_op_cstate [of A c r] by (simp split: if_splits)
  then show "kid (cstate (fst (read_frame A c r))) = kid (cstate c)"
    "cipher (cstate (fst (read_frame A c r))) = cipher (cstate c)" by auto
qed simp_all

text \<open>The chunks the local client sent, and runs that lose no bytes and meet no rekey message.\<close>

fun client_chunks :: "relay_event list \<Rightarrow> bytes list" where
  "client_chunks [] = []"
| "client_chunks (ClientRead lost polls (Inr bs) # xs) = bs # client_chunks xs"
| "client_chunks (x # xs) = client_chunks xs"

fun quiet :: "aead \<Rightarrow> relay_state \<Rightarrow> relay_event list \<Rightarrow> bool" where
  "quiet A st [] \<longleftrightarrow> True"
| "quiet A st (x # xs) \<longleftrightarrow>
     (case x of
        ClientRead lost polls res \<Rightarrow> lost = 0
      | GatewayRead polls \<Rightarrow>
          (case read_frame A (rl_codec st) (rl_gw_in st) of
             (c, r, Inr data) \<Rightarrow> take (length REKEY_INIT_MAGIC) data \<noteq> REKEY_INIT_MAGIC
           | _ \<Rightarrow> True))
     \<and> (case relay_step A st x of Running st' \<Rightarrow> quiet A st' xs | _ \<Rightarrow> True)"

lemma relay_wait_fields:
  "relay_wait st n polls = Some st' \<Longrightarrow>
   rl_codec st' = rl_codec st \<and> rl_gw_out st' = rl_gw_out st \<and> rl_gw_in st' = rl_gw_in st \<and> rl_client st' = rl_client st"
  by (auto simp: relay_wait_def split: option.splits)

lemma relay_gateway_read:
  assumes "relay_step A st (GatewayRead polls) = Running st'" and "quiet A st [GatewayRead polls]"
  shows "rl_codec st' = fst (read_frame A (rl_codec st) (rl_gw_in st)) \<and> rl_gw_out st' = rl_gw_out st"
  using assms
  by (auto simp: Let_def split: prod.splits sum.splits if_splits option.splits transport_error.splits
      dest!: relay_wait_fields)

lemma relay_client_read:
  assumes "relay_step A st (ClientRead 0 polls res) = Running st'"
  obtains bs st1 where "res = Inr bs" "relay_wait st (length bs) polls = Some st1"
    "write_frame A (rl_codec st) (rl_gw_out st) bs = (rl_codec st', rl_gw_out st', Inr ())"
proof -
  have "st\<lparr>rl_gw_in := (rl_gw_in st)\<lparr>rbuf := drop 0 (rbuf (rl_gw_in st))\<rparr>\<rparr> = st" by simp
  with assms obtain bs st1 where "res = Inr bs" "relay_wait st (length bs) polls = Some st1"
      "write_frame A (rl_codec st1) (rl_gw_out st1) bs = (rl_codec st', rl_gw_out st', Inr ())"
    by (auto simp: Let_def split: sum.splits if_splits option.splits prod.splits)
  with relay_wait_fields [of st "length bs" polls st1] that show thesis by simp
qed

lemma relay_client_read_in:
  assumes "relay_step A st (ClientRead lost polls res) = Running st'"
  shows "rl_gw_in st' = (rl_gw_in st)\<lparr>rbuf := drop lost (rbuf (rl_gw_in st))\<rparr>"
proof -
  define st0 where "st0 = st\<lparr>rl_gw_in := (rl_gw_in st)\<lparr>rbuf := drop lost (rbuf (rl_gw_in st))\<rparr>\<rparr>"
  obtain bs where bs: "res = Inr bs" "bs \<noteq> []"
    using assms by (cases res) (auto simp: Let_def split: if_splits)
  then obtain st1 where st1: "relay_wait st0 (length bs) polls = Some st1"
    using assms by (cases "relay_wait st0 (length bs) polls") (simp_all add: Let_def st0_def)
  obtain c w r where "write_frame A (rl_codec st1) (rl_gw_out st1) bs = (c, w, r)" by (metis prod_cases3)
  then have "rl_gw_in st' = rl_gw_in st1"
    using assms bs st1 by (cases r) (auto simp: Let_def st0_def)
  then show ?thesis using relay_wait_fields [OF st1] by (simp add: st0_def)
qed

lemma relay_forwards_run:
  assumes A: "aead_correct A" and "linked (rl_codec st) g" and "healthy (rl_gw_out st)" and "quiet A st xs"
    and "relay_run A st xs = Running st'" and "\<forall>bs \<in> set (client_chunks xs). length bs \<le> MAX_PAYLOAD"
    and "unat (send_counter (rl_codec st)) + length (client_chunks xs) \<le> unat REKEY_THRESHOLD"
  shows "\<exists>wire g'. wbuf (rl_gw_out st') = wbuf (rl_gw_out st) @ wire
    \<and> (\<forall>i rest. rbuf i = wire @ rest \<longrightarrow>
         read_frames A g i (length (client_chunks xs)) = (g', i\<lparr>rbuf := rest\<rparr>, Inr (client_chunks xs)))"
  using assms(2-)
proof (induction xs arbitrary: st g)
  case Nil
  then show ?case by (intro exI [of _ "[]"] exI [of _ g]) simp
next
  case (Cons x xs)
  obtain st1 where st1: "relay_step A st x = Running st1" "relay_run A st1 xs = Running st'"
    using Cons.prems(4) by (auto split: relay_turn.splits)
  have q: "quiet A st1 xs" "quiet A st [x]" using Cons.prems(3) st1(1) by auto
  show ?case
  proof (cases x)
    case (GatewayRead polls)
    note rd = relay_gateway_read [OF st1(1) [unfolded GatewayRead] q(2) [unfolded GatewayRead]]
    have "linked (rl_codec st1) g" using Cons.prems(1) rd by (simp only: read_frame_linked)
    moreover have "send_counter (rl_codec st1) = send_counter (rl_codec st)" using rd by simp
    ultimately show ?thesis
      using Cons.IH [OF _ _ q(1) st1(2), of g] Cons.prems(2,5,6) rd GatewayRead by simp
  next
    case (ClientRead lost polls res)
    then have "lost = 0" using q(2) by simp
    obtain bs where bs: "res = Inr bs"
        "write_frame A (rl_codec st) (rl_gw_out st) bs = (rl_codec st1, rl_gw_out st1, Inr ())"
      using relay_client_read [of A st polls res st1] st1(1) ClientRead \<open>lost = 0\<close> by metis
    then have chunks: "client_chunks (x # xs) = bs # client_chunks xs" using ClientRead by simp
    have p: "length bs \<le> MAX_PAYLOAD" using Cons.prems(5) chunks by simp
    have n: "send_counter (rl_codec st) < REKEY_THRESHOLD"
        "unat (send_counter (rl_codec st) + 1) + length (client_chunks xs) \<le> unat REKEY_THRESHOLD"
      using Cons.prems(6) chunks counter_succ_bound [of "send_counter (rl_codec st)" "length (client_chunks xs)"] by auto
    let ?g = "g\<lparr>recv_replay := fst (replay_check (recv_replay g) (send_counter (rl_codec st))), cstate := count_overlap (cstate g)\<rparr>"
    have wr: "rl_codec st1 = (rl_codec st)\<lparr>send_counter := send_counter (rl_codec st) + 1\<rparr>"
        "rl_gw_out st1 = (rl_gw_out st)\<lparr>wbuf := wbuf (rl_gw_out st) @ sealed A (rl_codec st) bs\<rparr>"
      using write_frame_ok [OF A p n(1) Cons.prems(2)] bs(2) by simp_all
    have rd: "read_frame A g i = (?g, i\<lparr>rbuf := rest\<rparr>, Inr bs)" if "rbuf i = sealed A (rl_codec st) bs @ rest" for i rest
      by (rule read_sealed [OF A p n(1) linked_can_open [OF Cons.prems(1)] that])
    have "linked (rl_codec st1) ?g" unfolding wr(1) by (rule linked_step [OF Cons.prems(1) n(1)])
    then obtain wire g' where ih: "wbuf (rl_gw_out st') = wbuf (rl_gw_out st1) @ wire"
        "\<forall>i rest. rbuf i = wire @ rest \<longrightarrow>
           read_frames A ?g i (length (client_chunks xs)) = (g', i\<lparr>rbuf := rest\<rparr>, Inr (client_chunks xs))"
      using Cons.IH [of st1 ?g] q(1) st1(2) Cons.prems(2,5) chunks n(2) wr by auto
    have "read_frames A g i (length (client_chunks (x # xs))) = (g', i\<lparr>rbuf := rest\<rparr>, Inr (client_chunks (x # xs)))"
      if "rbuf i = (sealed A (rl_codec st) bs @ wire) @ rest" for i rest
      using rd [of i "wire @ rest"] ih(2) [rule_format, of "i\<lparr>rbuf := wire @ rest\<rparr>" rest] that chunks by simp
    then show ?thesis
      using ih(1) wr(2) by (intro exI [of _ "sealed A (rl_codec st) bs @ wire"] exI [of _ g']) simp
  qed
qed

section \<open>Properties\<close>

text \<open>
  The SOCKS5 dialogue: for every offer of methods that includes "no authentication" and every
  CONNECT request for a domain name of up to 255 valid bytes, the proxy answers with the method
  selection, returns exactly the requested name and port, and consumes exactly the request.
\<close>

theorem socks_domain_request:
  assumes "length methods < 256" and "0 \<in> set methods" and "length domain < 256" and "utf8_valid domain"
    and "healthy (out c)" and buf: "rbuf (inp c) = socks_hello methods @ socks_connect_domain domain p @ rest"
  shows "socks_request F c =
    (c\<lparr>inp := (inp c)\<lparr>rbuf := rest\<rparr>, out := (out c)\<lparr>wbuf := wbuf (out c) @ [0x05, 0x00]\<rparr>\<rparr>, Inr (domain, p))"
proof -
  let ?in = "\<lambda>bs. c\<lparr>inp := (inp c)\<lparr>rbuf := bs\<rparr>\<rparr>"
  let ?io = "\<lambda>bs. c\<lparr>inp := (inp c)\<lparr>rbuf := bs\<rparr>, out := (out c)\<lparr>wbuf := wbuf (out c) @ [0x05, 0x00]\<rparr>\<rparr>"
  let ?req = "socks_connect_domain domain p @ rest"
  have s1: "sock_read 2 c = (?in (methods @ ?req), Inr [0x05, of_nat (length methods)])"
    using sock_read_append [of c "[0x05, of_nat (length methods)]" "methods @ ?req" 2] buf by (simp add: socks_hello_def)
  have s2: "sock_read (length methods) (?in (methods @ ?req)) = (?in ?req, Inr methods)"
    using sock_read_append [of "?in (methods @ ?req)" methods ?req "length methods"] by simp
  have s3: "sock_write [0x05, 0x00] (?in ?req) = (?io ?req, Inr ())"
    using assms(5) by (simp add: sock_write_healthy)
  have s4: "sock_read 4 (?io ?req) = (?io ([of_nat (length domain)] @ domain @ be16 p @ rest), Inr [0x05, 0x01, 0x00, 0x03])"
    using sock_read_append [of "?io ?req" "[0x05, 0x01, 0x00, 0x03]" "[of_nat (length domain)] @ domain @ be16 p @ rest" 4]
    by (simp add: socks_connect_domain_def)
  have s5: "read_target_host F 0x03 (?io ([of_nat (length domain)] @ domain @ be16 p @ rest)) = (?io (be16 p @ rest), Inr domain)"
    using read_target_domain [OF assms(3,4), of "?io ([of_nat (length domain)] @ domain @ be16 p @ rest)" "be16 p @ rest" F] by simp
  have s6: "sock_read 2 (?io (be16 p @ rest)) = (?io rest, Inr (be16 p))"
    using sock_read_append [of "?io (be16 p @ rest)" "be16 p" rest 2] by simp
  show ?thesis
    unfolding socks_request_def bindE_Inr [of "sock_read 2", OF s1]
    using assms(1,2) s2 s3 s4 s5 s6 from_be16_be16 [of p]
    by (simp add: bindE_def retE_def socks_consts unat_u8_of_nat)
qed

definition ascii_fmt :: std_fmt where
  "ascii_fmt = \<lparr>ipv6_to_string = (\<lambda>ip. bytes_of ''::''), from_utf8_lossy = (\<lambda>b. b)\<rparr>"

definition sample_client :: "bytes \<Rightarrow> conn" where
  "sample_client bs = \<lparr>inp = cursor bs, out = vec_writer\<rparr>"

theorem socks_domain_request_witness:
  "snd (socks_request ascii_fmt (sample_client (socks_hello [0] @ socks_connect_domain (bytes_of ''a.b'') 443 @ [9])))
     = Inr (bytes_of ''a.b'', 443)"
proof -
  have "utf8_valid (bytes_of ''a.b'')" by code_simp
  then show ?thesis
    by (subst socks_domain_request [where methods = "[0]" and domain = "bytes_of ''a.b''" and p = 443 and rest = "[9]"])
      (simp_all add: sample_client_def cursor_def)
qed

text \<open>The TCP and TLS phase of a connection fails: a timeout, or an error of the attempt.\<close>

definition connection_failed :: "std_fmt \<Rightarrow> 'tcp net \<Rightarrow> attempt \<Rightarrow> conn \<Rightarrow> failover_manager \<Rightarrow> bool" where
  "connection_failed F N t c fo \<longleftrightarrow>
     (case snd (socks_request F c) of
        Inl e \<Rightarrow> False
      | Inr hp \<Rightarrow> timed_out t \<or>
          (case current_endpoint fo of
             Panic \<Rightarrow> False
           | Ret e \<Rightarrow> (case tls_connect_endpoint N e of Ret (Inl err) \<Rightarrow> True | _ \<Rightarrow> False)))"

text \<open>
  What the first three phases come to when they succeed: the SOCKS client and the tunnel that the
  session on the current endpoint opened.
\<close>

definition tunnel_up ::
  "std_fmt \<Rightarrow> 'tcp net \<Rightarrow> aead \<Rightarrow> kex \<Rightarrow> attempt \<Rightarrow> session_draw \<Rightarrow> conn \<Rightarrow> failover_manager \<Rightarrow> (conn \<times> tunnel) option" where
  "tunnel_up F N A K t d c fo =
     (case (socks_request F c, current_endpoint fo) of
        ((c, Inr (target_host, target_port)), Ret e) \<Rightarrow>
          if timed_out t then None
          else
            (case tls_connect_endpoint N e of
               Ret (Inr (r, w)) \<Rightarrow>
                 (case open_session F A K d e target_host target_port r w of
                    Ret (SessionUp tn) \<Rightarrow> Some (c, tn)
                  | _ \<Rightarrow> None)
             | _ \<Rightarrow> None)
      | _ \<Rightarrow> None)"

text \<open>
  C26. The failover manager is charged for connection errors and for nothing else: with no other
  connection interfering, handling a connection records one failure exactly when the TCP or TLS
  connection failed or timed out; records a success exactly when the tunnel came up, that is, when
  the keys, the handshake, the CONNECT frame and its answer were all good (also if the final SOCKS
  reply cannot be written, the only error that is left then); and leaves the manager exactly as it is
  in every other case, so errors of the request, the keys, the handshake, the CONNECT frame or its
  answer never touch it.
\<close>

theorem failover_charged_only_for_connection_errors:
  assumes "others t = id" and "others_later d = id" and h: "handle_connection F N A K t d c fo = Ret (fo', c', res)"
  shows "if connection_failed F N t c fo
    then report_failure fo (at t) (at_sys t) = Ret fo' \<and> (\<exists>err. res = Inl err)
    else (case tunnel_up F N A K t d c fo of
            Some (c1, tn) \<Rightarrow> report_success fo = Ret fo'
              \<and> (c', res) = bindE (sock_write (socks_reply REP_SUCCESS)) (\<lambda>_. retE tn) c1
          | None \<Rightarrow> fo' = fo \<and> (\<exists>err. res = Inl err))"
proof (cases "socks_request F c")
  case (Pair c1 req)
  show ?thesis
  proof (cases req)
    case (Inl e)
    then show ?thesis using h Pair by (auto simp: handle_connection_def connection_failed_def tunnel_up_def)
  next
    case (Inr hp)
    then obtain th tp where hp: "req = Inr (th, tp)" by (cases hp) auto
    have refused: "refuse err c1 = (c2, x) \<Longrightarrow> \<exists>e. x = Inl e" for err c2 and x :: "transport_error + tunnel"
      by (auto simp: refuse_def bindE_def failE_def split: prod.splits sum.splits)
    show ?thesis
      using h Pair hp assms(1,2)
      by (auto simp: handle_connection_def connect_tls_def fail_report_id connection_failed_def tunnel_up_def dest!: refused
          split: outcome.splits sum.splits prod.splits if_splits session_result.splits)
  qed
qed

definition sample_attempt :: "bool \<Rightarrow> attempt" where
  "sample_attempt late = \<lparr>timed_out = late, others = id, at = 7, at_sys = 7\<rparr>"

definition sample_draw :: session_draw where
  "sample_draw = \<lparr>draw_secret = [7], draw_c2s = replicate 8 1, draw_s2c = replicate 8 2, others_later = id\<rparr>"

definition sample_fo :: failover_manager where
  "sample_fo = failover_new [sample_endpoint, sample_endpoint]"

definition sample_socks :: conn where
  "sample_socks = sample_client (socks_hello [0] @ socks_connect_domain (bytes_of ''a.b'') 443)"

theorem failover_charged_only_for_connection_errors_witness:
  "\<exists>fo' c' res. handle_connection ascii_fmt refusing_net toy_aead toy_kex (sample_attempt False) sample_draw sample_socks sample_fo
       = Ret (fo', c', res) \<and> report_failure sample_fo 7 7 = Ret fo' \<and> failure_count fo' = Ret 1"
proof -
  obtain fo' c' res where h: "handle_connection ascii_fmt refusing_net toy_aead toy_kex (sample_attempt False) sample_draw
      sample_socks sample_fo = Ret (fo', c', res)" and n: "failure_count fo' = Ret 1"
  proof -
    have "(case handle_connection ascii_fmt refusing_net toy_aead toy_kex (sample_attempt False) sample_draw
      sample_socks sample_fo of Ret (fo', c', res) \<Rightarrow> failure_count fo' = Ret 1 | Panic \<Rightarrow> False)" by code_simp
    then show thesis using that by (auto split: outcome.splits)
  qed
  have "connection_failed ascii_fmt refusing_net (sample_attempt False) sample_socks sample_fo" by code_simp
  with failover_charged_only_for_connection_errors [OF _ _ h] h n show ?thesis
    by (simp add: sample_attempt_def sample_draw_def)
qed

text \<open>
  A late failure is charged to the wrong endpoint: when other connections have moved the
  manager from the endpoint this connection tried to another one, a timeout adds a failure to
  that other endpoint, puts it into cooldown, and leaves the record of the endpoint that failed
  unchanged.
\<close>

theorem late_failure_charges_wrong_endpoint:
  assumes "failover_wf fo" and wf: "failover_wf (others t fo)" and moved: "current_idx (others t fo) \<noteq> current_idx fo"
    and "endpoints (others t fo) = endpoints fo" and "timed_out t"
    and few: "consecutive_failures (states (others t fo) ! current_idx (others t fo)) + 1 < FAILURE_THRESHOLD"
  shows "\<exists>fo'. connect_tls N t fo = Ret (fo', Inl (Protocol ''gateway connect timeout''))
    \<and> in_cooldown (states fo' ! current_idx (others t fo)) (at t)
    \<and> consecutive_failures (states fo' ! current_idx (others t fo))
        = consecutive_failures (states (others t fo) ! current_idx (others t fo)) + 1
    \<and> states fo' ! current_idx fo = states (others t fo) ! current_idx fo"
proof -
  let ?o = "others t fo"
  let ?i = "current_idx ?o"
  let ?fo' = "?o\<lparr>states := (states ?o)[?i := \<lparr>consecutive_failures = consecutive_failures (states ?o ! ?i) + 1,
      last_failure = Some (at t)\<rparr>]\<rparr>"
  have i: "?i < length (states ?o)" using wf by (simp add: failover_wf_def)
  have "\<not> FAILURE_THRESHOLD \<le> consecutive_failures (states ?o ! ?i) + 1" using few by (simp only: not_le)
  then have "report_failure ?o (at t) (at_sys t) = Ret ?fo'"
    using i by (simp add: report_failure_def Let_def)
  then have "connect_tls N t fo = Ret (?fo', Inl (Protocol ''gateway connect timeout''))"
    using assms(5) current_endpoint_wf [OF assms(1)] by (simp add: connect_tls_def fail_report_def)
  moreover have "in_cooldown \<lparr>consecutive_failures = n, last_failure = Some (at t)\<rparr> (at t)" for n
    by (simp add: in_cooldown_def FAILOVER_MIN_INTERVAL_def secs_def)
  ultimately show ?thesis using i moved by simp
qed

definition moving_attempt :: attempt where
  "moving_attempt = \<lparr>timed_out = True, others = (\<lambda>fo. fo\<lparr>current_idx := 1\<rparr>), at = 7, at_sys = 7\<rparr>"

theorem late_failure_charges_wrong_endpoint_witness:
  "\<exists>fo'. connect_tls refusing_net moving_attempt sample_fo = Ret (fo', Inl (Protocol ''gateway connect timeout''))
    \<and> in_cooldown (states fo' ! current_idx (others moving_attempt sample_fo)) (at moving_attempt)
    \<and> consecutive_failures (states fo' ! current_idx (others moving_attempt sample_fo))
        = consecutive_failures (states (others moving_attempt sample_fo) ! current_idx (others moving_attempt sample_fo)) + 1
    \<and> states fo' ! current_idx sample_fo = states (others moving_attempt sample_fo) ! current_idx sample_fo"
  by (rule late_failure_charges_wrong_endpoint)
    (simp_all add: moving_attempt_def sample_fo_def failover_new_def failover_wf_def endpoint_state_fresh_def
      FAILURE_THRESHOLD_def)

text \<open>
  The relay delivers the local client's data: through any sequence of turns, with frames from
  the gateway arriving in between, as long as no turn loses bytes or meets a rekey message, what
  the relay writes to the gateway is read by a linked codec as exactly the client's chunks, in
  order.
\<close>

theorem relay_delivers_client_data:
  assumes "aead_correct A" and "linked (rl_codec st) g" and "healthy (rl_gw_out st)" and "quiet A st xs"
    and "relay_run A st xs = Running st'" and "\<forall>bs \<in> set (client_chunks xs). length bs \<le> MAX_PAYLOAD"
    and "unat (send_counter (rl_codec st)) + length (client_chunks xs) \<le> unat REKEY_THRESHOLD"
  shows "\<exists>wire g'. wbuf (rl_gw_out st') = wbuf (rl_gw_out st) @ wire
    \<and> (\<forall>i rest. rbuf i = wire @ rest \<longrightarrow>
         read_frames A g i (length (client_chunks xs)) = (g', i\<lparr>rbuf := rest\<rparr>, Inr (client_chunks xs)))"
  by (rule relay_forwards_run [OF assms])

definition sample_relay :: "bytes \<Rightarrow> relay_state" where
  "sample_relay incoming = \<lparr>rl_codec = sample_peer, rl_client = vec_writer, rl_gw_in = cursor incoming,
     rl_gw_out = vec_writer, rl_limit = None\<rparr>"

definition sample_turns :: "relay_event list" where
  "sample_turns = [GatewayRead [], ClientRead 0 [] (Inr [3])]"

theorem relay_delivers_client_data_witness:
  "\<exists>st' wire g'. relay_run toy_aead (sample_relay (sealed toy_aead sample_codec [8])) sample_turns = Running st'
    \<and> wbuf (rl_client st') = [8] \<and> wbuf (rl_gw_out st') = wire
    \<and> read_frames toy_aead sample_codec (cursor wire) 1 = (g', cursor [], Inr [[3]])"
proof -
  let ?st = "sample_relay (sealed toy_aead sample_codec [8])"
  obtain st' where run: "relay_run toy_aead ?st sample_turns = Running st'" and cl: "wbuf (rl_client st') = [8]"
  proof -
    have "(case relay_run toy_aead ?st sample_turns of Running st' \<Rightarrow> wbuf (rl_client st') = [8] | _ \<Rightarrow> False)" by code_simp
    then show thesis using that by (auto split: relay_turn.splits)
  qed
  have "snd (snd (read_frame toy_aead (rl_codec ?st) (rl_gw_in ?st))) = Inr [8]" by code_simp
  then have "quiet toy_aead ?st sample_turns"
    by (auto simp: sample_turns_def REKEY_INIT_MAGIC_def bytes_of_def simp del: relay_step.simps
        split: relay_turn.split prod.split sum.split)
  moreover have "linked (rl_codec ?st) sample_codec"
    by (simp add: sample_relay_def sample_codec_def sample_peer_def linked_new)
  moreover have "unat (send_counter (rl_codec ?st)) + length (client_chunks sample_turns) \<le> unat REKEY_THRESHOLD"
    by (simp add: sample_relay_def sample_peer_def codec_new_def sample_turns_def REKEY_THRESHOLD_def)
  ultimately obtain wire g' where w: "wbuf (rl_gw_out st') = wbuf (rl_gw_out ?st) @ wire"
      "\<forall>i rest. rbuf i = wire @ rest \<longrightarrow>
         read_frames toy_aead sample_codec i (length (client_chunks sample_turns)) = (g', i\<lparr>rbuf := rest\<rparr>, Inr (client_chunks sample_turns))"
    using relay_delivers_client_data [OF toy_aead_correct _ _ _ run, of sample_codec]
    by (auto simp: sample_relay_def sample_turns_def MAX_PAYLOAD_def)
  from w(2) [rule_format, of "cursor wire" "[]"] w(1) run cl show ?thesis
    by (simp add: sample_turns_def cursor_def sample_relay_def vec_writer_def)
qed

text \<open>
  C40. A turn that interrupts a half-read frame breaks the session: when the local client's data
  arrives while \<open>read_frame\<close> has taken one or two bytes of a genuine frame, those bytes are lost,
  and the next read closes the relay with a framing error, where without the interruption the
  frame would have been delivered.
\<close>

theorem interrupted_read_breaks_session:
  assumes A: "aead_correct A" and "linked s (rl_codec st)" and p: "length p \<le> MAX_PAYLOAD"
    and n: "send_counter s < REKEY_THRESHOLD" and "rbuf (rl_gw_in st) = sealed A s p @ rest"
    and lost: "lost = 1 \<or> lost = 2"
    and turn: "relay_step A st (ClientRead lost polls res) = Running st'"
  shows "(\<exists>st'' m. relay_step A st' (GatewayRead polls') = Closed st'' (Inl (Protocol m)))
    \<and> snd (snd (read_frame A (rl_codec st) (rl_gw_in st))) = Inr p"
proof
  obtain ct where ct: "aead_encrypt A (cipher (cstate s)) (frame_nonce (send_prefix s) (send_counter s)) p = Some ct"
    using A p by (rule aead_correctE)
  have "rl_gw_in st' = (rl_gw_in st)\<lparr>rbuf := drop lost (rbuf (rl_gw_in st))\<rparr>"
    by (rule relay_client_read_in [OF turn])
  then have buf: "rbuf (rl_gw_in st') = drop lost (frame_bytes (kid (cstate s)) (send_counter s) ct @ rest)"
    using assms(5) ct by (simp add: sealed_def)
  obtain h l where hl: "be16 (of_nat (KID_SIZE + COUNTER_SIZE + length ct)) = [h, l]" by (simp add: be16_def)
  obtain a b c d where abcd: "be32 (ucast (send_counter s)) = [a, b, c, d]" by (simp add: be32_def)
  have wire: "frame_bytes (kid (cstate s)) (send_counter s) ct @ rest =
      [0x17, 0x03, 0x03, h, l, kid (cstate s), a, b, c, d] @ (ct @ rest)"
    using hl abcd by (simp add: frame_bytes_def TLS_CONTENT_TYPE_def TLS_VERSION_MAJOR_def TLS_VERSION_MINOR_def)
  have "5 \<le> length (rbuf (rl_gw_in st')) \<and> rbuf (rl_gw_in st') ! 0 = 0x03"
    unfolding buf wire using lost by auto
  then have "\<exists>m c r. read_frame A (rl_codec st') (rl_gw_in st') = (c, r, Inl (Protocol m))"
    by (simp add: read_frame_def read_exact_def TLS_RECORD_HEADER_SIZE_def check_header_def TLS_CONTENT_TYPE_def)
  then show "\<exists>st'' m. relay_step A st' (GatewayRead polls') = Closed st'' (Inl (Protocol m))" by auto
  show "snd (snd (read_frame A (rl_codec st) (rl_gw_in st))) = Inr p"
    using read_sealed [OF A p n linked_can_open [OF assms(2)] assms(5)] by simp
qed

theorem interrupted_read_breaks_session_witness:
  "\<exists>st' st'' m. relay_step toy_aead (sample_relay (sealed toy_aead sample_codec [8])) (ClientRead 1 [] (Inr [5])) = Running st'
    \<and> relay_step toy_aead st' (GatewayRead []) = Closed st'' (Inl (Protocol m))"
proof -
  let ?st = "sample_relay (sealed toy_aead sample_codec [8])"
  obtain st' where st': "relay_step toy_aead ?st (ClientRead 1 [] (Inr [5])) = Running st'"
  proof -
    have "(case relay_step toy_aead ?st (ClientRead 1 [] (Inr [5])) of Running st' \<Rightarrow> True | _ \<Rightarrow> False)" by code_simp
    then show thesis using that by (auto split: relay_turn.splits)
  qed
  moreover have "linked sample_codec (rl_codec ?st)"
    by (simp add: sample_relay_def sample_codec_def sample_peer_def linked_new)
  moreover have "send_counter sample_codec < REKEY_THRESHOLD"
    by (simp add: sample_codec_def codec_new_def REKEY_THRESHOLD_def)
  ultimately show ?thesis
    using interrupted_read_breaks_session [OF toy_aead_correct _ _ _ _ _ st', of sample_codec "[8]" "[]" "[]"]
    by (auto simp: MAX_PAYLOAD_def sample_relay_def cursor_def simp del: relay_step.simps)
qed

end
