(* ===== verification/Tcp_Handler.thy ===== *)
theory Tcp_Handler
  imports Streams
begin

text \<open>
  \<open>transport-core/src/tcp_handler.rs\<close>: the parser that looks for a token in the first bytes of a
  connection, and the fallback proxy to the CDN. An index or slice out of range panics, as in the
  source. The two directions of the fallback are a sequence of events: a chunk arriving from one
  side, or the end (end of file or error) of one side, which ends the \<open>select!\<close>.
\<close>

section \<open>The ClientHello parser\<close>

definition TLS_HANDSHAKE_HEADER_SIZE :: nat where "TLS_HANDSHAKE_HEADER_SIZE = 4"
definition CLIENT_HELLO_MIN_SIZE :: nat where "CLIENT_HELLO_MIN_SIZE = 38"
definition HELLO_RECORD_HEADER_SIZE :: nat where "HELLO_RECORD_HEADER_SIZE = 5"

lemmas hello_consts = TLS_HANDSHAKE_HEADER_SIZE_def CLIENT_HELLO_MIN_SIZE_def HELLO_RECORD_HEADER_SIZE_def

definition extract_auth_from_clienthello :: "bytes \<Rightarrow> (bytes \<times> bytes) option outcome" where
  "extract_auth_from_clienthello data =
     (if length data < HELLO_RECORD_HEADER_SIZE then Ret None
      else if data ! 0 \<noteq> 0x16 then Ret None
      else
        let record_length = unat (from_be16 (data ! 3) (data ! 4)) in
        if length data < HELLO_RECORD_HEADER_SIZE + record_length then Ret None
        else
          let handshake_data = drop HELLO_RECORD_HEADER_SIZE data in
          if length handshake_data < 1 then Panic
          else if handshake_data ! 0 \<noteq> 0x01 then Ret None
          else if length handshake_data < 4 then Panic
          else
            let handshake_length =
                  unat (from_be32 0 (handshake_data ! 1) (handshake_data ! 2) (handshake_data ! 3)) in
            if length handshake_data < TLS_HANDSHAKE_HEADER_SIZE + handshake_length then Ret None
            else
              let client_hello_data = drop TLS_HANDSHAKE_HEADER_SIZE handshake_data in
              if length client_hello_data < CLIENT_HELLO_MIN_SIZE then Ret None
              else
                let session_id_length = unat (client_hello_data ! 34) in
                if session_id_length \<ge> 32 then
                  if length client_hello_data < 35 + session_id_length then Panic
                  else
                    let session_id = take session_id_length (drop 35 client_hello_data) in
                    Ret (Some (take 32 session_id, data))
                else Ret None)"

section \<open>The fallback proxy\<close>

datatype fallback_event = ClientChunk bytes | CdnChunk bytes | ClientEnd | CdnEnd

fun fallback_copy :: "writer \<Rightarrow> writer \<Rightarrow> fallback_event list \<Rightarrow> writer \<times> writer" where
  "fallback_copy cdn client [] = (cdn, client)"
| "fallback_copy cdn client (ClientChunk bs # es) =
     (case write_all bs cdn of
        (cdn, Inl _) \<Rightarrow> (cdn, client)
      | (cdn, Inr _) \<Rightarrow> fallback_copy cdn client es)"
| "fallback_copy cdn client (CdnChunk bs # es) =
     (case write_all bs client of
        (client, Inl _) \<Rightarrow> (cdn, client)
      | (client, Inr _) \<Rightarrow> fallback_copy cdn client es)"
| "fallback_copy cdn client (ClientEnd # es) = (cdn, client)"
| "fallback_copy cdn client (CdnEnd # es) = (cdn, client)"

text \<open>The first argument is the outcome of \<open>TcpStream::connect\<close>: the connection to the CDN or an error.\<close>

definition fallback_tcp_proxy ::
  "io_error + writer \<Rightarrow> writer \<Rightarrow> bytes \<Rightarrow> fallback_event list \<Rightarrow> writer option \<times> writer \<times> (io_error + unit)" where
  "fallback_tcp_proxy connected client initial_data es =
     (case connected of
        Inl e \<Rightarrow> (None, client, Inl e)
      | Inr cdn \<Rightarrow>
          (case write_all initial_data cdn of
             (cdn, Inl e) \<Rightarrow> (Some cdn, client, Inl e)
           | (cdn, Inr _) \<Rightarrow>
               (case flush cdn of
                  (cdn, Inl e) \<Rightarrow> (Some cdn, client, Inl e)
                | (cdn, Inr _) \<Rightarrow>
                    (case fallback_copy cdn client es of (cdn, client) \<Rightarrow> (Some cdn, client, Inr ())))))"

section \<open>Lemmas\<close>

text \<open>A ClientHello inside one record, as a TLS client lays it out.\<close>

definition be24 :: "u32 \<Rightarrow> bytes" where
  "be24 w = drop 1 (be32 w)"

definition client_hello_body :: "bytes \<Rightarrow> bytes \<Rightarrow> bytes \<Rightarrow> bytes \<Rightarrow> bytes" where
  "client_hello_body version random session_id rest =
     version @ random @ [of_nat (length session_id)] @ session_id @ rest"

definition client_hello_record :: "bytes \<Rightarrow> bytes" where
  "client_hello_record body =
     [0x16, 0x03, 0x01] @ be16 (of_nat (4 + length body)) @ [0x01] @ be24 (of_nat (length body)) @ body"

lemma from_be32_be24:
  assumes "n < 2 ^ 24" and "be24 (of_nat n) = [x, y, z]"
  shows "unat (from_be32 0 x y z) = n"
proof -
  have u: "unat (of_nat n :: u32) = n"
    using assms(1) by (simp only: unat_of_nat) simp
  have "unat (drop_bit 24 (of_nat n :: u32)) = 0"
    using assms(1) by (simp only: unat_drop_bit_eq u) (simp add: drop_bit_eq_div)
  then have "drop_bit 24 (of_nat n :: u32) = 0" by (simp only: unat_eq_0)
  then have "be32 (of_nat n) = [0, x, y, z]"
    using assms(2) by (simp add: be24_def be32_def)
  then have "from_be32 0 x y z = of_nat n"
    using from_be32_be32 [of "of_nat n"] by simp
  with u show ?thesis by simp
qed

lemma fallback_copy_healthy:
  assumes "healthy cdn" and "healthy client"
  shows "fallback_copy cdn client es =
    (let live = takeWhile (\<lambda>e. e \<noteq> ClientEnd \<and> e \<noteq> CdnEnd) es in
     (cdn\<lparr>wbuf := wbuf cdn @ concat (map (\<lambda>e. case e of ClientChunk bs \<Rightarrow> bs | _ \<Rightarrow> []) live)\<rparr>,
      client\<lparr>wbuf := wbuf client @ concat (map (\<lambda>e. case e of CdnChunk bs \<Rightarrow> bs | _ \<Rightarrow> []) live)\<rparr>))"
  using assms
proof (induction es arbitrary: cdn client)
  case (Cons e es)
  then show ?case by (cases e) (simp_all add: stream_simps Let_def)
qed simp

section \<open>Properties\<close>

text \<open>
  The parser finds the token of a well-formed ClientHello: for every session identifier of 32
  to 255 bytes, version, random and remainder, it returns the first 32 bytes of the session
  identifier and the untouched input. Shorter identifiers give no token.
\<close>

theorem clienthello_token_roundtrip:
  assumes "length version = 2" and "length random = 32" and "length sid < 256" and "3 \<le> length rest"
    and "length version + length random + length sid + length rest < 2 ^ 16 - 5"
  shows "extract_auth_from_clienthello (client_hello_record (client_hello_body version random sid rest) @ extra) =
    Ret (if 32 \<le> length sid
         then Some (take 32 sid, client_hello_record (client_hello_body version random sid rest) @ extra) else None)"
proof -
  let ?body = "client_hello_body version random sid rest"
  have len: "length ?body = 35 + length sid + length rest"
    using assms by (simp add: client_hello_body_def)
  obtain h l where hl: "be16 (of_nat (4 + length ?body)) = [h, l]" by (simp add: be16_def)
  obtain x y z where xyz: "be24 (of_nat (length ?body)) = [x, y, z]" by (simp add: be24_def be32_def)
  have rl: "unat (from_be16 h l) = 4 + length ?body"
  proof -
    have "from_be16 h l = of_nat (4 + length ?body)"
      using from_be16_be16 [of "of_nat (4 + length ?body)"] hl by simp
    then show ?thesis using assms len by (simp only: unat_of_nat) simp
  qed
  have hlen: "unat (from_be32 0 x y z) = length ?body"
    using assms len xyz by (intro from_be32_be24) auto
  have sl: "unat (?body ! 34) = length sid"
  proof -
    have "?body ! 34 = of_nat (length sid)"
      using assms(1,2) by (simp add: client_hello_body_def nth_append)
    then show ?thesis using assms(3) by (simp only: unat_of_nat) simp
  qed
  have sid: "32 \<le> length sid \<Longrightarrow> take 32 (drop 35 ?body) = take 32 sid"
    using assms(1,2) by (simp add: client_hello_body_def)
  have rec': "client_hello_record ?body @ extra = [0x16, 0x03, 0x01, h, l, 0x01, x, y, z] @ (?body @ extra)"
    using hl xyz by (simp add: client_hello_record_def)
  have "(?body @ extra) ! 34 = ?body ! 34" using len by (simp add: nth_append)
  then show ?thesis
    unfolding rec' using rl hlen sl sid len assms(4)
    by (simp add: extract_auth_from_clienthello_def Let_def hello_consts min_def)
qed

theorem clienthello_token_roundtrip_witness:
  "extract_auth_from_clienthello (client_hello_record
     (client_hello_body [3, 3] (replicate 32 7) (replicate 32 9) [0, 0, 0]) @ []) =
   Ret (Some (replicate 32 9, client_hello_record
     (client_hello_body [3, 3] (replicate 32 7) (replicate 32 9) [0, 0, 0]) @ []))"
  by (subst clienthello_token_roundtrip) simp_all

text \<open>
  C39. What the parser extracts is a 32-byte piece of the input, and the cases in which it panics
  instead of answering are exactly these: a handshake record with an empty payload; a payload of
  one to three bytes that begins with the ClientHello type; a ClientHello whose session
  identifier is announced longer than the data. All are chosen by an unauthenticated peer.
\<close>

theorem clienthello_parser_outcomes:
  "(extract_auth_from_clienthello data = Ret (Some (tok, orig)) \<longrightarrow>
      orig = data \<and> length tok = 32 \<and> tok = take 32 (drop 44 data))
   \<and> (extract_auth_from_clienthello data = Panic \<longleftrightarrow>
      5 \<le> length data \<and> data ! 0 = 0x16
      \<and> 5 + unat (from_be16 (data ! 3) (data ! 4)) \<le> length data
      \<and> (length data = 5
         \<or> (length data < 9 \<and> data ! 5 = 0x01)
         \<or> (47 \<le> length data \<and> data ! 5 = 0x01
            \<and> 9 + unat (from_be32 0 (data ! 6) (data ! 7) (data ! 8)) \<le> length data
            \<and> 32 \<le> unat (data ! 43) \<and> length data < 44 + unat (data ! 43))))"
proof -
  have nth: "5 \<le> length data \<Longrightarrow> drop 5 data ! i = data ! (5 + i)" for i by simp
  have nth': "9 \<le> length data \<Longrightarrow> drop 9 data ! i = data ! (9 + i)" for i by simp
  show ?thesis
    by (auto simp: extract_auth_from_clienthello_def Let_def hello_consts nth nth' min_def not_less
        split: if_splits)
qed

theorem clienthello_parser_outcomes_witness:
  "extract_auth_from_clienthello [0x16, 3, 1, 0, 0] = Panic"
  using clienthello_parser_outcomes [of "[0x16, 3, 1, 0, 0]"] by (simp add: from_be16_def)

text \<open>
  The fallback is transparent: with a CDN that can be reached and writes that succeed, the
  CDN receives the initial bytes followed by exactly the client's chunks, the client receives
  exactly the CDN's chunks, in order, up to the first end of either side, and the call succeeds.
\<close>

theorem fallback_is_transparent:
  assumes "healthy cdn" and "healthy client"
  shows "fallback_tcp_proxy (Inr cdn) client initial es =
    (let live = takeWhile (\<lambda>e. e \<noteq> ClientEnd \<and> e \<noteq> CdnEnd) es in
     (Some (cdn\<lparr>wbuf := wbuf cdn @ initial @ concat (map (\<lambda>e. case e of ClientChunk bs \<Rightarrow> bs | _ \<Rightarrow> []) live)\<rparr>),
      client\<lparr>wbuf := wbuf client @ concat (map (\<lambda>e. case e of CdnChunk bs \<Rightarrow> bs | _ \<Rightarrow> []) live)\<rparr>,
      Inr ()))"
  using assms by (simp add: fallback_tcp_proxy_def stream_simps fallback_copy_healthy Let_def)

theorem fallback_is_transparent_witness:
  "fallback_tcp_proxy (Inr vec_writer) vec_writer [1, 2] [ClientChunk [3], CdnChunk [4], CdnEnd, ClientChunk [5]] =
     (Some (vec_writer\<lparr>wbuf := [1, 2, 3]\<rparr>), vec_writer\<lparr>wbuf := [4]\<rparr>, Inr ())"
  by (subst fallback_is_transparent) (simp_all, simp add: vec_writer_def)

end
