(* ===== verification/Gateway_Auth.thy ===== *)
theory Gateway_Auth
  imports Prelude
begin

text \<open>
  \<open>gateway/src/auth.rs\<close>: subscription claims, JWT tokens and the rotating HMAC keys. The JWT
  library, HMAC-SHA256 and the calendar arithmetic are parameters. Timestamps are seconds. An
  index out of range panics, as in the source.
\<close>

datatype auth_error = AuthFailure | TokenExpired | InvalidSignature | MissingClaims

definition client_message :: "auth_error \<Rightarrow> string" where
  "client_message e = ''ERR''"

record claims =
  sub :: string
  user_id :: string
  tier :: string
  rate_limit_bps :: u64
  exp_at :: int
  iat :: int

text \<open>The kinds of decoding errors that the source tells apart.\<close>

datatype jwt_error = JwtExpired | JwtBadSignature | JwtOther

record jwt_lib =
  jwt_encode :: "string \<Rightarrow> claims \<Rightarrow> string option"
  jwt_decode :: "string \<Rightarrow> string \<Rightarrow> int \<Rightarrow> jwt_error + claims"
  plus_days :: "int \<Rightarrow> int \<Rightarrow> int option"

record auth_manager =
  jwt_secret :: string
  hmac_keys :: "bytes list"
  hmac_active_kid :: u8

definition auth_new :: "string \<Rightarrow> bytes \<Rightarrow> auth_manager" where
  "auth_new secret hmac_key = \<lparr>jwt_secret = secret, hmac_keys = [hmac_key], hmac_active_kid = 0\<rparr>"

text \<open>Adding a span the calendar cannot represent panics.\<close>

definition generate_token ::
  "jwt_lib \<Rightarrow> int \<Rightarrow> auth_manager \<Rightarrow> string \<Rightarrow> string \<Rightarrow> string \<Rightarrow> u64 \<Rightarrow> int \<Rightarrow> (auth_error + string) outcome" where
  "generate_token J now m user subscription t rate expires_in_days =
     (case plus_days J now expires_in_days of
        None \<Rightarrow> Panic
      | Some e \<Rightarrow>
          let c = \<lparr>sub = subscription, user_id = user, tier = t, rate_limit_bps = rate, exp_at = e, iat = now\<rparr> in
          Ret (case jwt_encode J (jwt_secret m) c of None \<Rightarrow> Inl AuthFailure | Some s \<Rightarrow> Inr s))"

definition validate_token :: "jwt_lib \<Rightarrow> int \<Rightarrow> auth_manager \<Rightarrow> string \<Rightarrow> auth_error + claims" where
  "validate_token J now m token =
     (case jwt_decode J (jwt_secret m) token now of
        Inl JwtExpired \<Rightarrow> Inl TokenExpired
      | Inl JwtBadSignature \<Rightarrow> Inl InvalidSignature
      | Inl JwtOther \<Rightarrow> Inl AuthFailure
      | Inr c \<Rightarrow> Inr c)"

definition generate_hmac_signature :: "(bytes \<Rightarrow> bytes \<Rightarrow> bytes) \<Rightarrow> auth_manager \<Rightarrow> bytes \<Rightarrow> bytes outcome" where
  "generate_hmac_signature hmac m data =
     (if unat (hmac_active_kid m) < length (hmac_keys m)
      then Ret (hmac (hmac_keys m ! unat (hmac_active_kid m)) data) else Panic)"

definition verify_hmac_signature ::
  "(bytes \<Rightarrow> bytes \<Rightarrow> bytes) \<Rightarrow> auth_manager \<Rightarrow> bytes \<Rightarrow> bytes \<Rightarrow> bool outcome" where
  "verify_hmac_signature hmac m data signature =
     (case generate_hmac_signature hmac m data of
        Panic \<Rightarrow> Panic
      | Ret expected \<Rightarrow>
          if length expected \<noteq> length signature then Ret False else Ret (expected = signature))"

definition rotate_hmac_key :: "auth_manager \<Rightarrow> bytes \<Rightarrow> auth_manager" where
  "rotate_hmac_key m new_key =
     m\<lparr>hmac_active_kid := of_nat (length (hmac_keys m)), hmac_keys := hmac_keys m @ [new_key]\<rparr>"

definition remove_hmac_key :: "auth_manager \<Rightarrow> u8 \<Rightarrow> auth_manager" where
  "remove_hmac_key m k =
     (if unat k < length (hmac_keys m) \<and> k \<noteq> hmac_active_kid m
      then m\<lparr>hmac_keys := take (unat k) (hmac_keys m) @ drop (Suc (unat k)) (hmac_keys m)\<rparr> else m)"

section \<open>Rotations\<close>

text \<open>A manager as rotations leave it: the active key is the last one.\<close>

definition newest_active :: "auth_manager \<Rightarrow> bool" where
  "newest_active m \<longleftrightarrow> hmac_keys m \<noteq> [] \<and> unat (hmac_active_kid m) = length (hmac_keys m) - 1"

lemma newest_active_new: "newest_active (auth_new s k)"
  by (simp add: newest_active_def auth_new_def)

lemma newest_active_rotate:
  "length (hmac_keys m) < 256 \<Longrightarrow> newest_active (rotate_hmac_key m k)"
  by (simp add: newest_active_def rotate_hmac_key_def) (simp only: unat_of_nat, simp)

lemma newest_active_last:
  "newest_active m \<Longrightarrow> generate_hmac_signature hmac m data = Ret (hmac (last (hmac_keys m)) data)"
  by (simp add: newest_active_def generate_hmac_signature_def last_conv_nth)

lemma rotations_keys:
  "hmac_keys (foldl rotate_hmac_key m ks) = hmac_keys m @ ks"
  by (induction ks arbitrary: m) (auto simp: rotate_hmac_key_def)

lemma rotations_newest:
  "newest_active m \<Longrightarrow> length (hmac_keys m) + length ks \<le> 256 \<Longrightarrow> newest_active (foldl rotate_hmac_key m ks)"
proof (induction ks rule: rev_induct)
  case (snoc k ks)
  then show ?case by (simp add: newest_active_rotate rotations_keys)
qed simp

section \<open>Properties\<close>

text \<open>
  Signing after rotations: with up to 255 rotations the newest key signs, what the manager
  signs it also verifies, and it verifies nothing else. A signature made under an older key is
  refused (unless both keys give the same value), although older keys are kept for a dual
  validation.
\<close>

theorem hmac_newest_key_signs:
  assumes "length ks \<le> 255"
  shows "verify_hmac_signature hmac (foldl rotate_hmac_key (auth_new s k) ks) data sig =
    Ret (sig = hmac (last (k # ks)) data)"
proof -
  let ?m = "foldl rotate_hmac_key (auth_new s k) ks"
  have "newest_active ?m"
    using assms by (intro rotations_newest newest_active_new) (simp add: auth_new_def)
  then have "generate_hmac_signature hmac ?m data = Ret (hmac (last (k # ks)) data)"
    by (simp add: newest_active_last rotations_keys auth_new_def)
  then show ?thesis by (auto simp: verify_hmac_signature_def)
qed

theorem hmac_newest_key_signs_witness:
  "verify_hmac_signature (\<lambda>k d. k @ d) (foldl rotate_hmac_key (auth_new ''s'' [1]) [[2], [3]]) [9] [1, 9] = Ret False"
  by (subst hmac_newest_key_signs) simp_all

text \<open>
  Removing an old key breaks the manager: after one to 255 rotations, removing any key other
  than the active one leaves the active identifier past the end of the key list, and every later
  signature or verification panics.
\<close>

theorem remove_hmac_key_breaks_signing:
  assumes "ks \<noteq> []" and "length ks \<le> 255" and "unat i < length ks"
  shows "generate_hmac_signature hmac (remove_hmac_key (foldl rotate_hmac_key (auth_new s k) ks) i) data = Panic
    \<and> verify_hmac_signature hmac (remove_hmac_key (foldl rotate_hmac_key (auth_new s k) ks) i) data sig = Panic"
proof -
  let ?m = "foldl rotate_hmac_key (auth_new s k) ks"
  have keys: "length (hmac_keys ?m) = Suc (length ks)" by (simp add: rotations_keys auth_new_def)
  have "newest_active ?m"
    using assms(2) by (intro rotations_newest newest_active_new) (simp add: auth_new_def)
  then have act: "unat (hmac_active_kid ?m) = length ks" using keys by (simp add: newest_active_def)
  then have "i \<noteq> hmac_active_kid ?m" using assms(3) by auto
  then have "length (hmac_keys (remove_hmac_key ?m i)) = length ks"
      "hmac_active_kid (remove_hmac_key ?m i) = hmac_active_kid ?m"
    using assms(3) keys by (simp_all add: remove_hmac_key_def)
  with act show ?thesis by (simp add: generate_hmac_signature_def verify_hmac_signature_def)
qed

theorem remove_hmac_key_breaks_signing_witness:
  "generate_hmac_signature (\<lambda>k d. k @ d) (remove_hmac_key (foldl rotate_hmac_key (auth_new ''s'' [1]) [[2]]) 0) [9] = Panic
    \<and> verify_hmac_signature (\<lambda>k d. k @ d) (remove_hmac_key (foldl rotate_hmac_key (auth_new ''s'' [1]) [[2]]) 0) [9] [] = Panic"
  by (rule remove_hmac_key_breaks_signing) simp_all

end
