(* ===== verification/Gateway_Limits.thy ===== *)
theory Gateway_Limits
  imports Rate_Limiter "HOL-Library.AList"
begin

text \<open>
  The limiters of the gateway (\<open>gateway/src/main.rs\<close>): the per-connection token bucket and the
  per-address limiter of new connections. The address table is an association list whose order
  stands for the iteration order of the hash map; a lock guards it, so calls run one at a time.
\<close>

section \<open>The bandwidth limiter of a connection\<close>

record server_rate_limiter =
  srv_capacity :: u64
  srv_tokens :: u64
  srv_refill_rate :: u64
  srv_last_refill :: nat

definition server_limiter_new :: "u64 \<Rightarrow> nat \<Rightarrow> server_rate_limiter" where
  "server_limiter_new bytes_per_second now =
     \<lparr>srv_capacity = bytes_per_second, srv_tokens = bytes_per_second,
      srv_refill_rate = bytes_per_second, srv_last_refill = now\<rparr>"

definition server_refill :: "nat \<Rightarrow> server_rate_limiter \<Rightarrow> server_rate_limiter" where
  "server_refill now l =
     (let elapsed = now - srv_last_refill l in
      if elapsed \<ge> second then
        let tokens_to_add = srv_refill_rate l * of_nat (elapsed div second);
            new_tokens = min (srv_tokens l + tokens_to_add) (srv_capacity l)
        in l\<lparr>srv_tokens := new_tokens, srv_last_refill := now\<rparr>
      else l)"

definition server_try_consume :: "nat \<Rightarrow> u64 \<Rightarrow> server_rate_limiter \<Rightarrow> server_rate_limiter \<times> bool" where
  "server_try_consume now amount l =
     (let l = server_refill now l in
      if srv_tokens l < amount then (l, False)
      else (l\<lparr>srv_tokens := srv_tokens l - amount\<rparr>, True))"

text \<open>The server's limiter simulates the client's bucket, and inherits its contract.\<close>

definition as_bucket :: "server_rate_limiter \<Rightarrow> token_bucket" where
  "as_bucket l = \<lparr>capacity = srv_capacity l, tokens = srv_tokens l,
     refill_rate = srv_refill_rate l, last_refill = srv_last_refill l\<rparr>"

lemma as_bucket_fields [simp]:
  "capacity (as_bucket l) = srv_capacity l" "tokens (as_bucket l) = srv_tokens l"
  "refill_rate (as_bucket l) = srv_refill_rate l" "last_refill (as_bucket l) = srv_last_refill l"
  by (simp_all add: as_bucket_def)

lemma as_bucket_inject: "as_bucket l = as_bucket l' \<Longrightarrow> l = l'"
  by (simp add: as_bucket_def)

lemma server_try_consume_refines:
  "try_consume now a (as_bucket l) = (as_bucket (fst (server_try_consume now a l)), snd (server_try_consume now a l))"
  by (simp add: try_consume_def server_try_consume_def refill_def server_refill_def as_bucket_def Let_def)

interpretation server_bucket: token_limiter server_try_consume srv_tokens srv_capacity srv_refill_rate srv_last_refill
proof
  fix now a s
  note ref = server_try_consume_refines [of now a s]
  have eq: "snd (server_try_consume now a s) = snd (try_consume now a (as_bucket s))"
    "as_bucket (fst (server_try_consume now a s)) = fst (try_consume now a (as_bucket s))"
    by (simp_all add: ref)
  have fields: "srv_tokens (fst (server_try_consume now a s)) = tokens (fst (try_consume now a (as_bucket s)))"
    "srv_capacity (fst (server_try_consume now a s)) = capacity (fst (try_consume now a (as_bucket s)))"
    "srv_refill_rate (fst (server_try_consume now a s)) = refill_rate (fst (try_consume now a (as_bucket s)))"
    "srv_last_refill (fst (server_try_consume now a s)) = last_refill (fst (try_consume now a (as_bucket s)))"
    by (simp_all add: ref)
  show "srv_capacity (fst (server_try_consume now a s)) = srv_capacity s"
    "srv_refill_rate (fst (server_try_consume now a s)) = srv_refill_rate s"
    by (simp_all add: fields client_bucket.fixed)
  show "srv_tokens s \<le> srv_capacity s \<Longrightarrow> srv_tokens (fst (server_try_consume now a s)) \<le> srv_capacity s"
    using client_bucket.bounded [of "as_bucket s" now a] by (simp add: fields)
  show "srv_last_refill s \<le> now \<Longrightarrow> srv_last_refill s \<le> srv_last_refill (fst (server_try_consume now a s))
      \<and> srv_last_refill (fst (server_try_consume now a s)) \<le> now"
    using client_bucket.stamp_between [of "as_bucket s" now a] by (simp add: fields)
  show "srv_last_refill s \<le> now \<Longrightarrow>
      second * ((if snd (server_try_consume now a s) then unat a else 0) + unat (srv_tokens (fst (server_try_consume now a s))))
      + unat (srv_refill_rate s) * srv_last_refill s
    \<le> second * unat (srv_tokens s) + unat (srv_refill_rate s) * srv_last_refill (fst (server_try_consume now a s))"
    using client_bucket.budget [of "as_bucket s" now a] by (simp add: fields eq(1))
  show "srv_tokens s \<le> srv_capacity s \<Longrightarrow> snd (server_try_consume now a s) \<Longrightarrow> a \<le> srv_capacity s"
    using client_bucket.grant_le [of "as_bucket s" now a] by (simp add: eq(1))
  show "srv_last_refill s \<le> now \<Longrightarrow> now < srv_last_refill s + second \<Longrightarrow> \<not> snd (server_try_consume now a s) \<Longrightarrow>
      fst (server_try_consume now a s) = s"
    using client_bucket.deny_keeps [of "as_bucket s" now a] eq by (intro as_bucket_inject) simp
  show "srv_last_refill s + second \<le> now \<Longrightarrow> a \<le> srv_capacity s \<Longrightarrow> a \<le> srv_refill_rate s \<Longrightarrow>
      unat (srv_tokens s) + unat (srv_refill_rate s) * ((now - srv_last_refill s) div second) < 2 ^ 64 \<Longrightarrow>
      snd (server_try_consume now a s)"
    using client_bucket.refilled [of "as_bucket s" now a] by (simp add: eq(1))
qed

text \<open>
  The bandwidth the gateway grants one connection is bounded by the subscription's rate: over
  any sequence of requests up to an instant \<open>t1\<close>, at most one second's worth plus the rate times
  the time since the connection's limiter was created. A chunk above one second's worth is never
  granted, so its relay waits for ever.
\<close>

theorem server_limiter_contract:
  "(sorted (map fst xs) \<and> (\<forall>(now, a) \<in> set xs. t0 \<le> now \<and> now \<le> t1) \<and> t0 \<le> t1 \<longrightarrow>
      second * granted server_try_consume (server_limiter_new bps t0) xs + unat bps * t0 \<le> second * unat bps + unat bps * t1)
   \<and> (bps < a \<longrightarrow> wait_until server_try_consume a polls (server_limiter_new bps t0) = None)"
  using server_bucket.granted_bound [of xs "server_limiter_new bps t0" t1]
    server_bucket.wait_never [of "server_limiter_new bps t0" a polls]
  by (simp add: server_limiter_new_def)

theorem server_limiter_contract_witness:
  "second * granted server_try_consume (server_limiter_new 100 0) [(0, 90), (second, 90)] + unat (100 :: u64) * 0
     \<le> second * unat (100 :: u64) + unat (100 :: u64) * second
   \<and> wait_until server_try_consume 101 [0, 5 * second] (server_limiter_new 100 0) = None"
  using server_limiter_contract [of "[(0, 90), (second, 90)]" 0 second 100 101 "[0, 5 * second]"] by simp

section \<open>New connections per address\<close>

datatype ip_addr = V4 u32 | V6 "128 word"

fun is_loopback :: "ip_addr \<Rightarrow> bool" where
  "is_loopback (V4 a) \<longleftrightarrow> drop_bit 24 a = 127"
| "is_loopback (V6 a) \<longleftrightarrow> a = 1"

definition IP_RATE_LIMIT_WINDOW :: nat where "IP_RATE_LIMIT_WINDOW = 60 * second"
definition IP_RATE_LIMIT_MAX_CONNS :: nat where "IP_RATE_LIMIT_MAX_CONNS = 20"
definition IP_RATE_LIMIT_MAX_ENTRIES :: nat where "IP_RATE_LIMIT_MAX_ENTRIES = 10000"

type_synonym ip_table = "(ip_addr \<times> nat list) list"

definition recent :: "nat \<Rightarrow> nat list \<Rightarrow> nat list" where
  "recent now ts = filter (\<lambda>t. now - t < IP_RATE_LIMIT_WINDOW) ts"

definition oldest_entries :: "ip_table \<Rightarrow> (ip_addr \<times> nat) list" where
  "oldest_entries conns =
     sort_key snd (map (\<lambda>(ip, ts). (ip, hd ts)) (filter (\<lambda>(ip, ts). ts \<noteq> []) conns))"

definition evict :: "ip_table \<Rightarrow> ip_table" where
  "evict conns =
     (if length conns > IP_RATE_LIMIT_MAX_ENTRIES then
        let ip_oldest = oldest_entries conns; to_remove = length ip_oldest div 5
        in filter (\<lambda>(ip, ts). ip \<notin> fst ` set (take to_remove ip_oldest)) conns
      else conns)"

definition entry :: "ip_table \<Rightarrow> ip_addr \<Rightarrow> nat list" where
  "entry conns ip = (case map_of conns ip of None \<Rightarrow> [] | Some ts \<Rightarrow> ts)"

definition ip_check :: "nat \<Rightarrow> ip_addr \<Rightarrow> ip_table \<Rightarrow> ip_table \<times> bool" where
  "ip_check now ip conns =
     (let conns = evict conns; ts = recent now (entry conns ip) in
      if length ts \<ge> IP_RATE_LIMIT_MAX_CONNS then (AList.update ip ts conns, False)
      else (AList.update ip (ts @ [now]) conns, True))"

definition ip_cleanup :: "nat \<Rightarrow> ip_table \<Rightarrow> ip_table" where
  "ip_cleanup now conns =
     filter (\<lambda>(ip, ts). ts \<noteq> []) (map (\<lambda>(ip, ts). (ip, recent now ts)) conns)"

datatype ip_op = IpCheck nat ip_addr | IpCleanup nat

fun ip_exec :: "ip_table \<Rightarrow> ip_op \<Rightarrow> ip_table" where
  "ip_exec conns (IpCheck now ip) = fst (ip_check now ip conns)"
| "ip_exec conns (IpCleanup now) = ip_cleanup now conns"

subsection \<open>The table stays small\<close>

definition ip_wf :: "ip_table \<Rightarrow> bool" where
  "ip_wf conns \<longleftrightarrow> distinct (map fst conns) \<and> length conns \<le> Suc IP_RATE_LIMIT_MAX_ENTRIES
     \<and> (\<forall>(ip, ts) \<in> set conns. ts \<noteq> [] \<and> length ts \<le> IP_RATE_LIMIT_MAX_CONNS)"

lemma evict_filter: "\<exists>P. evict conns = filter P conns"
  by (auto simp: evict_def Let_def intro: exI [of _ "\<lambda>_. True"])

lemma evict_small: "length conns \<le> IP_RATE_LIMIT_MAX_ENTRIES \<Longrightarrow> evict conns = conns"
  by (simp add: evict_def)

lemma evict_length:
  assumes "ip_wf conns"
  shows "length (evict conns) \<le> IP_RATE_LIMIT_MAX_ENTRIES"
proof (cases "length conns > IP_RATE_LIMIT_MAX_ENTRIES")
  case True
  have live: "filter (\<lambda>(ip, ts). ts \<noteq> []) conns = conns"
    using assms by (auto simp: ip_wf_def intro: filter_True)
  then have len: "length (oldest_entries conns) = length conns" by (simp add: oldest_entries_def)
  define rem where "rem = take (length (oldest_entries conns) div 5) (oldest_entries conns)"
  have "rem \<noteq> []" using True len by (auto simp: rem_def IP_RATE_LIMIT_MAX_ENTRIES_def)
  then have h: "hd rem \<in> set rem" by simp
  then have "hd rem \<in> set (oldest_entries conns)" unfolding rem_def by (rule in_set_takeD)
  then obtain ip ts where "(ip, ts) \<in> set conns" "fst (hd rem) = ip"
    by (auto simp: oldest_entries_def)
  with h have "length (filter (\<lambda>(ip, ts). ip \<notin> fst ` set rem) conns) < length conns"
    by (intro length_filter_less [of "(ip, ts)"]) auto
  then show ?thesis using True assms by (simp add: evict_def Let_def rem_def [symmetric] ip_wf_def)
qed (simp add: evict_def)

lemma ip_wf_filter: "ip_wf conns \<Longrightarrow> ip_wf (filter P conns)"
  using order_trans [OF length_filter_le [of P conns]] by (simp add: ip_wf_def distinct_map_filter)

lemma ip_wf_update:
  assumes "ip_wf conns" and "length conns \<le> IP_RATE_LIMIT_MAX_ENTRIES" and "ts \<noteq> []"
    and "length ts \<le> IP_RATE_LIMIT_MAX_CONNS"
  shows "ip_wf (AList.update ip ts conns)"
proof -
  have "length (AList.update ip ts al) \<le> Suc (length al)" for al :: ip_table
    by (induction al) auto
  moreover have "(k, v) \<in> set (AList.update ip ts al) \<Longrightarrow> (k, v) \<in> set al \<or> v = ts" for k v and al :: ip_table
    by (induction al) (auto split: if_splits)
  ultimately show ?thesis using assms
    by (fastforce simp: ip_wf_def distinct_update intro: le_trans)
qed

lemma ip_check_wf [wf_intros]:
  assumes "ip_wf conns"
  shows "ip_wf (fst (ip_check now ip conns))"
proof -
  obtain P where ev: "evict conns = filter P conns" using evict_filter by blast
  have wf: "ip_wf (evict conns)" unfolding ev by (rule ip_wf_filter [OF assms])
  let ?ts = "recent now (entry (evict conns) ip)"
  have "length (entry (evict conns) ip) \<le> IP_RATE_LIMIT_MAX_CONNS"
    using wf by (auto simp: entry_def ip_wf_def split: option.split dest: map_of_SomeD)
  then have "length ?ts \<le> IP_RATE_LIMIT_MAX_CONNS"
    unfolding recent_def by (meson le_trans length_filter_le)
  moreover have "IP_RATE_LIMIT_MAX_CONNS \<le> length ?ts \<Longrightarrow> ?ts \<noteq> []" by (auto simp: IP_RATE_LIMIT_MAX_CONNS_def)
  ultimately show ?thesis
    using wf evict_length [OF assms] by (auto simp: ip_check_def Let_def intro!: ip_wf_update)
qed

lemma ip_cleanup_wf [wf_intros]:
  assumes "ip_wf conns"
  shows "ip_wf (ip_cleanup now conns)"
proof -
  have d: "distinct (map fst (ip_cleanup now conns))"
    unfolding ip_cleanup_def
    by (rule distinct_map_filter) (use assms in \<open>simp add: ip_wf_def o_def case_prod_beta\<close>)
  have l: "length (ip_cleanup now conns) \<le> Suc IP_RATE_LIMIT_MAX_ENTRIES"
    unfolding ip_cleanup_def
    by (rule order_trans [OF length_filter_le]) (use assms in \<open>simp add: ip_wf_def\<close>)
  have "ts \<noteq> [] \<and> length ts \<le> IP_RATE_LIMIT_MAX_CONNS" if "(ip, ts) \<in> set (ip_cleanup now conns)" for ip ts
  proof -
    from that obtain ts0 where ts: "(ip, ts0) \<in> set conns" "ts = recent now ts0" "ts \<noteq> []"
      by (auto simp: ip_cleanup_def)
    then have "length ts0 \<le> IP_RATE_LIMIT_MAX_CONNS" using assms by (auto simp: ip_wf_def)
    with ts show ?thesis unfolding recent_def by (meson length_filter_le order_trans)
  qed
  with d l show ?thesis by (auto simp: ip_wf_def)
qed

interpretation ip_run: op_system ip_exec ip_wf
proof
  fix conns x assume "ip_wf conns"
  then show "ip_wf (ip_exec conns x)" by (cases x) (auto intro: wf_intros)
qed

text \<open>
  The memory of the address limiter is bounded: after any sequence of checks and cleanups, at
  any instants and for any addresses, the table holds at most 10001 addresses, each once, and
  between one and twenty instants for each of them.
\<close>

theorem ip_table_bounded: "ip_wf (foldl ip_exec [] xs)"
  by (rule ip_run.run_inv) (simp add: ip_wf_def)

subsection \<open>The limit holds in every window\<close>

text \<open>The instants at which an address was let in.\<close>

fun ip_accepted :: "ip_table \<Rightarrow> ip_addr \<Rightarrow> ip_op list \<Rightarrow> nat list" where
  "ip_accepted conns ip [] = []"
| "ip_accepted conns ip (x # xs) =
     (case x of
        IpCheck now ip' \<Rightarrow> if ip' = ip \<and> snd (ip_check now ip conns) then [now] else []
      | IpCleanup now \<Rightarrow> []) @ ip_accepted (ip_exec conns x) ip xs"

definition in_window :: "nat \<Rightarrow> nat list \<Rightarrow> nat" where
  "in_window t ts = length (filter (\<lambda>x. x \<le> t \<and> t - x < IP_RATE_LIMIT_WINDOW) ts)"

fun op_time :: "ip_op \<Rightarrow> nat" where
  "op_time (IpCheck now ip) = now"
| "op_time (IpCleanup now) = now"

fun op_ips :: "ip_op \<Rightarrow> ip_addr set" where
  "op_ips (IpCheck now ip) = {ip}"
| "op_ips (IpCleanup now) = {}"

text \<open>The table's entry and the history \<open>A\<close> of an address agree on what is still recent.\<close>

definition ip_hist :: "nat \<Rightarrow> nat list \<Rightarrow> ip_addr \<Rightarrow> ip_table \<Rightarrow> bool" where
  "ip_hist now A ip conns \<longleftrightarrow> (\<forall>t \<ge> now. recent t (entry conns ip) = recent t A)
     \<and> (\<forall>x \<in> set A. x \<le> now) \<and> (\<forall>t. in_window t A \<le> IP_RATE_LIMIT_MAX_CONNS)"

lemma recent_recent: "now \<le> t \<Longrightarrow> recent t (recent now ts) = recent t ts"
  unfolding recent_def filter_filter by (rule filter_cong) auto

lemma entry_update: "entry (AList.update ip ts conns) ip' = (if ip' = ip then ts else entry conns ip')"
  by (simp add: entry_def update_conv')

lemma entry_cleanup:
  "distinct (map fst conns) \<Longrightarrow> entry (ip_cleanup now conns) ip = recent now (entry conns ip)"
proof (induction conns)
  case (Cons e conns)
  have "ip \<notin> fst ` set conns \<Longrightarrow> map_of (ip_cleanup now conns) ip = None"
    by (force simp: map_of_eq_None_iff ip_cleanup_def)
  moreover have "fst e \<noteq> ip \<Longrightarrow> entry (ip_cleanup now (e # conns)) ip = entry (ip_cleanup now conns) ip"
    by (cases e) (auto simp: entry_def ip_cleanup_def)
  ultimately show ?case using Cons
    by (cases e) (auto simp: entry_def ip_cleanup_def recent_def)
qed (simp add: entry_def ip_cleanup_def recent_def)

lemma in_window_append: "in_window t (A @ [now]) = in_window t A + (if now \<le> t \<and> t - now < IP_RATE_LIMIT_WINDOW then 1 else 0)"
  by (simp add: in_window_def)

lemma in_window_recent: "now \<le> t \<Longrightarrow> in_window t A \<le> length (recent now A)"
  unfolding in_window_def recent_def
  by (induction A) auto

lemma ip_hist_later: "ip_hist now A ip conns \<Longrightarrow> now \<le> now' \<Longrightarrow> ip_hist now' A ip conns"
  unfolding ip_hist_def by (meson order_trans)

lemma ip_hist_accept:
  assumes h: "ip_hist now A ip conns" and len: "length (recent now (entry conns ip)) < IP_RATE_LIMIT_MAX_CONNS"
  shows "ip_hist now (A @ [now]) ip (AList.update ip (recent now (entry conns ip) @ [now]) conns)"
proof -
  have rec': "recent t (entry conns ip) = recent t A" if "now \<le> t" for t
    using h that by (simp add: ip_hist_def)
  have "in_window t (A @ [now]) \<le> IP_RATE_LIMIT_MAX_CONNS" for t
  proof (cases "now \<le> t")
    case True
    then have "in_window t A \<le> length (recent now (entry conns ip))"
      using in_window_recent [OF True, of A] by (simp add: rec')
    with len show ?thesis by (simp add: in_window_append)
  qed (use h in \<open>simp add: in_window_append ip_hist_def\<close>)
  moreover have "recent t (recent now (entry conns ip) @ [now]) = recent t (A @ [now])" if "now \<le> t" for t
    using rec' [OF that] recent_recent [OF that, of "entry conns ip"] by (simp add: recent_def)
  ultimately show ?thesis using h by (simp add: ip_hist_def entry_update)
qed

lemma ip_hist_deny:
  "ip_hist now A ip conns \<Longrightarrow> ip_hist now A ip (AList.update ip (recent now (entry conns ip)) conns)"
  by (simp add: ip_hist_def entry_update recent_recent)

lemma ip_hist_other:
  "ip_hist now A ip conns \<Longrightarrow> ip' \<noteq> ip \<Longrightarrow> ip_hist now A ip (AList.update ip' ts conns)"
  by (simp add: ip_hist_def entry_update)

lemma ip_hist_cleanup:
  "ip_hist now A ip conns \<Longrightarrow> distinct (map fst conns) \<Longrightarrow> ip_hist now A ip (ip_cleanup now conns)"
  by (simp add: ip_hist_def entry_cleanup recent_recent)

lemma ip_hist_exec:
  assumes "ip_hist now A ip conns" and "now \<le> op_time x" and "ip_wf conns"
    and small: "length conns \<le> IP_RATE_LIMIT_MAX_ENTRIES"
  shows "\<exists>a. ip_accepted conns ip (x # xs) = a @ ip_accepted (ip_exec conns x) ip xs
    \<and> ip_hist (op_time x) (A @ a) ip (ip_exec conns x)"
proof -
  have h: "ip_hist (op_time x) A ip conns" by (rule ip_hist_later [OF assms(1,2)])
  show ?thesis
  proof (cases x)
    case (IpCleanup t)
    with h assms(3) show ?thesis by (auto simp: ip_wf_def intro: ip_hist_cleanup)
  next
    case (IpCheck t ip')
    with h have h': "ip_hist t A ip conns" by simp
    note ev = evict_small [OF small]
    consider "ip' \<noteq> ip" | "ip' = ip" "IP_RATE_LIMIT_MAX_CONNS \<le> length (recent t (entry conns ip))"
      | "ip' = ip" "length (recent t (entry conns ip)) < IP_RATE_LIMIT_MAX_CONNS" by linarith
    then show ?thesis
    proof cases
      case 1
      then show ?thesis using h' IpCheck by (simp add: ip_check_def ev Let_def ip_hist_other)
    next
      case 2
      then show ?thesis using ip_hist_deny [OF h'] IpCheck by (simp add: ip_check_def ev Let_def)
    next
      case 3
      then show ?thesis using ip_hist_accept [OF h'] IpCheck by (simp add: ip_check_def ev Let_def)
    qed
  qed
qed

text \<open>With few addresses in play the table is never evicted from.\<close>

lemma ip_exec_keys:
  assumes "fst ` set conns \<subseteq> S" and "op_ips x \<subseteq> S"
  shows "fst ` set (ip_exec conns x) \<subseteq> S"
proof (cases x)
  case (IpCheck t ip)
  obtain P where "evict conns = filter P conns" using evict_filter by blast
  then have "fst ` set (evict conns) \<subseteq> S" using assms(1) by auto
  moreover have "fst ` set (AList.update ip ts al) = insert ip (fst ` set al)" for ts and al :: ip_table
    by (simp add: dom_update)
  ultimately show ?thesis using IpCheck assms(2) by (auto simp: ip_check_def Let_def)
next
  case (IpCleanup t)
  then show ?thesis using assms(1) by (force simp: ip_cleanup_def)
qed

lemma ip_table_small:
  assumes "ip_wf conns" and "fst ` set conns \<subseteq> S" and "finite S" and "card S \<le> n"
  shows "length conns \<le> n"
proof -
  have "length conns = card (fst ` set conns)"
    using assms(1) distinct_card [of "map fst conns"] by (simp add: ip_wf_def)
  also have "\<dots> \<le> card S" by (rule card_mono [OF assms(3,2)])
  finally show ?thesis using assms(4) by simp
qed

lemma ip_window_run:
  assumes "ip_hist now A ip conns" and "ip_wf conns" and "fst ` set conns \<subseteq> S"
    and "sorted (map op_time xs)" and "\<forall>x \<in> set xs. now \<le> op_time x" and "\<forall>x \<in> set xs. op_ips x \<subseteq> S"
    and S: "finite S" "card S \<le> IP_RATE_LIMIT_MAX_ENTRIES"
  shows "in_window t (A @ ip_accepted conns ip xs) \<le> IP_RATE_LIMIT_MAX_CONNS"
  using assms(1-6)
proof (induction xs arbitrary: now A conns)
  case Nil
  then show ?case by (simp add: ip_hist_def)
next
  case (Cons x xs)
  have small: "length conns \<le> IP_RATE_LIMIT_MAX_ENTRIES" by (rule ip_table_small [OF Cons.prems(2,3) S])
  obtain a where a: "ip_accepted conns ip (x # xs) = a @ ip_accepted (ip_exec conns x) ip xs"
      "ip_hist (op_time x) (A @ a) ip (ip_exec conns x)"
    using ip_hist_exec [OF Cons.prems(1) _ Cons.prems(2) small] Cons.prems(5) by fastforce
  have "in_window t ((A @ a) @ ip_accepted (ip_exec conns x) ip xs) \<le> IP_RATE_LIMIT_MAX_CONNS"
    using Cons.prems ip_exec_keys [OF Cons.prems(3), of x]
    by (intro Cons.IH [OF a(2)] ip_run.exec_inv) auto
  with a(1) show ?case by simp
qed

lemma ip_window_from_empty:
  assumes "sorted (map op_time xs)" and "card (\<Union> (op_ips ` set xs)) \<le> IP_RATE_LIMIT_MAX_ENTRIES"
  shows "in_window t (ip_accepted [] ip xs) \<le> IP_RATE_LIMIT_MAX_CONNS"
proof -
  have "finite (op_ips x)" for x by (cases x) auto
  then have "in_window t ([] @ ip_accepted [] ip xs) \<le> IP_RATE_LIMIT_MAX_CONNS"
    using assms
    by (intro ip_window_run [where now = 0 and S = "\<Union> (op_ips ` set xs)"])
      (auto simp: ip_hist_def ip_wf_def entry_def in_window_def)
  then show ?thesis by simp
qed

text \<open>
  The handshake limit holds: for any sequence of checks and cleanups in the order of time, with
  at most 10000 different addresses in play, no address is let in more than twenty times within
  any window of sixty seconds, wherever the window lies.
\<close>

theorem ip_limit_in_every_window:
  assumes "sorted (map op_time xs)" and "card (\<Union> (op_ips ` set xs)) \<le> IP_RATE_LIMIT_MAX_ENTRIES"
  shows "in_window t (ip_accepted [] ip xs) \<le> IP_RATE_LIMIT_MAX_CONNS"
  by (rule ip_window_from_empty [OF assms])

theorem ip_limit_in_every_window_witness:
  "in_window second (ip_accepted [] (V4 5) (replicate 25 (IpCheck 0 (V4 5)) @ [IpCleanup second, IpCheck second (V4 5)]))
     \<le> IP_RATE_LIMIT_MAX_CONNS"
  by (rule ip_limit_in_every_window) (simp_all add: IP_RATE_LIMIT_MAX_ENTRIES_def sorted_append)

lemma sort_key_hd:
  assumes "e \<in> set xs" and "\<And>x. x \<in> set xs \<Longrightarrow> x \<noteq> e \<Longrightarrow> f e < (f x :: nat)"
  shows "hd (sort_key f xs) = e"
proof -
  obtain y ys where y: "sort_key f xs = y # ys"
    using assms(1) by (metis list.exhaust set_empty set_sort empty_iff)
  have "sorted (map f (y # ys))" using sorted_sort_key [of f xs] y by simp
  moreover have "e \<in> set (y # ys)" "y \<in> set xs" using assms(1) y by (metis set_sort list.set_intros(1))+
  ultimately have "f y \<le> f e" by auto
  with assms(2) [of y] \<open>y \<in> set xs\<close> y show ?thesis by fastforce
qed

text \<open>
  Under more addresses than the table holds, the limit is lost: when the table is over its
  size, the address with the oldest first instant, which is the one that has been busy or blocked
  the longest, is evicted by its own check and let in, however many connections it has made in
  the window.
\<close>

theorem eviction_lets_blocked_address_in:
  assumes wf: "ip_wf conns" and big: "length conns > IP_RATE_LIMIT_MAX_ENTRIES" and ip: "(ip, ts) \<in> set conns"
    and old: "\<forall>(ip', ts') \<in> set conns. ip' \<noteq> ip \<longrightarrow> hd ts < hd ts'"
  shows "snd (ip_check now ip conns)"
proof -
  have live: "filter (\<lambda>(ip, ts). ts \<noteq> []) conns = conns"
    using wf by (auto simp: ip_wf_def intro: filter_True)
  have uniq: "ts' = ts" if "(ip, ts') \<in> set conns" for ts'
    using that ip wf by (metis ip_wf_def eq_key_imp_eq_value)
  have "hd ts < snd x" if x: "x \<in> set (map (\<lambda>(ip, ts). (ip, hd ts)) conns)" "x \<noteq> (ip, hd ts)" for x
  proof -
    obtain ip' ts' where x': "(ip', ts') \<in> set conns" "x = (ip', hd ts')" using x(1) by auto
    then have "ip' \<noteq> ip" using x(2) uniq by blast
    then show ?thesis using old x' by auto
  qed
  moreover have "(ip, hd ts) \<in> set (map (\<lambda>(ip, ts). (ip, hd ts)) conns)" using ip by force
  ultimately have "hd (oldest_entries conns) = (ip, hd ts)"
    unfolding oldest_entries_def live by (intro sort_key_hd) simp_all
  moreover have len: "length (oldest_entries conns) = length conns" by (simp add: oldest_entries_def live)
  moreover have "0 < length conns div 5" using big by (simp add: IP_RATE_LIMIT_MAX_ENTRIES_def)
  ultimately have "(ip, hd ts) \<in> set (take (length (oldest_entries conns) div 5) (oldest_entries conns))"
    by (cases "oldest_entries conns"; cases "length conns div 5") auto
  then have "ip \<in> fst ` set (take (length (oldest_entries conns) div 5) (oldest_entries conns))" by force
  then have "ip \<notin> fst ` set (evict conns)" using big by (force simp: evict_def Let_def)
  then have "entry (evict conns) ip = []" by (simp add: entry_def map_of_eq_None_iff [THEN iffD2])
  then show ?thesis by (simp add: ip_check_def Let_def recent_def IP_RATE_LIMIT_MAX_CONNS_def)
qed

text \<open>A blocked address among ten thousand others that came a little later.\<close>

definition flooded_table :: "nat \<Rightarrow> ip_table" where
  "flooded_table n = (V6 1, replicate 20 0) # map (\<lambda>i. (V4 (of_nat i), [1])) [0..<n]"

lemma flooded_table_wf: "n \<le> IP_RATE_LIMIT_MAX_ENTRIES \<Longrightarrow> ip_wf (flooded_table n)"
proof -
  assume n: "n \<le> IP_RATE_LIMIT_MAX_ENTRIES"
  have "inj_on (\<lambda>i. V4 (of_nat i)) {0..<n}"
  proof (rule inj_onI)
    fix i j :: nat assume i: "i \<in> {0..<n}" "j \<in> {0..<n}" and "V4 (of_nat i) = V4 (of_nat j)"
    then have "unat (of_nat i :: u32) = unat (of_nat j :: u32)" by simp
    moreover have "i < 2 ^ 32" "j < 2 ^ 32" using i n by (simp_all add: IP_RATE_LIMIT_MAX_ENTRIES_def)
    ultimately show "i = j" by (simp only: unat_of_nat) simp
  qed
  then have "distinct (map (\<lambda>i. V4 (of_nat i)) [0..<n])" by (simp add: distinct_map)
  then show ?thesis using n
    by (auto simp: ip_wf_def flooded_table_def o_def IP_RATE_LIMIT_MAX_CONNS_def)
qed

theorem eviction_lets_blocked_address_in_witness:
  "snd (ip_check 5 (V6 1) (flooded_table IP_RATE_LIMIT_MAX_ENTRIES))"
  by (rule eviction_lets_blocked_address_in [OF flooded_table_wf [OF order_refl]])
    (auto simp: flooded_table_def)

end
