(* ===== verification/Float64.thy ===== *)
theory Float64
  imports Complex_Main Prelude
begin

text \<open>
  The operations of Rust's \<open>f64\<close> that the metrics use, on IEEE 754 binary64 values: conversion from
  an unsigned integer, multiplication with rounding to nearest, ties to even (gradual underflow
  and overflow included), the saturating conversion \<open>as usize\<close>, and \<open>partial_cmp\<close>. A finite value
  is a sign, a mantissa and a power of two.
\<close>

section \<open>Values and rounding\<close>

datatype f64 = NaN | Inf bool | Fin bool nat int

fun bit_length :: "nat \<Rightarrow> nat" where
  "bit_length n = (if n = 0 then 0 else Suc (bit_length (n div 2)))"

declare bit_length.simps [simp del]

definition shift_round :: "nat \<Rightarrow> nat \<Rightarrow> nat" where
  "shift_round m k =
     (let q = m div 2 ^ k; r = m mod 2 ^ k in
      if 2 ^ k < 2 * r \<or> (2 ^ k = 2 * r \<and> odd q) then q + 1 else q)"

definition f64_round :: "bool \<Rightarrow> nat \<Rightarrow> int \<Rightarrow> f64" where
  "f64_round s m e =
     (let k = nat (max (int (bit_length m) - 53) (- 1074 - e)); q = shift_round m k; e' = e + int k in
      if e' + int (bit_length q) > 1024 then Inf s else Fin s q e')"

definition f64_of_nat :: "nat \<Rightarrow> f64" where
  "f64_of_nat n = f64_round False n 0"

fun f64_mul :: "f64 \<Rightarrow> f64 \<Rightarrow> f64" where
  "f64_mul (Fin s m e) (Fin t n d) = f64_round (s \<noteq> t) (m * n) (e + d)"
| "f64_mul (Inf s) (Inf t) = Inf (s \<noteq> t)"
| "f64_mul (Inf s) (Fin t n d) = (if n = 0 then NaN else Inf (s \<noteq> t))"
| "f64_mul (Fin s m e) (Inf t) = (if m = 0 then NaN else Inf (s \<noteq> t))"
| "f64_mul NaN y = NaN"
| "f64_mul x NaN = NaN"

definition f64_floor :: "nat \<Rightarrow> int \<Rightarrow> nat" where
  "f64_floor m e = (if 0 \<le> e then m * 2 ^ nat e else m div 2 ^ nat (- e))"

fun f64_as_usize :: "f64 \<Rightarrow> nat" where
  "f64_as_usize NaN = 0"
| "f64_as_usize (Inf s) = (if s then 0 else 2 ^ 64 - 1)"
| "f64_as_usize (Fin s m e) = (if s then 0 else min (2 ^ 64 - 1) (f64_floor m e))"

text \<open>Comparison: \<open>None\<close> when an operand is NaN. Finite values are compared at their common exponent.\<close>

datatype ordering = Less | Equal | Greater

definition f64_scaled :: "bool \<Rightarrow> nat \<Rightarrow> int \<Rightarrow> int \<Rightarrow> int" where
  "f64_scaled s m e d = (if s then - 1 else 1) * int m * 2 ^ nat (e - min e d)"

definition cmp_int :: "int \<Rightarrow> int \<Rightarrow> ordering" where
  "cmp_int a b = (if a < b then Less else if a = b then Equal else Greater)"

fun partial_cmp :: "f64 \<Rightarrow> f64 \<Rightarrow> ordering option" where
  "partial_cmp (Fin s m e) (Fin t n d) = Some (cmp_int (f64_scaled s m e d) (f64_scaled t n d e))"
| "partial_cmp (Inf s) (Inf t) = Some (if s = t then Equal else if s then Less else Greater)"
| "partial_cmp (Inf s) (Fin t n d) = Some (if s then Less else Greater)"
| "partial_cmp (Fin s m e) (Inf t) = Some (if t then Greater else Less)"
| "partial_cmp NaN y = None"
| "partial_cmp x NaN = None"

definition f64_le :: "f64 \<Rightarrow> f64 \<Rightarrow> bool" where
  "f64_le x y \<longleftrightarrow> partial_cmp x y = Some Less \<or> partial_cmp x y = Some Equal"

section \<open>Order\<close>

text \<open>The values that are not NaN are totally ordered by a rational and two infinities.\<close>

definition f64_rat :: "bool \<Rightarrow> nat \<Rightarrow> int \<Rightarrow> rat" where
  "f64_rat s m e = (if s then - 1 else 1) * of_nat m * 2 powi e"

lemma f64_scaled_rat: "of_int (f64_scaled s m e d) = f64_rat s m e * 2 powi (- min e d)"
proof -
  have "(2 :: rat) ^ nat (e - min e d) = 2 powi (e - min e d)" by (simp add: power_int_def)
  also have "\<dots> = 2 powi e * 2 powi (- min e d)" by (simp add: power_int_add [symmetric])
  finally show ?thesis by (simp add: f64_scaled_def f64_rat_def)
qed

lemma f64_scaled_less:
  "f64_scaled s m e d < f64_scaled t n d e \<longleftrightarrow> f64_rat s m e < f64_rat t n d"
proof -
  have "f64_scaled s m e d < f64_scaled t n d e
      \<longleftrightarrow> (of_int (f64_scaled s m e d) :: rat) < of_int (f64_scaled t n d e)" by simp
  also have "\<dots> \<longleftrightarrow> f64_rat s m e < f64_rat t n d"
    by (simp add: f64_scaled_rat min.commute [of d e])
  finally show ?thesis .
qed

text \<open>A key into a linear order: negative infinity, the rationals, positive infinity.\<close>

definition f64_key :: "f64 \<Rightarrow> int \<times> rat" where
  "f64_key x = (case x of NaN \<Rightarrow> (2, 0) | Inf s \<Rightarrow> (if s then - 1 else 1, 0) | Fin s m e \<Rightarrow> (0, f64_rat s m e))"

lemma f64_le_key:
  assumes "x \<noteq> NaN" and "y \<noteq> NaN"
  shows "f64_le x y \<longleftrightarrow> fst (f64_key x) < fst (f64_key y)
    \<or> (fst (f64_key x) = fst (f64_key y) \<and> snd (f64_key x) \<le> snd (f64_key y))"
proof (cases x; cases y)
  fix s m e t n d
  assume xy: "x = Fin s m e" "y = Fin t n d"
  have "f64_le x y \<longleftrightarrow> \<not> f64_scaled t n d e < f64_scaled s m e d"
    unfolding xy by (auto simp: f64_le_def cmp_int_def)
  also have "\<dots> \<longleftrightarrow> f64_rat s m e \<le> f64_rat t n d"
    by (simp only: f64_scaled_less not_less)
  finally show ?thesis by (simp add: xy f64_key_def)
qed (use assms in \<open>auto simp: f64_le_def f64_key_def\<close>)

lemma f64_le_NaN [simp]: "\<not> f64_le NaN y" "\<not> f64_le x NaN"
  by (cases y; simp add: f64_le_def) (cases x; simp add: f64_le_def)

lemma f64_le_trans: "f64_le x y \<Longrightarrow> f64_le y z \<Longrightarrow> f64_le x z"
  by (cases "x = NaN \<or> y = NaN \<or> z = NaN") (auto simp: f64_le_key)

lemma f64_le_linear: "x \<noteq> NaN \<Longrightarrow> y \<noteq> NaN \<Longrightarrow> f64_le x y \<or> f64_le y x"
  by (auto simp: f64_le_key)

lemma f64_le_refl: "x \<noteq> NaN \<Longrightarrow> f64_le x x"
  by (simp add: f64_le_key)

lemma partial_cmp_None: "partial_cmp x y = None \<longleftrightarrow> x = NaN \<or> y = NaN"
  by (cases x; cases y) auto

section \<open>Rounding\<close>

lemma bit_length_le: "m < 2 ^ j \<Longrightarrow> bit_length m \<le> j"
proof (induction j arbitrary: m)
  case (Suc j)
  show ?case using Suc.IH [of "m div 2"] Suc.prems by (subst bit_length.simps) simp
qed (simp add: bit_length.simps)

lemma less_bit_length: "m < 2 ^ bit_length m"
proof (induction m rule: bit_length.induct)
  case (1 n)
  then show ?case by (subst bit_length.simps) (auto simp: less_mult_imp_div_less)
qed

lemma shift_round_error: "2 * \<bar>int (shift_round m k) * 2 ^ k - int m\<bar> \<le> 2 ^ k"
proof -
  define q r where qr: "q = m div 2 ^ k" "r = m mod 2 ^ k"
  have m: "m = q * 2 ^ k + r" unfolding qr by (simp only: div_mult_mod_eq)
  have r: "r < 2 ^ k" by (simp add: qr)
  have ir: "int r < 2 ^ k" using r by (metis of_nat_less_iff of_nat_numeral of_nat_power)
  have "shift_round m k = (if 2 ^ k < 2 * r \<or> (2 ^ k = 2 * r \<and> odd q) then q + 1 else q)"
    by (simp add: shift_round_def Let_def qr)
  moreover have "2 * int r \<le> 2 ^ k" if "\<not> (2 ^ k < 2 * r)"
    using that by (metis not_less of_nat_le_iff of_nat_mult of_nat_numeral of_nat_power)
  moreover have "2 ^ k \<le> 2 * int r" if "2 ^ k < 2 * r \<or> 2 ^ k = 2 * r"
    using that by (metis le_eq_less_or_eq of_nat_le_iff of_nat_mult of_nat_numeral of_nat_power)
  ultimately show ?thesis using ir by (auto simp: m algebra_simps)
qed

lemma f64_of_nat_exact: "n < 2 ^ 53 \<Longrightarrow> f64_of_nat n = Fin False n 0"
  using bit_length_le [of n 53] by (simp add: f64_of_nat_def f64_round_def shift_round_def)

text \<open>
  The product of a small integer \<open>n\<close> with the binary64 number next to \<open>c/100\<close>, truncated, is the
  integer quotient \<open>c * n div 100\<close>: away from an integer the error is too small to reach it, and
  next to one the rounding meets it exactly.
\<close>

lemma abs_shift:
  fixes x y z e K :: int
  shows "\<bar>100 * y - z\<bar> = e \<Longrightarrow> 2 * \<bar>x - y\<bar> \<le> K \<Longrightarrow> \<bar>100 * x - z\<bar> \<le> 50 * K + e"
  by (cases "0 \<le> 100 * y - z"; cases "x \<le> y") (simp_all add: abs_if split: if_splits)

lemma rounded_quotient:
  fixes n M c k q :: nat
  assumes near: "2 ^ 53 * \<bar>100 * int M - int c * 2 ^ 53\<bar> < 50 * int M"
    and size: "n * M < 2 ^ (53 + k)" and k: "k \<le> 14" and n: "n \<le> 10000" and M: "0 < M"
    and err: "2 * \<bar>int q * 2 ^ k - int (n * M)\<bar> \<le> 2 ^ k"
  shows "q * 2 ^ k div 2 ^ 53 = c * n div 100"
proof -
  define D where "D = \<bar>100 * int M - int c * 2 ^ 53\<bar>"
  have "int n * D * (2 ^ 53 * int M) < 50 * 2 ^ k * (2 ^ 53 * int M)" if "n > 0"
  proof -
    have "int n * D * (2 ^ 53 * int M) = (int n * int M) * (2 ^ 53 * D)" by (simp add: ac_simps)
    also have "\<dots> < (int n * int M) * (50 * int M)"
      using near M that by (simp add: D_def)
    also have "\<dots> \<le> 2 ^ (53 + k) * (50 * int M)"
      using size by (intro mult_right_mono) (metis less_imp_le of_nat_less_iff of_nat_mult of_nat_numeral of_nat_power, simp)
    also have "\<dots> = 50 * 2 ^ k * (2 ^ 53 * int M)" by (simp add: power_add ac_simps)
    finally show ?thesis .
  qed
  then have nD: "int n * D < 50 * 2 ^ k" using M by (cases "n = 0") (auto simp: mult.commute)
  define Q where "Q = int q * 2 ^ k"
  have "int n * D = \<bar>int n\<bar> * \<bar>100 * int M - int c * 2 ^ 53\<bar>" by (simp add: D_def)
  also have "\<dots> = \<bar>100 * int (n * M) - int (c * n) * 2 ^ 53\<bar>"
    by (simp only: abs_mult [symmetric]) (simp add: algebra_simps)
  finally have "\<bar>100 * int (n * M) - int (c * n) * 2 ^ 53\<bar> = int n * D" ..
  then have "\<bar>100 * Q - int (c * n) * 2 ^ 53\<bar> \<le> 50 * 2 ^ k + int n * D"
    using err unfolding Q_def by (rule abs_shift)
  with nD have close: "\<bar>100 * Q - int (c * n) * 2 ^ 53\<bar> < 100 * 2 ^ k" by linarith
  define a b where ab: "a = int (c * n) div 100" "b = int (c * n) mod 100"
  have cn: "int (c * n) = 100 * a + b" "0 \<le> b" "b < 100" by (simp_all add: ab)
  have "(2 :: int) ^ k \<le> 2 ^ 14" using k by (intro power_increasing) auto
  have "a * 2 ^ 53 \<le> Q \<and> Q < (a + 1) * 2 ^ 53"
  proof (cases "b = 0")
    case True
    have "(2 :: int) ^ (53 - k) * 2 ^ k = 2 ^ 53" using k by (simp only: power_add [symmetric]) simp
    then have "100 * Q - int (c * n) * 2 ^ 53 = 100 * ((int q - a * 2 ^ (53 - k)) * 2 ^ k)"
      by (simp only: cn(1) True Q_def left_diff_distrib mult.assoc) simp
    then have "100 * (\<bar>int q - a * 2 ^ (53 - k)\<bar> * 2 ^ k) < 100 * 2 ^ k"
      using close by (simp only: abs_mult) simp
    then have "\<bar>int q - a * 2 ^ (53 - k)\<bar> * 2 ^ k < 1 * 2 ^ k" by simp
    then have "\<bar>int q - a * 2 ^ (53 - k)\<bar> < 1" by (simp only: mult_less_cancel_right) auto
    then have "int q = a * 2 ^ (53 - k)" by simp
    then have "Q = a * 2 ^ 53" using k by (simp add: Q_def power_add [symmetric])
    then show ?thesis by simp
  next
    case False
    then have "1 \<le> b" using cn(2) by simp
    moreover have "\<bar>100 * Q - (100 * a + b) * 2 ^ 53\<bar> < 100 * 2 ^ 14"
      using close \<open>(2 :: int) ^ k \<le> 2 ^ 14\<close> cn(1) by simp
    ultimately show ?thesis using cn(3) by (simp add: abs_less_iff)
  qed
  then have "Q div 2 ^ 53 = a" by (intro int_div_pos_eq [of _ _ _ "Q - a * 2 ^ 53"]) (auto simp: algebra_simps)
  then have "int (q * 2 ^ k div 2 ^ 53) = int (c * n div 100)"
    by (simp add: Q_def ab zdiv_int)
  then show ?thesis by (simp only: of_nat_eq_iff)
qed

lemma f64_mul_floor:
  assumes near: "2 ^ 53 * \<bar>100 * int M - int c * 2 ^ 53\<bar> < 50 * int M"
    and M: "0 < M" "M < 2 ^ 53" and n: "n \<le> 10000" and c: "c \<le> 100"
  shows "f64_as_usize (f64_mul (f64_of_nat n) (Fin False M (- 53))) = c * n div 100"
proof -
  define k where "k = nat (int (bit_length (n * M)) - 53)"
  have "n * M \<le> 10000 * 2 ^ 53" using n M by (intro mult_mono) auto
  then have "n * M < 2 ^ 67" by simp
  then have k: "k \<le> 14" using bit_length_le [of "n * M" 67] by (simp add: k_def)
  have size: "n * M < 2 ^ (53 + k)"
    using less_bit_length [of "n * M"] by (rule less_le_trans) (simp add: k_def)
  define q where "q = shift_round (n * M) k"
  have "q * 2 ^ k \<le> n * M + 2 ^ k"
    using shift_round_error [of "n * M" k] by (simp add: q_def abs_if flip: of_nat_le_iff [where 'a = int] split: if_splits)
  also have "\<dots> \<le> 2 ^ 54 * 2 ^ k" using size by (simp add: power_add)
  finally have "q < 2 ^ 55" by simp
  then have small: "bit_length q \<le> 55" by (rule bit_length_le)
  have div: "q * 2 ^ k div 2 ^ 53 = c * n div 100"
    using rounded_quotient [OF near size k n M(1)] shift_round_error [of "n * M" k] by (simp add: q_def)
  have "q div 2 ^ (53 - k) = q * 2 ^ k div (2 ^ (53 - k) * 2 ^ k)" by simp
  also have "(2 :: nat) ^ (53 - k) * 2 ^ k = 2 ^ 53" using k by (simp only: power_add [symmetric]) simp
  finally have floor: "f64_floor q (int k - 53) = c * n div 100"
    using k div by (simp add: f64_floor_def nat_diff_distrib)
  have "c * n div 100 \<le> n" using c by (simp add: div_le_mono [of "c * n" "100 * n" 100, simplified])
  then have "c * n div 100 \<le> 2 ^ 64 - 1" using n by simp
  moreover have "f64_mul (f64_of_nat n) (Fin False M (- 53)) = Fin False q (int k - 53)"
    using n small k by (simp add: f64_of_nat_exact f64_round_def Let_def k_def [symmetric] q_def max_def)
  ultimately show ?thesis using floor by (simp add: min_def)
qed

text \<open>The literals of the source are the binary64 numbers nearest to the decimals.\<close>

definition f64_0_50 :: f64 where "f64_0_50 = Fin False 4503599627370496 (- 53)"
definition f64_0_95 :: f64 where "f64_0_95 = Fin False 8556839292003942 (- 53)"
definition f64_0_99 :: f64 where "f64_0_99 = Fin False 8917127262193582 (- 53)"
definition f64_zero :: f64 where "f64_zero = Fin False 0 0"

lemma f64_quantile_index:
  assumes "n \<le> 10000"
  shows "f64_as_usize (f64_mul (f64_of_nat n) f64_0_50) = 50 * n div 100"
    and "f64_as_usize (f64_mul (f64_of_nat n) f64_0_95) = 95 * n div 100"
    and "f64_as_usize (f64_mul (f64_of_nat n) f64_0_99) = 99 * n div 100"
  unfolding f64_0_50_def f64_0_95_def f64_0_99_def
  by (rule f64_mul_floor; use assms in simp)+

end
