(* ===== verification/Gateway_Metrics.thy ===== *)
theory Gateway_Metrics
  imports Streams Float64 "HOL-Library.Multiset"
begin

text \<open>
  The metrics of \<open>gateway/src/metrics.rs\<close>. The counters are 64-bit words that wrap; the gauge of
  active connections is the two's complement reading of its word. Latency samples are behind a
  mutex that a panic poisons: \<open>samples_poisoned\<close>. The rendering sorts them, picks percentiles by
  a floating-point index and prints the exposition text that the metrics listener of
  \<open>gateway/src/main.rs\<close> serves; the decimal form of a float is a parameter.
\<close>

section \<open>Counters and samples\<close>

record 'f metrics =
  connections_active :: u64
  connections_total :: u64
  auth_failures_invalid :: u64
  auth_failures_replay :: u64
  auth_failures_truncated :: u64
  rekey_total :: u64
  replay_detected_total :: u64
  handshake_latency_samples :: "'f list"
  samples_poisoned :: bool

definition metrics_new :: "'f metrics" where
  "metrics_new = \<lparr>connections_active = 0, connections_total = 0, auth_failures_invalid = 0,
     auth_failures_replay = 0, auth_failures_truncated = 0, rekey_total = 0, replay_detected_total = 0,
     handshake_latency_samples = [], samples_poisoned = False\<rparr>"

definition inc_connections_active :: "'f metrics \<Rightarrow> 'f metrics" where
  "inc_connections_active m = m\<lparr>connections_active := connections_active m + 1\<rparr>"

definition dec_connections_active :: "'f metrics \<Rightarrow> 'f metrics" where
  "dec_connections_active m = m\<lparr>connections_active := connections_active m - 1\<rparr>"

definition inc_connections_total :: "'f metrics \<Rightarrow> 'f metrics" where
  "inc_connections_total m = m\<lparr>connections_total := connections_total m + 1\<rparr>"

definition inc_auth_failure :: "string \<Rightarrow> 'f metrics \<Rightarrow> 'f metrics" where
  "inc_auth_failure kind m =
     (if kind = ''invalid'' then m\<lparr>auth_failures_invalid := auth_failures_invalid m + 1\<rparr>
      else if kind = ''replay'' then m\<lparr>auth_failures_replay := auth_failures_replay m + 1\<rparr>
      else if kind = ''truncated'' then m\<lparr>auth_failures_truncated := auth_failures_truncated m + 1\<rparr>
      else m)"

definition inc_rekey :: "'f metrics \<Rightarrow> 'f metrics" where
  "inc_rekey m = m\<lparr>rekey_total := rekey_total m + 1\<rparr>"

definition inc_replay_detected :: "'f metrics \<Rightarrow> 'f metrics" where
  "inc_replay_detected m = m\<lparr>replay_detected_total := replay_detected_total m + 1\<rparr>"

definition record_handshake_latency :: "'f \<Rightarrow> 'f metrics \<Rightarrow> 'f metrics" where
  "record_handshake_latency secs m =
     (if samples_poisoned m then m
      else let samples = handshake_latency_samples m @ [secs] in
      m\<lparr>handshake_latency_samples := if length samples > 10000 then drop 5000 samples else samples\<rparr>)"

text \<open>The samples are always a suffix of everything recorded, and bounded.\<close>

lemma record_poisoned [simp]: "samples_poisoned (record_handshake_latency x m) = samples_poisoned m"
  by (simp add: record_handshake_latency_def Let_def)

lemma latency_step:
  "\<not> samples_poisoned m \<Longrightarrow> handshake_latency_samples (record_handshake_latency x m) =
     drop (if 10000 < Suc (length (handshake_latency_samples m)) then 5000 else 0) (handshake_latency_samples m @ [x])"
  by (auto simp: record_handshake_latency_def Let_def)

interpretation latency: op_system "\<lambda>m x. record_handshake_latency x m" "\<lambda>m. length (handshake_latency_samples m) \<le> 10000"
  by unfold_locales (auto simp: record_handshake_latency_def Let_def)

lemma latency_samples_run:
  assumes "\<exists>old. all = old @ handshake_latency_samples m" and "\<not> samples_poisoned m"
  shows "\<exists>old. all @ xs = old @ handshake_latency_samples (foldl (\<lambda>m x. record_handshake_latency x m) m xs)"
  using assms
proof (induction xs arbitrary: all m)
  case (Cons x xs)
  obtain k where k: "handshake_latency_samples (record_handshake_latency x m) = drop k (handshake_latency_samples m @ [x])"
    using latency_step [OF Cons.prems(2), of x] by (rule that)
  obtain old where "all = old @ handshake_latency_samples m" using Cons.prems(1) by blast
  then have "all @ [x] = (old @ take k (handshake_latency_samples m @ [x])) @ drop k (handshake_latency_samples m @ [x])"
    by (simp only: append.assoc append_take_drop_id)
  then have "\<exists>old. all @ [x] = old @ handshake_latency_samples (record_handshake_latency x m)"
    unfolding k by blast
  from Cons.IH [OF this] Cons.prems(2) show ?case by simp
qed simp

section \<open>Percentiles\<close>

text \<open>\<open>sort_by\<close> is stable; its comparison unwraps \<open>partial_cmp\<close> and so panics on a NaN that meets another sample.\<close>

fun insert_sample :: "f64 \<Rightarrow> f64 list \<Rightarrow> f64 list" where
  "insert_sample x [] = [x]"
| "insert_sample x (y # ys) = (if f64_le x y then x # y # ys else y # insert_sample x ys)"

definition sort_samples :: "f64 list \<Rightarrow> f64 list outcome" where
  "sort_samples xs = (if 2 \<le> length xs \<and> NaN \<in> set xs then Panic else Ret (foldr insert_sample xs []))"

definition percentile :: "f64 list \<Rightarrow> f64 \<Rightarrow> f64" where
  "percentile ordered p =
     (if ordered = [] then f64_zero
      else let idx = f64_as_usize (f64_mul (f64_of_nat (length ordered)) p);
               idx = min idx (length ordered - 1)
           in ordered ! idx)"

definition latency_summary :: "f64 metrics \<Rightarrow> (f64 \<times> f64 \<times> f64 \<times> nat) outcome" where
  "latency_summary m =
     (if samples_poisoned m \<or> handshake_latency_samples m = [] then Ret (f64_zero, f64_zero, f64_zero, 0)
      else case sort_samples (handshake_latency_samples m) of
             Panic \<Rightarrow> Panic
           | Ret ordered \<Rightarrow>
               Ret (percentile ordered f64_0_50, percentile ordered f64_0_95, percentile ordered f64_0_99, length ordered))"

section \<open>The exposition text\<close>

definition show_i64 :: "int \<Rightarrow> string" where
  "show_i64 i = (if i < 0 then CHR ''-'' # show_nat (nat (- i)) else show_nat (nat i))"

definition show_u64 :: "u64 \<Rightarrow> string" where
  "show_u64 w = show_nat (unat w)"

definition metric_lines :: "(f64 \<Rightarrow> string) \<Rightarrow> f64 metrics \<Rightarrow> f64 \<Rightarrow> f64 \<Rightarrow> f64 \<Rightarrow> nat \<Rightarrow> string list" where
  \<open>metric_lines show_f64 m p50 p95 p99 n =
    [''# HELP gateway_connections_active Currently active connections'',
     ''# TYPE gateway_connections_active gauge'',
     ''gateway_connections_active '' @ show_i64 (sint (connections_active m)),
     ''# HELP gateway_connections_total Total connections accepted'',
     ''# TYPE gateway_connections_total counter'',
     ''gateway_connections_total '' @ show_u64 (connections_total m),
     ''# HELP gateway_auth_failures_total Authentication failures by type'',
     ''# TYPE gateway_auth_failures_total counter'',
     ''gateway_auth_failures_total{type="invalid"} '' @ show_u64 (auth_failures_invalid m),
     ''gateway_auth_failures_total{type="replay"} '' @ show_u64 (auth_failures_replay m),
     ''gateway_auth_failures_total{type="truncated"} '' @ show_u64 (auth_failures_truncated m),
     ''# HELP gateway_rekey_total Total rekey operations'',
     ''# TYPE gateway_rekey_total counter'',
     ''gateway_rekey_total '' @ show_u64 (rekey_total m),
     ''# HELP gateway_replay_detected_total Replay attacks detected'',
     ''# TYPE gateway_replay_detected_total counter'',
     ''gateway_replay_detected_total '' @ show_u64 (replay_detected_total m),
     ''# HELP gateway_handshake_latency_seconds Handshake latency distribution'',
     ''# TYPE gateway_handshake_latency_seconds summary'',
     ''gateway_handshake_latency_seconds{quantile="0.5"} '' @ show_f64 p50,
     ''gateway_handshake_latency_seconds{quantile="0.95"} '' @ show_f64 p95,
     ''gateway_handshake_latency_seconds{quantile="0.99"} '' @ show_f64 p99,
     ''gateway_handshake_latency_seconds_count '' @ show_nat n]\<close>

text \<open>A panic while the samples are locked poisons their mutex; the rendering itself changes nothing else.\<close>

definition render :: "(f64 \<Rightarrow> string) \<Rightarrow> f64 metrics \<Rightarrow> f64 metrics \<times> string outcome" where
  "render show_f64 m =
     (case latency_summary m of
        Panic \<Rightarrow> (m\<lparr>samples_poisoned := True\<rparr>, Panic)
      | Ret (p50, p95, p99, n) \<Rightarrow>
          (m, Ret (concat (map (\<lambda>l. l @ [CHR 0x0A]) (metric_lines show_f64 m p50 p95 p99 n)))))"

definition crlf :: string where
  "crlf = [CHR 0x0D, CHR 0x0A]"

definition metrics_response :: "string \<Rightarrow> string" where
  "metrics_response body =
     ''HTTP/1.1 200 OK'' @ crlf @ ''Content-Type: text/plain; version=0.0.4'' @ crlf
       @ ''Content-Length: '' @ show_nat (length body) @ crlf @ crlf @ body"

text \<open>
  A connection to the metrics endpoint: one read of up to 1024 of the \<open>k\<close> bytes that are ready, which
  is ignored, and the response; the task ends there, in a panic when the rendering panics.
\<close>

definition serve_metrics ::
  "(f64 \<Rightarrow> string) \<Rightarrow> nat \<Rightarrow> f64 metrics \<Rightarrow> conn \<Rightarrow> f64 metrics \<times> conn outcome" where
  "serve_metrics show_f64 k m c =
     (let c = c\<lparr>inp := (inp c)\<lparr>rbuf := drop (min k 1024) (rbuf (inp c))\<rparr>\<rparr> in
      case render show_f64 m of
        (m, Panic) \<Rightarrow> (m, Panic)
      | (m, Ret body) \<Rightarrow> (m, Ret (c\<lparr>out := fst (write_all (bytes_of (metrics_response body)) (out c))\<rparr>)))"

section \<open>Percentiles are ranks\<close>

lemma mset_insert_sample [simp]: "mset (insert_sample x ys) = add_mset x (mset ys)"
  by (induction ys) auto

lemma set_insert_sample [simp]: "set (insert_sample x ys) = insert x (set ys)"
  by (simp flip: set_mset_mset)

lemma sorted_insert_sample:
  assumes "x \<noteq> NaN" and "NaN \<notin> set ys" and "sorted_wrt f64_le ys"
  shows "sorted_wrt f64_le (insert_sample x ys)"
  using assms
proof (induction ys)
  case (Cons y ys)
  show ?case
  proof (cases "f64_le x y")
    case True
    with Cons.prems show ?thesis by (auto intro: f64_le_trans)
  next
    case False
    with Cons.prems have "f64_le y x" using f64_le_linear [of x y] by auto
    with False Cons show ?thesis by auto
  qed
qed simp

lemma sort_samples_spec:
  assumes "NaN \<notin> set xs"
  obtains ys where "sort_samples xs = Ret ys" and "mset ys = mset xs" and "sorted_wrt f64_le ys"
proof
  show "sort_samples xs = Ret (foldr insert_sample xs [])" using assms by (simp add: sort_samples_def)
  show mset: "mset (foldr insert_sample xs []) = mset xs" by (induction xs) auto
  show "sorted_wrt f64_le (foldr insert_sample xs [])"
    using assms
  proof (induction xs)
    case (Cons x xs)
    have "set (foldr insert_sample xs []) = set xs" by (induction xs) auto
    with Cons show ?case by (auto intro!: sorted_insert_sample)
  qed simp
qed

definition rank_value :: "nat \<Rightarrow> f64 list \<Rightarrow> f64" where
  "rank_value c ordered = ordered ! (c * length ordered div 100)"

lemma rank_less: "c < 100 \<Longrightarrow> 0 < n \<Longrightarrow> c * n div 100 < (n :: nat)"
  by (simp add: less_mult_imp_div_less)

lemma percentile_index:
  assumes "f64_as_usize (f64_mul (f64_of_nat (length ys)) p) = c * length ys div 100"
    and "c < 100" and "ys \<noteq> []"
  shows "percentile ys p = rank_value c ys"
proof -
  have "c * length ys div 100 \<le> length ys - 1" using rank_less [of c "length ys"] assms(2,3) by simp
  then show ?thesis using assms by (simp add: percentile_def rank_value_def Let_def min_absorb1)
qed

lemma percentile_rank:
  assumes "ys \<noteq> []" and "length ys \<le> 10000"
  shows "percentile ys f64_0_50 = rank_value 50 ys"
    and "percentile ys f64_0_95 = rank_value 95 ys"
    and "percentile ys f64_0_99 = rank_value 99 ys"
  using assms by (auto intro!: percentile_index f64_quantile_index)

text \<open>At least \<open>c\<close> per cent of the samples are at most the value of rank \<open>c\<close>.\<close>

lemma rank_value_covers:
  assumes "sorted_wrt f64_le ys" and "NaN \<notin> set ys" and "ys \<noteq> []" and "c < 100"
  shows "c * length ys \<le> 100 * length (filter (\<lambda>y. f64_le y (rank_value c ys)) ys)"
proof -
  let ?i = "c * length ys div 100"
  have i: "?i < length ys" using assms by (simp add: rank_less)
  have le: "f64_le y (ys ! ?i)" if "y \<in> set (take (Suc ?i) ys)" for y
  proof -
    note mem = that
    obtain j where "j < length (take (Suc ?i) ys)" "take (Suc ?i) ys ! j = y"
      using mem unfolding in_set_conv_nth by blast
    then have j: "j \<le> ?i" "y = ys ! j" by auto
    show ?thesis
    proof (cases "j = ?i")
      case True
      then show ?thesis using j i assms(2) by (metis f64_le_refl nth_mem)
    next
      case False
      then show ?thesis using j i assms(1) by (simp add: sorted_wrt_iff_nth_less)
    qed
  qed
  have "filter (\<lambda>y. f64_le y (ys ! ?i)) ys =
      take (Suc ?i) ys @ filter (\<lambda>y. f64_le y (ys ! ?i)) (drop (Suc ?i) ys)"
    using le by (subst append_take_drop_id [of "Suc ?i" ys, symmetric], subst filter_append)
      (simp add: filter_True del: append_take_drop_id)
  then have "Suc ?i \<le> length (filter (\<lambda>y. f64_le y (ys ! ?i)) ys)" using i by simp
  moreover have "c * length ys < 100 * Suc ?i" by simp
  ultimately show ?thesis by (simp add: rank_value_def)
qed

section \<open>Reading the text back\<close>

text \<open>A scraper: the lines of the text, the value of a sample, a decimal number.\<close>

fun lines_of :: "string \<Rightarrow> string list" where
  "lines_of [] = []"
| "lines_of (c # s) =
     (if c = CHR 0x0A then [] # lines_of s
      else case lines_of s of [] \<Rightarrow> [[c]] | l # ls \<Rightarrow> (c # l) # ls)"

definition sample_value :: "string \<Rightarrow> string \<Rightarrow> string option" where
  "sample_value name body =
     map_option (drop (Suc (length name))) (find (\<lambda>l. take (Suc (length name)) l = name @ '' '') (lines_of body))"

definition read_nat :: "string \<Rightarrow> nat" where
  "read_nat = foldl (\<lambda>n c. 10 * n + (of_char c - 48)) 0"

definition read_int :: "string \<Rightarrow> int" where
  "read_int s = (if take 1 s = ''-'' then - int (read_nat (drop 1 s)) else int (read_nat s))"

lemma lines_of_line: "CHR 0x0A \<notin> set l \<Longrightarrow> lines_of (l @ CHR 0x0A # s) = l # lines_of s"
  by (induction l) auto

lemma lines_of_concat:
  "list_all (\<lambda>l. CHR 0x0A \<notin> set l) ls \<Longrightarrow> lines_of (concat (map (\<lambda>l. l @ [CHR 0x0A]) ls)) = ls"
  by (induction ls) (auto simp: lines_of_line)

lemma digit_char: "d < 10 \<Longrightarrow> of_char (char_of (48 + d) :: char) = (48 + d :: nat)"
  by (simp add: of_char_of)

lemma show_nat_digits: "c \<in> set (show_nat n) \<Longrightarrow> 48 \<le> (of_char c :: nat) \<and> (of_char c :: nat) \<le> 57"
proof (induction n rule: show_nat.induct)
  case (1 n)
  then show ?case
    using digit_char [of "n mod 10"] digit_char [of n]
    by (subst (asm) (2) show_nat.simps) (auto split: if_splits)
qed

lemma show_nat_not_char: "(of_char c :: nat) < 48 \<Longrightarrow> c \<notin> set (show_nat n)"
  using show_nat_digits by fastforce

lemma read_show_nat [simp]: "read_nat (show_nat n) = n"
proof (induction n rule: show_nat.induct)
  case (1 n)
  then show ?case
    using digit_char [of "n mod 10"] digit_char [of n]
    by (subst show_nat.simps) (auto simp: read_nat_def)
qed

lemma read_show_i64 [simp]: "read_int (show_i64 i) = i"
proof (cases "i < 0")
  case False
  have "show_nat (nat i) \<noteq> []" by (rule show_nat_nonempty)
  moreover have "CHR ''-'' \<notin> set (show_nat (nat i))" by (rule show_nat_not_char) simp
  ultimately have "take 1 (show_nat (nat i)) \<noteq> ''-''" by (cases "show_nat (nat i)") auto
  with False show ?thesis by (simp add: read_int_def show_i64_def)
qed (simp add: read_int_def show_i64_def)

lemma show_no_newline [simp]:
  "CHR 0x0A \<notin> set (show_nat n)" "CHR 0x0A \<notin> set (show_u64 w)" "CHR 0x0A \<notin> set (show_i64 i)"
  by (auto simp: show_u64_def show_i64_def show_nat_not_char)

section \<open>Properties\<close>

text \<open>
  C34. The percentiles of the latency are ranks: for up to ten thousand samples, none of them NaN, the
  floating-point index of the source is the integer quotient of the rank, so the three quantiles
  are the samples at the ranks of 50, 95 and 99 per cent of the sorted list, the sorted list is a
  permutation of the samples, and at least that share of the samples lies at or below each.
\<close>

theorem latency_quantiles_are_ranks:
  assumes "handshake_latency_samples m \<noteq> []" and "length (handshake_latency_samples m) \<le> 10000"
    and "NaN \<notin> set (handshake_latency_samples m)" and "\<not> samples_poisoned m"
  shows "\<exists>ys. mset ys = mset (handshake_latency_samples m) \<and> sorted_wrt f64_le ys
    \<and> latency_summary m = Ret (rank_value 50 ys, rank_value 95 ys, rank_value 99 ys, length ys)
    \<and> (\<forall>c < 100. c * length ys \<le> 100 * length (filter (\<lambda>y. f64_le y (rank_value c ys)) ys))"
proof -
  obtain ys where ys: "sort_samples (handshake_latency_samples m) = Ret ys"
      "mset ys = mset (handshake_latency_samples m)" "sorted_wrt f64_le ys"
    using assms(3) by (rule sort_samples_spec)
  have "ys \<noteq> []" "length ys \<le> 10000" "NaN \<notin> set ys"
    using assms ys(2) by (metis mset_zero_iff_right, metis size_mset, metis set_mset_mset)
  then have "latency_summary m = Ret (rank_value 50 ys, rank_value 95 ys, rank_value 99 ys, length ys)"
    using assms ys(1) by (simp add: latency_summary_def percentile_rank)
  with ys rank_value_covers [OF ys(3) \<open>NaN \<notin> set ys\<close> \<open>ys \<noteq> []\<close>] show ?thesis by blast
qed

theorem latency_quantiles_are_ranks_witness:
  "\<exists>ys. mset ys = mset [Fin False 3 (- 2), Fin False 1 (- 2)] \<and> sorted_wrt f64_le ys
     \<and> latency_summary (metrics_new\<lparr>handshake_latency_samples := [Fin False 3 (- 2), Fin False 1 (- 2)]\<rparr>)
       = Ret (rank_value 50 ys, rank_value 95 ys, rank_value 99 ys, length ys)"
  using latency_quantiles_are_ranks [of "metrics_new\<lparr>handshake_latency_samples := [Fin False 3 (- 2), Fin False 1 (- 2)]\<rparr>"]
  by (simp add: metrics_new_def) blast

text \<open>
  C35. The metrics text can be read back: whatever the state, unless a NaN sample makes the rendering
  panic, a scraper that takes the line that starts with a sample's name finds every counter with
  the value it has (the gauge as a signed number), provided that the decimal form of a float is
  one line.
\<close>

theorem metrics_scrape_roundtrip:
  assumes "\<And>x. CHR 0x0A \<notin> set (show_f64 x)" and "render show_f64 m = (m', Ret body)"
  shows \<open>map_option read_int (sample_value ''gateway_connections_active'' body) = Some (sint (connections_active m))
    \<and> map_option read_nat (sample_value ''gateway_connections_total'' body) = Some (unat (connections_total m))
    \<and> map_option read_nat (sample_value ''gateway_auth_failures_total{type="invalid"}'' body) = Some (unat (auth_failures_invalid m))
    \<and> map_option read_nat (sample_value ''gateway_auth_failures_total{type="replay"}'' body) = Some (unat (auth_failures_replay m))
    \<and> map_option read_nat (sample_value ''gateway_auth_failures_total{type="truncated"}'' body) = Some (unat (auth_failures_truncated m))
    \<and> map_option read_nat (sample_value ''gateway_rekey_total'' body) = Some (unat (rekey_total m))
    \<and> map_option read_nat (sample_value ''gateway_replay_detected_total'' body) = Some (unat (replay_detected_total m))\<close>
proof -
  obtain p50 p95 p99 n where "latency_summary m = Ret (p50, p95, p99, n)"
    using assms(2) by (auto simp: render_def split: outcome.splits)
  then have "body = concat (map (\<lambda>l. l @ [CHR 0x0A]) (metric_lines show_f64 m p50 p95 p99 n))"
    using assms(2) by (auto simp: render_def)
  moreover have "list_all (\<lambda>l. CHR 0x0A \<notin> set l) (metric_lines show_f64 m p50 p95 p99 n)"
    using assms(1) by (simp add: metric_lines_def)
  ultimately have lines: "lines_of body = metric_lines show_f64 m p50 p95 p99 n"
    by (simp only: lines_of_concat)
  show ?thesis
    by (intro conjI) (simp_all add: sample_value_def lines metric_lines_def show_u64_def)
qed

theorem metrics_scrape_roundtrip_witness:
  "\<exists>body. render (\<lambda>_. ''0'') (inc_rekey metrics_new) = (inc_rekey metrics_new, Ret body)
     \<and> map_option read_nat (sample_value ''gateway_rekey_total'' body) = Some 1"
proof -
  obtain body where r: "render (\<lambda>_. ''0'') (inc_rekey metrics_new) = (inc_rekey metrics_new, Ret body)"
    by (simp add: render_def latency_summary_def inc_rekey_def metrics_new_def)
  moreover have "unat (rekey_total (inc_rekey metrics_new)) = 1" by (simp add: inc_rekey_def metrics_new_def)
  ultimately show ?thesis using metrics_scrape_roundtrip [OF _ r] by auto
qed

end
