(* ===== verification/Gateway_Server.thy ===== *)
theory Gateway_Server
  imports Steal Tcp_Handler Rust_Str Gateway_Auth Gateway_Limits Gateway_Metrics
begin

text \<open>
  The connection handling of \<open>gateway/src/main.rs\<close>: the prefixed stream, the decision on the first
  bytes of a connection, the authenticated client, and the relay. The TLS acceptor, the JWT
  library, the hex codec and the connection to a target are parameters, as are the random
  ephemeral secret and the clock.
\<close>

section \<open>The stream with its first bytes put back\<close>

record prefixed_stream =
  inner :: conn
  prefix :: bytes
  prefix_read :: nat

definition prefixed_new :: "conn \<Rightarrow> bytes \<Rightarrow> prefixed_stream" where
  "prefixed_new c p = \<lparr>inner = c, prefix = p, prefix_read = 0\<rparr>"

text \<open>One \<open>poll_read\<close> into a buffer with room for \<open>n\<close> bytes; the socket has \<open>k\<close> bytes ready.\<close>

definition prefixed_poll_read :: "nat \<Rightarrow> nat \<Rightarrow> prefixed_stream \<Rightarrow> prefixed_stream \<times> bytes" where
  "prefixed_poll_read n k s =
     (if prefix_read s < length (prefix s) then
        let remaining = drop (prefix_read s) (prefix s); to_copy = min (length remaining) n
        in (s\<lparr>prefix_read := prefix_read s + to_copy\<rparr>, take to_copy remaining)
      else
        let m = min n k; i = inp (inner s)
        in (s\<lparr>inner := (inner s)\<lparr>inp := i\<lparr>rbuf := drop m (rbuf i)\<rparr>\<rparr>\<rparr>, take m (rbuf i)))"

text \<open>
  Writes, flushes and the shutdown go to the socket. A write finds the socket in error, or ready for
  \<open>k\<close> bytes; after a shutdown the socket takes nothing more.
\<close>

definition prefixed_poll_write :: "io_error + nat \<Rightarrow> bytes \<Rightarrow> prefixed_stream \<Rightarrow> prefixed_stream \<times> (io_error + nat)" where
  "prefixed_poll_write ready buf s =
     (case ready of
        Inl e \<Rightarrow> (s, Inl e)
      | Inr k \<Rightarrow>
          let m = min (length buf) (case wroom (out (inner s)) of None \<Rightarrow> k | Some room \<Rightarrow> min k room); w = out (inner s)
          in (s\<lparr>inner := (inner s)\<lparr>out := w\<lparr>wbuf := wbuf w @ take m buf, wroom := map_option (\<lambda>r. r - m) (wroom w)\<rparr>\<rparr>\<rparr>, Inr m))"

definition prefixed_poll_flush :: "prefixed_stream \<Rightarrow> prefixed_stream \<times> (io_error + unit)" where
  "prefixed_poll_flush s = (case flush (out (inner s)) of (w, res) \<Rightarrow> (s\<lparr>inner := (inner s)\<lparr>out := w\<rparr>\<rparr>, res))"

definition prefixed_poll_shutdown :: "prefixed_stream \<Rightarrow> prefixed_stream \<times> (io_error + unit)" where
  "prefixed_poll_shutdown s = (s\<lparr>inner := (inner s)\<lparr>out := (out (inner s))\<lparr>wroom := Some 0\<rparr>\<rparr>\<rparr>, Inr ())"

text \<open>What TLS does with the stream: the bytes its reads returned and those its writes placed.\<close>

datatype stream_op = PollRead nat nat | PollWrite "io_error + nat" bytes | PollFlush | PollShutdown

fun prefixed_exec :: "prefixed_stream \<Rightarrow> stream_op \<Rightarrow> prefixed_stream \<times> bytes \<times> bytes" where
  "prefixed_exec s (PollRead n k) = (case prefixed_poll_read n k s of (s, bs) \<Rightarrow> (s, bs, []))"
| "prefixed_exec s (PollWrite ready buf) =
     (case prefixed_poll_write ready buf s of (s, Inl e) \<Rightarrow> (s, [], []) | (s, Inr m) \<Rightarrow> (s, [], take m buf))"
| "prefixed_exec s PollFlush = (fst (prefixed_poll_flush s), [], [])"
| "prefixed_exec s PollShutdown = (fst (prefixed_poll_shutdown s), [], [])"

fun prefixed_run :: "stream_op list \<Rightarrow> prefixed_stream \<Rightarrow> prefixed_stream \<times> bytes \<times> bytes" where
  "prefixed_run [] s = (s, [], [])"
| "prefixed_run (x # xs) s =
     (case prefixed_exec s x of (s, rs, ws) \<Rightarrow>
        case prefixed_run xs s of (s, rs', ws') \<Rightarrow> (s, rs @ rs', ws @ ws'))"

text \<open>What a reader of the stream can still see.\<close>

definition prefixed_view :: "prefixed_stream \<Rightarrow> bytes" where
  "prefixed_view s = drop (prefix_read s) (prefix s) @ rbuf (inp (inner s))"

lemma prefixed_poll_view:
  "snd (prefixed_poll_read n k s) @ prefixed_view (fst (prefixed_poll_read n k s)) = prefixed_view s"
proof (cases "prefix_read s < length (prefix s)")
  case True
  let ?r = "drop (prefix_read s) (prefix s)"
  have "take k ?r @ drop (prefix_read s + k) (prefix s) = ?r" for k
    using append_take_drop_id [of k ?r] by (simp only: drop_drop add.commute)
  then show ?thesis using True
    by (simp add: prefixed_poll_read_def prefixed_view_def Let_def del: append_assoc add: append_assoc [symmetric])
next
  case False
  then show ?thesis by (simp add: prefixed_poll_read_def prefixed_view_def Let_def)
qed

lemma prefixed_poll_read_out: "out (inner (fst (prefixed_poll_read n k s))) = out (inner s)"
  by (simp add: prefixed_poll_read_def Let_def)

lemma prefixed_exec_split:
  assumes "prefixed_exec s x = (s', rs, ws)"
  shows "rs @ prefixed_view s' = prefixed_view s" and "wbuf (out (inner s')) = wbuf (out (inner s)) @ ws"
proof -
  have "rs @ prefixed_view s' = prefixed_view s \<and> wbuf (out (inner s')) = wbuf (out (inner s)) @ ws"
  proof (cases x)
    case (PollRead n k)
    with assms prefixed_poll_view [of n k s] prefixed_poll_read_out [of n k s] show ?thesis
      by (cases "prefixed_poll_read n k s") auto
  next
    case (PollWrite ready buf)
    with assms show ?thesis
      by (cases ready) (auto simp: prefixed_poll_write_def prefixed_view_def Let_def)
  qed (use assms in \<open>auto simp: prefixed_poll_flush_def prefixed_poll_shutdown_def flush_def prefixed_view_def\<close>)
  then show "rs @ prefixed_view s' = prefixed_view s" "wbuf (out (inner s')) = wbuf (out (inner s)) @ ws" by auto
qed

lemma prefixed_run_split:
  "prefixed_run xs s = (s', rs, ws) \<Longrightarrow>
     rs @ prefixed_view s' = prefixed_view s \<and> wbuf (out (inner s')) = wbuf (out (inner s)) @ ws"
proof (induction xs arbitrary: s s' rs ws)
  case (Cons x xs)
  obtain s1 r1 w1 where x: "prefixed_exec s x = (s1, r1, w1)" by (metis prod_cases3)
  obtain s2 r2 w2 where xs: "prefixed_run xs s1 = (s2, r2, w2)" by (metis prod_cases3)
  from Cons.IH [OF xs] prefixed_exec_split [OF x] Cons.prems x xs show ?case by auto
qed simp

section \<open>The decision on a new connection\<close>

record gateway_env =
  tls_accept :: "bytes \<Rightarrow> io_error + conn"
  env_jwt :: jwt_lib
  env_hex_encode :: "bytes \<Rightarrow> string"
  env_now :: int
  env_server_key :: bytes
  env_client_psk :: bytes
  env_auth :: auth_manager
  test_mode :: bool

text \<open>What the handler does after the first bytes: proxy to the CDN, serve, reject, or fail.\<close>

datatype verdict =
    Fallback bytes
  | Serve conn frame_codec claims
  | Rejected conn transport_error
  | Failed transport_error

definition send_unified_error_tls :: "conn \<Rightarrow> conn" where
  "send_unified_error_tls c = (case write_all (bytes_of ''ERR'') (out c) of
     (w, _) \<Rightarrow> c\<lparr>out := fst (flush w)\<rparr>)"

definition validate_subscription_token :: "gateway_env \<Rightarrow> string \<Rightarrow> claims option" where
  "validate_subscription_token G token =
     (case validate_token (env_jwt G) (env_now G) (env_auth G) token of Inl e \<Rightarrow> None | Inr c \<Rightarrow> Some c)"

definition get_rate_limit_from_claims :: "claims \<Rightarrow> u64" where
  "get_rate_limit_from_claims c = rate_limit_bps c"

definition test_claims :: "gateway_env \<Rightarrow> string \<Rightarrow> claims" where
  "test_claims G s = \<lparr>sub = s, user_id = ''test_user'', tier = ''pro'', rate_limit_bps = 3 * 1024 * 1024,
     exp_at = env_now G + 86400, iat = env_now G\<rparr>"

text \<open>
  The claims of a connection. The handler has two arms: one for a first record with a token, and one
  that test mode takes without it, where the claims are fixed.
\<close>

definition production_claims :: "gateway_env \<Rightarrow> bytes \<Rightarrow> claims option" where
  "production_claims G ephemeral_public =
     (let jwt_token = env_hex_encode G (take 8 ephemeral_public) in
      if test_mode G then Some (test_claims G jwt_token) else validate_subscription_token G jwt_token)"

definition connection_claims :: "gateway_env \<Rightarrow> bool \<Rightarrow> bytes \<Rightarrow> claims option" where
  "connection_claims G token_found ephemeral_public =
     (if token_found then production_claims G ephemeral_public else Some (test_claims G ''test''))"

text \<open>
  The session phase that both arms share: the authentication frame, the token, the answer. The
  metric of invalid tokens goes up with a refused one.
\<close>

definition gateway_session ::
  "kex \<Rightarrow> bytes \<Rightarrow> gateway_env \<Rightarrow> bool \<Rightarrow> conn \<Rightarrow> 'f metrics \<Rightarrow> 'f metrics \<times> verdict" where
  "gateway_session K es G token_found c m =
     (case read_auth_frame (inp c) of
        (r, Inl e) \<Rightarrow> (m, Failed e)
      | (r, Inr (ephemeral_public, auth_token, c2s, s2c)) \<Rightarrow>
          let c = c\<lparr>inp := r\<rparr> in
          (case server_derive_session K es (env_server_key G) ephemeral_public auth_token (env_client_psk G) of
             None \<Rightarrow> (inc_auth_failure ''invalid'' m, Rejected (send_unified_error_tls c) AuthFailed)
           | Some (server_ephemeral_public, key) \<Rightarrow>
               (case write_all server_ephemeral_public (out c) of
                  (w, Inl e) \<Rightarrow> (m, Failed (Io e))
                | (w, Inr _) \<Rightarrow>
                    (case flush w of
                       (w, Inl e) \<Rightarrow> (m, Failed (Io e))
                     | (w, Inr _) \<Rightarrow>
                         let c = c\<lparr>out := w\<rparr> in
                         (case connection_claims G token_found ephemeral_public of
                            Some cl \<Rightarrow> (m, Serve c (codec_new key s2c c2s 0) cl)
                          | None \<Rightarrow> (m, Rejected (send_unified_error_tls c) AuthFailed))))))"

definition accept_and_serve ::
  "kex \<Rightarrow> bytes \<Rightarrow> gateway_env \<Rightarrow> bool \<Rightarrow> bytes \<Rightarrow> 'f metrics \<Rightarrow> 'f metrics \<times> verdict" where
  "accept_and_serve K es G token_found hello m =
     (case tls_accept G hello of
        Inl e \<Rightarrow> (m, Failed (Protocol (''TLS accept failed: '' @ io_msg e)))
      | Inr c \<Rightarrow> gateway_session K es G token_found c m)"

text \<open>The first argument is the outcome of the first read of the socket.\<close>

definition handle_tcp_connection ::
  "io_error + bytes \<Rightarrow> kex \<Rightarrow> bytes \<Rightarrow> gateway_env \<Rightarrow> 'f metrics \<Rightarrow> ('f metrics \<times> verdict) outcome" where
  "handle_tcp_connection first K es G m =
     (case first of
        Inl e \<Rightarrow> Ret (m, Failed (Io e))
      | Inr client_hello_data \<Rightarrow>
          if client_hello_data = [] then Ret (m, Failed (Protocol ''empty connection''))
          else
            (case extract_auth_from_clienthello client_hello_data of
               Panic \<Rightarrow> Panic
             | Ret (Some (auth_token, _)) \<Rightarrow> Ret (accept_and_serve K es G True client_hello_data m)
             | Ret None \<Rightarrow>
                 if test_mode G
                 then Ret (accept_and_serve K es G False client_hello_data m)
                 else Ret (m, Fallback client_hello_data)))"

text \<open>The task of a connection: the gauge goes up before it and down after it, unless it panics.\<close>

definition connection_task ::
  "io_error + bytes \<Rightarrow> kex \<Rightarrow> bytes \<Rightarrow> gateway_env \<Rightarrow> 'f metrics \<Rightarrow> 'f metrics" where
  "connection_task first K es G m =
     (let m = inc_connections_total (inc_connections_active m) in
      case handle_tcp_connection first K es G m of
        Panic \<Rightarrow> m
      | Ret (m, v) \<Rightarrow> dec_connections_active m)"

section \<open>The authenticated client\<close>

datatype client_outcome =
    Tunnel conn frame_codec server_rate_limiter bytes
  | ClientError conn frame_codec transport_error

text \<open>The target connection is a parameter; the limiter is created at the instant \<open>now\<close>.\<close>

definition handle_authenticated_client ::
  "aead \<Rightarrow> (bytes \<Rightarrow> io_error + unit) \<Rightarrow> nat \<Rightarrow> conn \<Rightarrow> frame_codec \<Rightarrow> claims \<Rightarrow> client_outcome" where
  "handle_authenticated_client A connect_target now c codec cl =
     (case read_frame A codec (inp c) of
        (codec, r, Inl e) \<Rightarrow> ClientError (c\<lparr>inp := r\<rparr>) codec e
      | (codec, r, Inr cmd) \<Rightarrow>
          let c = c\<lparr>inp := r\<rparr> in
          if \<not> utf8_valid cmd then ClientError c codec (Protocol ''invalid CONNECT frame'')
          else if \<not> starts_with cmd (bytes_of ''CONNECT '') then
            (case write_frame A codec (out c) (bytes_of ''ERR'') of
               (codec, w, Inl e) \<Rightarrow> ClientError (c\<lparr>out := w\<rparr>) codec e
             | (codec, w, Inr _) \<Rightarrow>
                 ClientError (c\<lparr>out := w\<rparr>) codec (Protocol (''unexpected command: '' @ string_of cmd)))
          else
            let target = str_trim (trim_start_matches (bytes_of ''CONNECT '') cmd) in
            (case connect_target target of
               Inl e \<Rightarrow>
                 (case write_frame A codec (out c) (bytes_of ''ERR'') of
                    (codec, w, Inl e') \<Rightarrow> ClientError (c\<lparr>out := w\<rparr>) codec e'
                  | (codec, w, Inr _) \<Rightarrow> ClientError (c\<lparr>out := w\<rparr>) codec (Io e))
             | Inr _ \<Rightarrow>
                 (case write_frame A codec (out c) (bytes_of ''OK'') of
                    (codec, w, Inl e) \<Rightarrow> ClientError (c\<lparr>out := w\<rparr>) codec e
                  | (codec, w, Inr _) \<Rightarrow>
                      Tunnel (c\<lparr>out := w\<rparr>) codec (server_limiter_new (get_rate_limit_from_claims cl) now) target)))"

section \<open>The relay\<close>

text \<open>
  One turn of the gateway's relay loop. A turn that reads the target first drops a pending
  \<open>read_frame\<close> with the bytes it had taken (their number is part of the event); an idle timeout
  ends the relay. The rekey branch takes the key that would be drawn.
\<close>

record gw_relay =
  gw_codec :: frame_codec
  gw_conn :: conn
  gw_target :: writer
  gw_limit :: server_rate_limiter

datatype gw_event =
    FromClient "nat list" bytes
  | FromTarget nat "nat list" "io_error + bytes"
  | IdleTimeout

datatype 'f gw_turn =
    GwRunning gw_relay "'f metrics"
  | GwClosed gw_relay "'f metrics" "transport_error + unit"
  | GwWaiting gw_relay

definition gw_rekey :: "aead \<Rightarrow> gw_relay \<Rightarrow> 'f metrics \<Rightarrow> bytes \<Rightarrow> 'f gw_turn" where
  "gw_rekey A g m new_key =
     (let new_kid = codec_kid (gw_codec g) + 1 in
      case send_rekey_init A (gw_codec g) (out (gw_conn g)) new_kid new_key of
        (c, w, Inl e) \<Rightarrow> GwClosed (g\<lparr>gw_codec := c, gw_conn := (gw_conn g)\<lparr>out := w\<rparr>\<rparr>) m (Inr ())
      | (c, w, Inr _) \<Rightarrow>
          (case server_handle_rekey_ack A c (inp (gw_conn g)) new_kid new_key of
             (c, r, Inl e) \<Rightarrow> GwClosed (g\<lparr>gw_codec := c, gw_conn := (gw_conn g)\<lparr>out := w, inp := r\<rparr>\<rparr>) m (Inr ())
           | (c, r, Inr _) \<Rightarrow> GwRunning (g\<lparr>gw_codec := c, gw_conn := (gw_conn g)\<lparr>out := w, inp := r\<rparr>\<rparr>) (inc_rekey m)))"

fun gw_step :: "aead \<Rightarrow> gw_relay \<Rightarrow> 'f metrics \<Rightarrow> gw_event \<Rightarrow> 'f gw_turn" where
  "gw_step A g m (FromClient polls drawn_key) =
     (case read_frame A (gw_codec g) (inp (gw_conn g)) of
        (c, r, res) \<Rightarrow>
          let g = g\<lparr>gw_codec := c, gw_conn := (gw_conn g)\<lparr>inp := r\<rparr>\<rparr> in
          (case res of
             Inr data \<Rightarrow>
               (case wait_until server_try_consume (of_nat (length data)) polls (gw_limit g) of
                  None \<Rightarrow> GwWaiting g
                | Some (l, _) \<Rightarrow>
                    let g = g\<lparr>gw_limit := l\<rparr> in
                    (case write_all data (gw_target g) of
                       (w, Inl e) \<Rightarrow> GwClosed (g\<lparr>gw_target := w\<rparr>) m (Inl (Io e))
                     | (w, Inr _) \<Rightarrow> GwRunning (g\<lparr>gw_target := w\<rparr>) m))
           | Inl (Io e) \<Rightarrow> GwClosed g m (if io_kind e = UnexpectedEof then Inr () else Inl (Io e))
           | Inl (ReplayDetected n) \<Rightarrow> GwClosed g (inc_replay_detected m) (Inr ())
           | Inl (RekeyNeeded n t) \<Rightarrow> gw_rekey A g m drawn_key
           | Inl e \<Rightarrow> GwClosed g m (Inl e)))"
| "gw_step A g m (FromTarget lost polls res) =
     (let g = g\<lparr>gw_conn := (gw_conn g)\<lparr>inp := (inp (gw_conn g))\<lparr>rbuf := drop lost (rbuf (inp (gw_conn g)))\<rparr>\<rparr>\<rparr> in
      case res of
        Inl e \<Rightarrow> GwClosed g m (Inl (Io e))
      | Inr bs \<Rightarrow>
          if bs = [] then GwClosed g m (Inr ())
          else
            (case wait_until server_try_consume (of_nat (length bs)) polls (gw_limit g) of
               None \<Rightarrow> GwWaiting g
             | Some (l, _) \<Rightarrow>
                 let g = g\<lparr>gw_limit := l\<rparr> in
                 (case write_frame A (gw_codec g) (out (gw_conn g)) bs of
                    (c, w, Inl e) \<Rightarrow> GwClosed (g\<lparr>gw_codec := c, gw_conn := (gw_conn g)\<lparr>out := w\<rparr>\<rparr>) m (Inl e)
                  | (c, w, Inr _) \<Rightarrow> GwRunning (g\<lparr>gw_codec := c, gw_conn := (gw_conn g)\<lparr>out := w\<rparr>\<rparr>) m)))"
| "gw_step A g m IdleTimeout = GwClosed g m (Inr ())"

section \<open>Lemmas\<close>

lemma gateway_session_Serve:
  assumes "gateway_session K es G found c m = (m', Serve c' codec cl)"
  shows "\<exists>pk tok c2s s2c resp key. snd (read_auth_frame (inp c)) = Inr (pk, tok, c2s, s2c)
    \<and> tok = kx_hkdf K (kx_dh K (env_server_key G) pk @ env_client_psk G) AUTH_INFO
    \<and> server_derive_session K es (env_server_key G) pk tok (env_client_psk G) = Some (resp, key)
    \<and> wbuf (out c') = wbuf (out c) @ resp
    \<and> codec = codec_new key s2c c2s 0 \<and> connection_claims G found pk = Some cl \<and> m' = m"
proof -
  obtain r res where ra: "read_auth_frame (inp c) = (r, res)" by fastforce
  obtain pk tok c2s s2c where res: "res = Inr (pk, tok, c2s, s2c)"
    using assms ra by (cases res) (auto simp: gateway_session_def)
  obtain resp key where d: "server_derive_session K es (env_server_key G) pk tok (env_client_psk G) = Some (resp, key)"
    using assms ra res
    by (cases "server_derive_session K es (env_server_key G) pk tok (env_client_psk G)")
      (auto simp: gateway_session_def Let_def)
  have "tok = kx_hkdf K (kx_dh K (env_server_key G) pk @ env_client_psk G) AUTH_INFO"
    using d by (auto simp: server_derive_session_def auth_token_for_def Let_def split: if_splits)
  moreover obtain w where w: "write_all resp (out c) = (w, Inr ())" "wflush w"
    using assms ra res d
    by (auto simp: gateway_session_def Let_def flush_def split: prod.splits sum.splits if_splits)
  moreover have "c' = c\<lparr>inp := r, out := w\<rparr> \<and> codec = codec_new key s2c c2s 0 \<and> connection_claims G found pk = Some cl \<and> m' = m"
    using assms ra res d w
    by (auto simp: gateway_session_def Let_def flush_def split: option.splits)
  ultimately show ?thesis using ra res d write_all_InrD [OF w(1)] by auto
qed

lemma handle_tcp_Serve:
  assumes "handle_tcp_connection first K es G m = Ret (m', Serve c codec cl)"
  shows "\<exists>hello c0 found. first = Inr hello \<and> tls_accept G hello = Inr c0
    \<and> gateway_session K es G found c0 m = (m', Serve c codec cl)
    \<and> (test_mode G \<or> found)"
  using assms
  by (auto simp: handle_tcp_connection_def accept_and_serve_def split: sum.splits if_splits outcome.splits option.splits)

lemma read_frame_kid: "codec_kid (fst (read_frame A c r)) = codec_kid c"
  using read_op_cstate [of A c r] by (simp add: codec_kid_def split: if_splits)

lemma write_frame_kid: "codec_kid (fst (write_frame A c w p)) = codec_kid c"
  by (simp add: write_frame_codec codec_kid_def)

lemma read_frame_not_rekey: "snd (snd (read_frame A c r)) \<noteq> Inl (RekeyNeeded n t)"
proof
  assume "snd (snd (read_frame A c r)) = Inl (RekeyNeeded n t)"
  then have "read_frame A c r = (fst (read_frame A c r), fst (snd (read_frame A c r)), Inl (RekeyNeeded n t))"
    by (metis prod.collapse)
  from read_frame_error_kinds [OF this] show False by auto
qed

section \<open>Properties\<close>

text \<open>
  The stream handed to TLS is the connection as it was: whatever sequence of reads, writes, flushes
  and shutdowns it sees, with whatever buffers and whatever the socket has ready, the bytes read so
  far followed by those still to come are the saved first bytes followed by the rest of the
  connection, none lost, repeated or reordered, and the socket has transmitted exactly the bytes
  that the writes reported as written.
\<close>

theorem prefixed_stream_is_transparent:
  "case prefixed_run xs (prefixed_new c p) of
     (s, rs, ws) \<Rightarrow> rs @ prefixed_view s = p @ rbuf (inp c) \<and> wbuf (out (inner s)) = wbuf (out c) @ ws"
  using prefixed_run_split [of xs "prefixed_new c p"]
  by (simp add: prefixed_new_def prefixed_view_def split: prod.split)

text \<open>
  C14. The gateway serves only clients that prove the pre-shared key: whatever the first bytes and
  the TLS stream hold, a connection is served only if the token it sent is the expansion of the
  shared secret of the server's key with the sent ephemeral key and the pre-shared key; the codec
  of the served connection holds the session key derived for that ephemeral key, with the
  prefixes the client sent, and the server's ephemeral key is what was transmitted.
\<close>

theorem served_clients_know_the_psk:
  assumes "handle_tcp_connection first K es G m = Ret (m', Serve c codec cl)"
  shows "\<exists>hello c0 pk tok c2s s2c. first = Inr hello \<and> tls_accept G hello = Inr c0
    \<and> snd (read_auth_frame (inp c0)) = Inr (pk, tok, c2s, s2c)
    \<and> tok = kx_hkdf K (kx_dh K (env_server_key G) pk @ env_client_psk G) AUTH_INFO
    \<and> codec = codec_new (kx_hkdf K (kx_dh K es pk) SESSION_INFO) s2c c2s 0
    \<and> wbuf (out c) = wbuf (out c0) @ kx_public K es"
proof -
  obtain hello c0 found where hc: "first = Inr hello" "tls_accept G hello = Inr c0"
      "gateway_session K es G found c0 m = (m', Serve c codec cl)"
    using handle_tcp_Serve [OF assms] by blast
  obtain pk tok c2s s2c resp key where s: "snd (read_auth_frame (inp c0)) = Inr (pk, tok, c2s, s2c)"
      "tok = kx_hkdf K (kx_dh K (env_server_key G) pk @ env_client_psk G) AUTH_INFO"
      "server_derive_session K es (env_server_key G) pk tok (env_client_psk G) = Some (resp, key)"
      "wbuf (out c) = wbuf (out c0) @ resp" "codec = codec_new key s2c c2s 0"
    using gateway_session_Serve [OF hc(3)] by blast
  then have "resp = kx_public K es" "key = kx_hkdf K (kx_dh K es pk) SESSION_INFO"
    by (auto simp: server_derive_session_def Let_def split: if_splits)
  with hc s show ?thesis by blast
qed

text \<open>A gateway whose TLS layer hands over a stream with the given bytes.\<close>

definition toy_jwt :: jwt_lib where
  "toy_jwt = \<lparr>jwt_encode = (\<lambda>s c. Some ''a.b.c''), jwt_decode = (\<lambda>s t now. Inl JwtOther), plus_days = (\<lambda>t d. Some (t + 86400 * d))\<rparr>"

definition sample_gateway :: "bool \<Rightarrow> bytes \<Rightarrow> gateway_env" where
  "sample_gateway test bs = \<lparr>tls_accept = (\<lambda>hello. Inr \<lparr>inp = cursor bs, out = vec_writer\<rparr>), env_jwt = toy_jwt,
     env_hex_encode = (\<lambda>b. map (\<lambda>_. CHR ''0'') b), env_now = 0, env_server_key = [6], env_client_psk = [8],
     env_auth = auth_new ''secret'' [1], test_mode = test\<rparr>"

definition sample_auth :: bytes where
  "sample_auth = auth_frame toy_kex [7] (replicate 8 1) (replicate 8 2) (kx_public toy_kex [6]) [8]"

theorem served_clients_know_the_psk_witness:
  "\<exists>m' c codec cl. handle_tcp_connection (Inr [0]) toy_kex [5] (sample_gateway True sample_auth) (metrics_new :: nat metrics)
      = Ret (m', Serve c codec cl)
    \<and> (\<exists>pk c2s s2c. codec = codec_new (kx_hkdf toy_kex (kx_dh toy_kex [5] pk) SESSION_INFO) s2c c2s 0)"
proof -
  have "(case handle_tcp_connection (Inr [0]) toy_kex [5] (sample_gateway True sample_auth) (metrics_new :: nat metrics) of
      Ret (m', Serve c codec cl) \<Rightarrow> True | _ \<Rightarrow> False)" by code_simp
  then obtain m' c codec cl where h: "handle_tcp_connection (Inr [0]) toy_kex [5] (sample_gateway True sample_auth)
      (metrics_new :: nat metrics) = Ret (m', Serve c codec cl)"
    by (auto split: outcome.splits prod.splits verdict.splits)
  from served_clients_know_the_psk [OF h] h show ?thesis by blast
qed

text \<open>
  C38. In production the gateway serves nobody: the subscription token it validates is the hex form
  of eight key bytes, which has no dot, and a JWT has three parts separated by dots. With a
  decoder that refuses texts without a dot, every connection outside test mode ends without a
  session, also that of a client with the right pre-shared key.
\<close>

theorem production_serves_nobody:
  assumes "\<not> test_mode G"
    and "\<And>secret token now. CHR ''.'' \<notin> set token \<Longrightarrow> \<exists>e. jwt_decode (env_jwt G) secret token now = Inl e"
    and "\<And>b. CHR ''.'' \<notin> set (env_hex_encode G b)"
  shows "handle_tcp_connection first K es G m \<noteq> Ret (m', Serve c codec cl)"
proof
  assume "handle_tcp_connection first K es G m = Ret (m', Serve c codec cl)"
  then obtain c0 where "gateway_session K es G True c0 m = (m', Serve c codec cl)"
    using handle_tcp_Serve [of first K es G m m' c codec cl] assms(1) by auto
  then obtain pk where "production_claims G pk = Some cl"
    using gateway_session_Serve [of K es G True c0 m m' c codec cl] by (auto simp: connection_claims_def)
  then have "validate_token (env_jwt G) (env_now G) (env_auth G) (env_hex_encode G (take 8 pk)) = Inr cl"
    using assms(1) by (auto simp: production_claims_def validate_subscription_token_def Let_def split: sum.splits)
  moreover obtain e where "jwt_decode (env_jwt G) (jwt_secret (env_auth G)) (env_hex_encode G (take 8 pk)) (env_now G) = Inl e"
    using assms(2) [OF assms(3)] by blast
  ultimately show False by (cases e) (auto simp: validate_token_def)
qed

theorem production_serves_nobody_witness:
  "handle_tcp_connection (Inr [0x16, 3, 1, 0, 9]) toy_kex [5] (sample_gateway False sample_auth) (metrics_new :: nat metrics)
     \<noteq> Ret (metrics_new, Serve \<lparr>inp = cursor [], out = vec_writer\<rparr> sample_codec (test_claims (sample_gateway False []) ''x''))"
  by (rule production_serves_nobody) (auto simp: sample_gateway_def toy_jwt_def)

text \<open>
  Before TLS nothing is authenticated: any first bytes in which the parser finds a session
  identifier of 32 bytes or more, as ordinary TLS clients send, take the gateway's own TLS
  handshake and never the fallback to the CDN, in production as in test mode.
\<close>

theorem any_long_session_id_skips_fallback:
  assumes "extract_auth_from_clienthello hello = Ret (Some (tok, orig))"
  shows "handle_tcp_connection (Inr hello) K es G m = Ret (accept_and_serve K es G True hello m)
    \<and> handle_tcp_connection (Inr hello) K es G m \<noteq> Ret (m', Fallback data)"
proof -
  have "hello \<noteq> []" using assms by (auto simp: extract_auth_from_clienthello_def hello_consts)
  then have eq: "handle_tcp_connection (Inr hello) K es G m = Ret (accept_and_serve K es G True hello m)"
    using assms by (simp add: handle_tcp_connection_def)
  moreover have "accept_and_serve K es G True hello m \<noteq> (m', Fallback data)"
    by (auto simp: accept_and_serve_def gateway_session_def Let_def split: sum.splits prod.splits option.splits)
  ultimately show ?thesis by simp
qed

theorem any_long_session_id_skips_fallback_witness:
  "handle_tcp_connection (Inr (client_hello_record (client_hello_body [3, 3] (replicate 32 7) (replicate 32 9) [0, 0, 0]) @ []))
     toy_kex [5] (sample_gateway False []) (metrics_new :: nat metrics) \<noteq> Ret (metrics_new, Fallback [])"
proof -
  have "extract_auth_from_clienthello (client_hello_record (client_hello_body [3, 3] (replicate 32 7) (replicate 32 9) [0, 0, 0]) @ [])
      = Ret (Some (replicate 32 9, client_hello_record (client_hello_body [3, 3] (replicate 32 7) (replicate 32 9) [0, 0, 0]) @ []))"
    by code_simp
  from any_long_session_id_skips_fallback [OF this] show ?thesis by blast
qed

text \<open>
  A malformed first record leaks the gauge: when the parser panics, the connection's task dies
  after raising the gauge of active connections and never lowers it; every other connection
  leaves the gauge where it was.
\<close>

theorem panic_leaks_active_gauge:
  fixes m :: "'f metrics"
  shows "connections_active (connection_task (Inr hello) K es G m) =
    (if hello \<noteq> [] \<and> extract_auth_from_clienthello hello = Panic then connections_active m + 1 else connections_active m)"
proof -
  let ?m = "inc_connections_total (inc_connections_active m)"
  have keeps: "connections_active (fst (accept_and_serve K es G found hello ?m)) = connections_active ?m" for found
    by (auto simp: accept_and_serve_def gateway_session_def inc_auth_failure_def Let_def
        split: sum.split prod.split option.split)
  show ?thesis
    using keeps
    by (auto simp: connection_task_def handle_tcp_connection_def inc_connections_active_def
        inc_connections_total_def dec_connections_active_def Let_def split: outcome.split option.split prod.split)
      (metis add_diff_cancel_right' fst_conv)+
qed

text \<open>
  The relay of the gateway never rekeys: no turn, whatever it reads, completes a rekey, since
  reading never reports that one is needed; the counter of rekeys never moves.
\<close>

theorem gateway_relay_never_rekeys:
  "(case gw_step A g m x of
      GwRunning g' m' \<Rightarrow> rekey_total m' = rekey_total m \<and> codec_kid (gw_codec g') = codec_kid (gw_codec g)
    | GwClosed g' m' res \<Rightarrow> rekey_total m' = rekey_total m
    | GwWaiting g' \<Rightarrow> True)"
proof (cases x)
  case (FromClient polls key)
  obtain c r res where rf: "read_frame A (gw_codec g) (inp (gw_conn g)) = (c, r, res)" by (metis prod_cases3)
  have "codec_kid c = codec_kid (gw_codec g)" using read_frame_kid [of A "gw_codec g" "inp (gw_conn g)"] rf by simp
  moreover have "res \<noteq> Inl (RekeyNeeded n t)" for n t
    using read_frame_not_rekey [of A "gw_codec g" "inp (gw_conn g)" n t] rf by simp
  ultimately show ?thesis
    using FromClient rf
    by (auto simp: Let_def inc_replay_detected_def split: sum.split transport_error.split option.split prod.split)
next
  case (FromTarget lost polls res)
  obtain c w res' where wf: "write_frame A (gw_codec g) (out (gw_conn g)) (projr res) = (c, w, res')" by (metis prod_cases3)
  have "codec_kid c = codec_kid (gw_codec g)"
    using write_frame_kid [of A "gw_codec g" "out (gw_conn g)" "projr res"] wf by simp
  then show ?thesis
    using FromTarget wf by (cases res; cases res') (auto simp: Let_def split: option.split prod.split)
qed simp

end
