(* ===== verification/Tunnel.thy ===== *)
theory Tunnel
  imports Proxy Gateway_Server "HOL-Library.Sublist"
begin

text \<open>
  The two relays together: the relay of \<open>transport-core/src/proxy.rs\<close>, the relay of
  \<open>gateway/src/main.rs\<close> and the connection between them. Either relay takes its turns when the
  branch of its \<open>select!\<close> is ready, and the network moves bytes between them in pieces of any size,
  in any interleaving. The specification is a pair of byte pipes.
\<close>

section \<open>The specification: two pipes\<close>

record duplex =
  up_sent :: bytes
  up_got :: bytes
  down_sent :: bytes
  down_got :: bytes

definition duplex_init :: "duplex \<Rightarrow> bool" where
  "duplex_init d \<longleftrightarrow> d = \<lparr>up_sent = [], up_got = [], down_sent = [], down_got = []\<rparr>"

text \<open>A side adds bytes to its pipe, or the other end takes bytes that are next in it.\<close>

inductive duplex_step :: "duplex \<Rightarrow> duplex \<Rightarrow> bool" where
  up_send: "duplex_step d (d\<lparr>up_sent := up_sent d @ bs\<rparr>)"
| up_take: "up_sent d = up_got d @ bs @ rest \<Longrightarrow> duplex_step d (d\<lparr>up_got := up_got d @ bs\<rparr>)"
| down_send: "duplex_step d (d\<lparr>down_sent := down_sent d @ bs\<rparr>)"
| down_take: "down_sent d = down_got d @ bs @ rest \<Longrightarrow> duplex_step d (d\<lparr>down_got := down_got d @ bs\<rparr>)"

section \<open>The tunnel\<close>

text \<open>
  Both relays with what the network has moved of the bytes each has written. The bytes that the
  local client and the target have handed over are history; \<open>ts_base\<close> is the length of what the
  local client had received before the relay started. \<open>RELAY_BUF\<close> is the size of both read buffers.
  \<open>ts_intact\<close> is history too: no pending \<open>read_frame\<close> has been dropped half way and the target has
  sent no chunk that starts with the rekey magic.
\<close>

definition RELAY_BUF :: nat where
  "RELAY_BUF = 8192"

record 'f tunnel_sys =
  ts_client :: relay_state
  ts_gw :: gw_relay
  ts_metrics :: "'f metrics"
  ts_up_moved :: nat
  ts_down_moved :: nat
  ts_from_client :: bytes
  ts_from_target :: bytes
  ts_base :: nat
  ts_client_open :: bool
  ts_gw_open :: bool
  ts_intact :: bool

definition up_flight :: "'f tunnel_sys \<Rightarrow> bytes" where
  "up_flight s = drop (ts_up_moved s) (wbuf (rl_gw_out (ts_client s)))"

definition down_flight :: "'f tunnel_sys \<Rightarrow> bytes" where
  "down_flight s = drop (ts_down_moved s) (wbuf (out (gw_conn (ts_gw s))))"

text \<open>A pending \<open>read_frame\<close> is ready when a whole frame, or a bad header, has arrived.\<close>

definition frame_ready :: "reader \<Rightarrow> bool" where
  "frame_ready r \<longleftrightarrow> 5 \<le> length (rbuf r) \<and>
     (case check_header (take 5 (rbuf r)) of Inl e \<Rightarrow> True | Inr n \<Rightarrow> 5 + n \<le> length (rbuf r))"

text \<open>
  The turns a relay can take. A read of the local side gives at most one buffer; it drops the
  pending \<open>read_frame\<close> of the other branch together with the bytes that one has already taken, any
  number of them that is no whole frame. A read of the tunnel needs a frame, or the end of a closed
  connection.
\<close>

definition half_read :: "reader \<Rightarrow> nat \<Rightarrow> bool" where
  "half_read r lost \<longleftrightarrow> lost \<le> length (rbuf r) \<and> \<not> frame_ready (r\<lparr>rbuf := take lost (rbuf r)\<rparr>)"

definition client_enabled :: "'f tunnel_sys \<Rightarrow> relay_event \<Rightarrow> bool" where
  "client_enabled s x \<longleftrightarrow> ts_client_open s \<and>
     (case x of
        ClientRead lost polls res \<Rightarrow> half_read (rl_gw_in (ts_client s)) lost
          \<and> (case res of Inl e \<Rightarrow> True | Inr bs \<Rightarrow> length bs \<le> RELAY_BUF)
      | GatewayRead polls \<Rightarrow>
          frame_ready (rl_gw_in (ts_client s)) \<or> (\<not> ts_gw_open s \<and> down_flight s = []))"

definition gw_enabled :: "'f tunnel_sys \<Rightarrow> gw_event \<Rightarrow> bool" where
  "gw_enabled s x \<longleftrightarrow> ts_gw_open s \<and>
     (case x of
        FromClient polls key \<Rightarrow>
          frame_ready (inp (gw_conn (ts_gw s))) \<or> (\<not> ts_client_open s \<and> up_flight s = [])
      | FromTarget lost polls res \<Rightarrow> half_read (inp (gw_conn (ts_gw s))) lost
          \<and> (case res of Inl e \<Rightarrow> True | Inr bs \<Rightarrow> length bs \<le> RELAY_BUF)
      | IdleTimeout \<Rightarrow> True)"

text \<open>The turns that leave the tunnel intact.\<close>

fun client_keeps :: "relay_event \<Rightarrow> bool" where
  "client_keeps (ClientRead lost polls res) \<longleftrightarrow> lost = 0"
| "client_keeps (GatewayRead polls) \<longleftrightarrow> True"

fun gw_keeps :: "gw_event \<Rightarrow> bool" where
  "gw_keeps (FromTarget lost polls res) \<longleftrightarrow> lost = 0 \<and>
     (case res of Inl e \<Rightarrow> True | Inr bs \<Rightarrow> take (length REKEY_INIT_MAGIC) bs \<noteq> REKEY_INIT_MAGIC)"
| "gw_keeps (FromClient polls key) \<longleftrightarrow> True"
| "gw_keeps IdleTimeout \<longleftrightarrow> True"

fun client_input :: "relay_event \<Rightarrow> bytes" where
  "client_input (ClientRead lost polls (Inr bs)) = bs"
| "client_input _ = []"

fun target_input :: "gw_event \<Rightarrow> bytes" where
  "target_input (FromTarget lost polls (Inr bs)) = bs"
| "target_input _ = []"

text \<open>A turn that still waits for its limiter has not happened yet.\<close>

definition client_turn :: "aead \<Rightarrow> 'f tunnel_sys \<Rightarrow> relay_event \<Rightarrow> 'f tunnel_sys option" where
  "client_turn A s x =
     (let s' = s\<lparr>ts_intact := ts_intact s \<and> client_keeps x, ts_from_client := ts_from_client s @ client_input x\<rparr> in
      case relay_step A (ts_client s) x of
        Running st \<Rightarrow> Some (s'\<lparr>ts_client := st\<rparr>)
      | Closed st r \<Rightarrow> Some (s'\<lparr>ts_client := st, ts_client_open := False\<rparr>)
      | Waiting st \<Rightarrow> None)"

definition gw_turn :: "aead \<Rightarrow> 'f tunnel_sys \<Rightarrow> gw_event \<Rightarrow> 'f tunnel_sys option" where
  "gw_turn A s x =
     (let s' = s\<lparr>ts_intact := ts_intact s \<and> gw_keeps x, ts_from_target := ts_from_target s @ target_input x\<rparr> in
      case gw_step A (ts_gw s) (ts_metrics s) x of
        GwRunning g m \<Rightarrow> Some (s'\<lparr>ts_gw := g, ts_metrics := m\<rparr>)
      | GwClosed g m r \<Rightarrow> Some (s'\<lparr>ts_gw := g, ts_metrics := m, ts_gw_open := False\<rparr>)
      | GwWaiting g \<Rightarrow> None)"

definition move_up :: "nat \<Rightarrow> 'f tunnel_sys \<Rightarrow> 'f tunnel_sys" where
  "move_up n s =
     (let g = ts_gw s; i = inp (gw_conn g) in
      s\<lparr>ts_up_moved := ts_up_moved s + n,
        ts_gw := g\<lparr>gw_conn := (gw_conn g)\<lparr>inp := i\<lparr>rbuf := rbuf i @ take n (up_flight s)\<rparr>\<rparr>\<rparr>\<rparr>)"

definition move_down :: "nat \<Rightarrow> 'f tunnel_sys \<Rightarrow> 'f tunnel_sys" where
  "move_down n s =
     (let c = ts_client s; i = rl_gw_in c in
      s\<lparr>ts_down_moved := ts_down_moved s + n,
        ts_client := c\<lparr>rl_gw_in := i\<lparr>rbuf := rbuf i @ take n (down_flight s)\<rparr>\<rparr>\<rparr>)"

inductive tunnel_step :: "aead \<Rightarrow> 'f tunnel_sys \<Rightarrow> 'f tunnel_sys \<Rightarrow> bool" for A where
  client: "client_enabled s x \<Longrightarrow> client_turn A s x = Some t \<Longrightarrow> tunnel_step A s t"
| gateway: "gw_enabled s x \<Longrightarrow> gw_turn A s x = Some t \<Longrightarrow> tunnel_step A s t"
| up: "n \<le> length (up_flight s) \<Longrightarrow> tunnel_step A s (move_up n s)"
| down: "n \<le> length (down_flight s) \<Longrightarrow> tunnel_step A s (move_down n s)"

definition tunnel_init :: "'f tunnel_sys \<Rightarrow> bool" where
  "tunnel_init s \<longleftrightarrow>
     linked (rl_codec (ts_client s)) (gw_codec (ts_gw s)) \<and> linked (gw_codec (ts_gw s)) (rl_codec (ts_client s))
     \<and> unat (send_counter (rl_codec (ts_client s))) \<le> unat REKEY_THRESHOLD
     \<and> unat (send_counter (gw_codec (ts_gw s))) \<le> unat REKEY_THRESHOLD
     \<and> rbuf (rl_gw_in (ts_client s)) = [] \<and> rbuf (inp (gw_conn (ts_gw s))) = []
     \<and> healthy (rl_gw_out (ts_client s)) \<and> healthy (out (gw_conn (ts_gw s)))
     \<and> ts_up_moved s = length (wbuf (rl_gw_out (ts_client s))) \<and> ts_down_moved s = length (wbuf (out (gw_conn (ts_gw s))))
     \<and> ts_from_client s = [] \<and> ts_from_target s = [] \<and> wbuf (gw_target (ts_gw s)) = []
     \<and> ts_base s = length (wbuf (rl_client (ts_client s))) \<and> ts_client_open s \<and> ts_gw_open s
     \<and> ts_intact s"

definition tunnel_abs :: "'f tunnel_sys \<Rightarrow> duplex" where
  "tunnel_abs s =
     \<lparr>up_sent = ts_from_client s, up_got = wbuf (gw_target (ts_gw s)),
      down_sent = ts_from_target s, down_got = drop (ts_base s) (wbuf (rl_client (ts_client s)))\<rparr>"

text \<open>The relays as the two handlers start them: with nothing of the sessions still on the wire.\<close>

definition tunnel_start ::
  "tunnel \<Rightarrow> writer \<Rightarrow> token_bucket option \<Rightarrow> conn \<Rightarrow> frame_codec \<Rightarrow> server_rate_limiter \<Rightarrow> writer \<Rightarrow> 'f metrics \<Rightarrow> 'f tunnel_sys" where
  "tunnel_start tn sock limit c codec l target m =
     \<lparr>ts_client = \<lparr>rl_codec = tn_codec tn, rl_client = sock, rl_gw_in = tn_in tn, rl_gw_out = tn_out tn, rl_limit = limit\<rparr>,
      ts_gw = \<lparr>gw_codec = codec, gw_conn = c, gw_target = target, gw_limit = l\<rparr>,
      ts_metrics = m, ts_up_moved = length (wbuf (tn_out tn)), ts_down_moved = length (wbuf (out c)),
      ts_from_client = [], ts_from_target = [], ts_base = length (wbuf sock), ts_client_open = True, ts_gw_open = True, ts_intact = True\<rparr>"

section \<open>One direction\<close>

text \<open>What a sender has put on the wire for a list of chunks.\<close>

abbreviation bump :: "frame_codec \<Rightarrow> frame_codec" where
  "bump c \<equiv> c\<lparr>send_counter := send_counter c + 1\<rparr>"

fun wire :: "aead \<Rightarrow> frame_codec \<Rightarrow> bytes list \<Rightarrow> bytes" where
  "wire A c [] = []"
| "wire A c (p # ps) = sealed A c p @ wire A (bump c) ps"

text \<open>Two codecs that send alike.\<close>

definition sends_like :: "frame_codec \<Rightarrow> frame_codec \<Rightarrow> bool" where
  "sends_like s t \<longleftrightarrow> send_prefix s = send_prefix t \<and> kid (cstate s) = kid (cstate t)
     \<and> cipher (cstate s) = cipher (cstate t) \<and> send_counter s = send_counter t"

text \<open>
  The frames \<open>ps\<close> are under way to the receiver \<open>r\<close>: the first was sealed by a codec linked to \<open>r\<close>, the
  bytes are what that codec wrote, and the counter did not pass the threshold.
\<close>

definition under_way :: "aead \<Rightarrow> frame_codec \<Rightarrow> frame_codec \<Rightarrow> bytes \<Rightarrow> bytes list \<Rightarrow> bool" where
  "under_way A s0 r buf ps \<longleftrightarrow> linked s0 r \<and> buf = wire A s0 ps \<and> (\<forall>p \<in> set ps. length p \<le> MAX_PAYLOAD)
     \<and> unat (send_counter s0) + length ps \<le> unat REKEY_THRESHOLD"

definition next_sender :: "frame_codec \<Rightarrow> nat \<Rightarrow> frame_codec \<Rightarrow> bool" where
  "next_sender s0 n s \<longleftrightarrow> sends_like s (s0\<lparr>send_counter := send_counter s0 + of_nat n\<rparr>)"

lemma sealed_cong: "sends_like s t \<Longrightarrow> sealed A s p = sealed A t p"
  by (simp add: sealed_def sends_like_def)

lemma wire_append: "wire A c (ps @ [p]) = wire A c ps @ sealed A (c\<lparr>send_counter := send_counter c + of_nat (length ps)\<rparr>) p"
proof (induction ps arbitrary: c)
  case (Cons q ps)
  then show ?case by (simp add: add.assoc)
qed simp

lemma under_way_send:
  assumes "under_way A s0 r buf ps" and "next_sender s0 (length ps) s" and "length p \<le> MAX_PAYLOAD"
    and "send_counter s < REKEY_THRESHOLD"
  shows "under_way A s0 r (buf @ sealed A s p) (ps @ [p])" and "next_sender s0 (length (ps @ [p])) (bump s)"
proof -
  have c: "send_counter s = send_counter s0 + of_nat (length ps)" using assms(2) by (simp add: next_sender_def sends_like_def)
  have le: "unat (send_counter s0) + length ps \<le> unat REKEY_THRESHOLD" using assms(1) by (simp add: under_way_def)
  then have "unat (send_counter s) = unat (send_counter s0) + length ps"
    unfolding c by (simp add: unat_word_ariths(1) unat_of_nat REKEY_THRESHOLD_def)
  then have "unat (send_counter s0) + length (ps @ [p]) \<le> unat REKEY_THRESHOLD"
    using assms(4) by (simp add: word_less_nat_alt)
  moreover have "sealed A s p = sealed A (s0\<lparr>send_counter := send_counter s0 + of_nat (length ps)\<rparr>) p"
    using assms(2) by (intro sealed_cong) (simp add: next_sender_def)
  ultimately show "under_way A s0 r (buf @ sealed A s p) (ps @ [p])"
    using assms(1,3) by (auto simp: under_way_def wire_append)
  show "next_sender s0 (length (ps @ [p])) (bump s)"
    using assms(2) by (simp add: next_sender_def sends_like_def algebra_simps)
qed

lemma frame_header:
  assumes "aead_correct A" and "length p \<le> MAX_PAYLOAD"
  shows "length (sealed A s p) = 26 + length p" and "check_header (take 5 (sealed A s p)) = Inr (21 + length p)"
proof -
  obtain ct where ct: "aead_encrypt A (cipher (cstate s)) (frame_nonce (send_prefix s) (send_counter s)) p = Some ct"
      "length ct = length p + TAG_SIZE"
    using aead_correctE [OF assms, of "cipher (cstate s)"] by metis
  have sl: "sealed A s p = frame_bytes (kid (cstate s)) (send_counter s) ct" using ct(1) by (simp add: sealed_def)
  show "length (sealed A s p) = 26 + length p" using ct(2) by (simp add: sl length_frame_bytes TAG_SIZE_def)
  show "check_header (take 5 (sealed A s p)) = Inr (21 + length p)"
    unfolding sl using check_header_frame [of ct] ct(2) assms(2) by (simp add: TAG_SIZE_def)
qed

text \<open>A ready receiver reads the first of the frames under way; with none under way it is not ready.\<close>

lemma under_way_ready:
  assumes "aead_correct A" and "under_way A s0 r (rbuf i @ fl) ps" and "frame_ready i"
  obtains p qs rest where "ps = p # qs" "rbuf i = sealed A s0 p @ rest"
proof (cases ps)
  case Nil
  then show ?thesis using assms(2,3) by (simp add: under_way_def frame_ready_def)
next
  case (Cons p qs)
  have p: "length p \<le> MAX_PAYLOAD" and w: "rbuf i @ fl = sealed A s0 p @ wire A (bump s0) qs"
    using assms(2) Cons by (auto simp: under_way_def)
  have five: "5 \<le> length (rbuf i)" using assms(3) by (simp add: frame_ready_def)
  have "take 5 (rbuf i) = take 5 (rbuf i @ fl)" using five by simp
  also have "\<dots> = take 5 (sealed A s0 p)" unfolding w using frame_header(1) [OF assms(1) p, of s0] by simp
  finally have "26 + length p \<le> length (rbuf i)"
    using assms(3) frame_header(2) [OF assms(1) p, of s0] by (simp add: frame_ready_def)
  then have "take (26 + length p) (rbuf i) = take (26 + length p) (rbuf i @ fl)" by simp
  also have "\<dots> = sealed A s0 p" unfolding w using frame_header(1) [OF assms(1) p, of s0] by simp
  finally have "rbuf i = sealed A s0 p @ drop (26 + length p) (rbuf i)" by (metis append_take_drop_id)
  with Cons show ?thesis by (rule that)
qed

lemma under_way_receive:
  assumes A: "aead_correct A" and uw: "under_way A s0 r (rbuf i @ fl) (p # qs)" and buf: "rbuf i = sealed A s0 p @ rest"
  defines "r' \<equiv> r\<lparr>recv_replay := fst (replay_check (recv_replay r) (send_counter s0)), cstate := count_overlap (cstate r)\<rparr>"
  shows "read_frame A r i = (r', i\<lparr>rbuf := rest\<rparr>, Inr p)" and "under_way A (bump s0) r' (rest @ fl) qs"
    and "next_sender s0 (length (p # qs)) s \<Longrightarrow> next_sender (bump s0) (length qs) s"
proof -
  have n: "unat (send_counter s0) + Suc (length qs) \<le> unat REKEY_THRESHOLD" and p: "length p \<le> MAX_PAYLOAD" and l: "linked s0 r"
    using uw by (auto simp: under_way_def)
  note c = counter_succ_bound [OF n]
  have lt: "send_counter s0 < REKEY_THRESHOLD" using n by (simp add: word_less_nat_alt)
  show "read_frame A r i = (r', i\<lparr>rbuf := rest\<rparr>, Inr p)"
    unfolding r'_def by (rule read_sealed [OF A p lt linked_can_open [OF l] buf])
  show "under_way A (bump s0) r' (rest @ fl) qs"
    using uw c linked_step [OF l lt] by (auto simp: under_way_def buf r'_def)
  show "next_sender s0 (length (p # qs)) s \<Longrightarrow> next_sender (bump s0) (length qs) s"
    by (simp add: next_sender_def sends_like_def add.assoc)
qed

text \<open>
  The state of one direction: what was got is a prefix of what was sent; as long as the receiver is
  open, the rest is under way, up to a last chunk that a sender may have failed to write.
\<close>

definition channel :: "aead \<Rightarrow> (bytes \<Rightarrow> bool) \<Rightarrow> frame_codec \<Rightarrow> bool \<Rightarrow> frame_codec \<Rightarrow> bool \<Rightarrow> bytes \<Rightarrow> bytes \<Rightarrow> bytes \<Rightarrow> bool" where
  "channel A ok s so r ro buf sent got \<longleftrightarrow> prefix got sent \<and>
     (ro \<longrightarrow> (\<exists>s0 ps extra. under_way A s0 r buf ps \<and> (\<forall>p \<in> set ps. ok p) \<and> sent = got @ concat ps @ extra
        \<and> (so \<longrightarrow> extra = [] \<and> next_sender s0 (length ps) s)))"

lemma channel_start:
  "linked s r \<Longrightarrow> unat (send_counter s) \<le> unat REKEY_THRESHOLD \<Longrightarrow> channel A ok s so r ro [] [] []"
  unfolding channel_def by (auto intro!: exI [of _ s] exI [of _ "[]"] simp: under_way_def next_sender_def sends_like_def)

lemma channel_send:
  assumes "channel A ok s so r ro buf sent got" and so and "length p \<le> MAX_PAYLOAD" and "ok p"
    and "send_counter s < REKEY_THRESHOLD"
  shows "channel A ok (bump s) so r ro (buf @ sealed A s p) (sent @ p) got"
proof -
  have pre: "prefix got (sent @ p)" using assms(1) by (simp add: channel_def)
  show ?thesis
  proof (cases ro)
    case True
    then obtain s0 ps where uw: "under_way A s0 r buf ps" "\<forall>p \<in> set ps. ok p" "sent = got @ concat ps" "next_sender s0 (length ps) s"
      using assms(1,2) by (auto simp: channel_def)
    from under_way_send [OF uw(1,4) assms(3,5)] uw(2,3) pre assms(4) show ?thesis
      unfolding channel_def by (auto intro!: exI [of _ s0] exI [of _ "ps @ [p]"])
  next
    case False
    then show ?thesis using pre by (simp add: channel_def)
  qed
qed

lemma channel_sender_closes: "channel A ok s so r ro buf sent got \<Longrightarrow> channel A ok s' False r ro buf (sent @ bs) got"
  unfolding channel_def by (metis append.assoc prefix_append)

lemma channel_sender_cong: "sends_like s' s \<Longrightarrow> channel A ok s' so r ro buf sent got = channel A ok s so r ro buf sent got"
  by (simp add: channel_def next_sender_def sends_like_def)

lemma channel_receiver_cong:
  assumes "recv_prefix r' = recv_prefix r" and "kid (cstate r') = kid (cstate r)"
    and "cipher (cstate r') = cipher (cstate r)" and "recv_replay r' = recv_replay r"
  shows "channel A ok s so r' ro buf sent got = channel A ok s so r ro buf sent got"
  using assms by (simp add: channel_def under_way_def linked_def)

lemma channel_receiver_closes: "prefix got sent \<Longrightarrow> channel A ok s so r False buf sent got"
  by (simp add: channel_def)

lemma channel_prefix: "channel A ok s so r ro buf sent got \<Longrightarrow> prefix got sent"
  by (simp add: channel_def)

lemma channel_receive:
  assumes A: "aead_correct A" and ch: "channel A ok s so r True (rbuf i @ fl) sent got" and "frame_ready i"
  obtains p r' rest where "read_frame A r i = (r', i\<lparr>rbuf := rest\<rparr>, Inr p)" "ok p" "prefix (got @ p) sent"
    "channel A ok s so r' True (rest @ fl) sent (got @ p)" "sends_like r' r" "length rest < length (rbuf i)"
proof -
  obtain s0 ps extra where uw: "under_way A s0 r (rbuf i @ fl) ps" "\<forall>p \<in> set ps. ok p" "sent = got @ concat ps @ extra"
      "so \<longrightarrow> extra = [] \<and> next_sender s0 (length ps) s"
    using ch by (auto simp: channel_def)
  obtain p qs rest where p: "ps = p # qs" "rbuf i = sealed A s0 p @ rest" by (rule under_way_ready [OF A uw(1) assms(3)])
  note rd = under_way_receive [OF A uw(1) [unfolded p(1)] p(2)]
  show thesis
  proof (rule that [OF rd(1)])
    show "ok p" "prefix (got @ p) sent" using uw(2,3) p(1) by auto
    show "length rest < length (rbuf i)"
      using p frame_header(1) [OF A, of p s0] uw(1) by (simp add: under_way_def)
    show "channel A ok s so (r\<lparr>recv_replay := fst (replay_check (recv_replay r) (send_counter s0)), cstate := count_overlap (cstate r)\<rparr>)
        True (rest @ fl) sent (got @ p)"
      unfolding channel_def using rd(2,3) uw(2-4) p(1) by (auto intro!: exI [of _ "bump s0"] exI [of _ qs])
  qed (simp add: sends_like_def)
qed

text \<open>A read at the end of the stream with no whole frame left fails and closes the relay.\<close>

lemma channel_end:
  assumes A: "aead_correct A" and ch: "channel A ok s so r True (rbuf i) sent got" and "\<not> frame_ready i"
  shows "rbuf i = []"
proof -
  obtain s0 ps where uw: "under_way A s0 r (rbuf i) ps" using ch by (auto simp: channel_def)
  show ?thesis
  proof (cases ps)
    case (Cons p qs)
    have p: "length p \<le> MAX_PAYLOAD" and w: "rbuf i = sealed A s0 p @ wire A (bump s0) qs"
      using uw Cons by (auto simp: under_way_def)
    have "frame_ready i" using frame_header [OF A p, of s0] by (simp add: frame_ready_def w)
    with assms(3) show ?thesis ..
  qed (use uw in \<open>simp add: under_way_def\<close>)
qed

section \<open>The turns of the relays\<close>

definition one_buffer :: "bytes \<Rightarrow> bool" where
  "one_buffer p \<longleftrightarrow> length p \<le> RELAY_BUF"

definition plain_chunk :: "bytes \<Rightarrow> bool" where
  "plain_chunk p \<longleftrightarrow> one_buffer p \<and> take (length REKEY_INIT_MAGIC) p \<noteq> REKEY_INIT_MAGIC"

lemma relay_buf_fits: "n \<le> RELAY_BUF \<Longrightarrow> n \<le> MAX_PAYLOAD"
  by (simp add: RELAY_BUF_def MAX_PAYLOAD_def)

lemma write_frame_healthy:
  assumes "aead_correct A" and "length p \<le> MAX_PAYLOAD" and "healthy w"
  shows "write_frame A c w p =
    (if send_counter c < REKEY_THRESHOLD then (bump c, w\<lparr>wbuf := wbuf w @ sealed A c p\<rparr>, Inr ())
     else (bump c, w, Inl (RekeyNeeded (send_counter c) REKEY_THRESHOLD)))"
proof (cases "send_counter c < REKEY_THRESHOLD")
  case True
  then show ?thesis using write_frame_ok [OF assms(1,2) _ assms(3), of c] by simp
next
  case False
  then show ?thesis using assms(2) by (simp add: write_frame_def Let_def not_less)
qed

lemma write_all_outcome:
  assumes "write_all p w = (w', res)"
  shows "\<exists>n. wbuf w' = wbuf w @ take n p \<and> (isl res \<or> take n p = p)"
proof (cases res)
  case (Inr u)
  then show ?thesis using write_all_InrD [of p w w'] assms by (auto intro: exI [of _ "length p"])
qed (use write_all_prefix [of p w] assms in auto)

lemma relay_wait_limit: "relay_wait st n polls = Some st' \<Longrightarrow> \<exists>l. st' = st\<lparr>rl_limit := l\<rparr>"
  by (cases "rl_limit st") (auto simp: relay_wait_def split: option.splits intro: exI [of _ "rl_limit st"])

lemma intact_update: "ts_intact s \<Longrightarrow> s\<lparr>ts_intact := True\<rparr> = s"
  by (cases s) simp

lemma client_turn_intact: "client_turn A s x = Some t \<Longrightarrow> ts_intact t \<longleftrightarrow> ts_intact s \<and> client_keeps x"
  by (auto simp: client_turn_def Let_def split: relay_turn.splits)

lemma gw_turn_intact: "gw_turn A s x = Some t \<Longrightarrow> ts_intact t \<longleftrightarrow> ts_intact s \<and> gw_keeps x"
  by (auto simp: gw_turn_def Let_def split: gw_turn.splits)

lemma client_read_turn:
  assumes "aead_correct A" and "healthy (rl_gw_out (ts_client s))" and "client_enabled s (ClientRead lost polls res)"
    and "client_turn A s (ClientRead lost polls res) = Some t" and "ts_intact t"
  obtains (sent) l bs where "length bs \<le> RELAY_BUF" "send_counter (rl_codec (ts_client s)) < REKEY_THRESHOLD"
      "t = s\<lparr>ts_client := (ts_client s)\<lparr>rl_codec := bump (rl_codec (ts_client s)),
         rl_gw_out := (rl_gw_out (ts_client s))\<lparr>wbuf := wbuf (rl_gw_out (ts_client s)) @ sealed A (rl_codec (ts_client s)) bs\<rparr>,
         rl_limit := l\<rparr>, ts_from_client := ts_from_client s @ bs\<rparr>"
  | (closed) c l bs where "t = s\<lparr>ts_client := (ts_client s)\<lparr>rl_codec := c, rl_limit := l\<rparr>,
         ts_from_client := ts_from_client s @ bs, ts_client_open := False\<rparr>"
proof -
  have lost: "lost = 0" and s: "s\<lparr>ts_intact := True\<rparr> = s"
    and i: "ts_intact s"
    using client_turn_intact [OF assms(4)] assms(5) by (simp_all add: intact_update)
  show thesis
  proof (cases res)
    case (Inl e)
    show thesis
      using assms(4) lost s i Inl closed [where bs = "[]" and c = "rl_codec (ts_client s)" and l = "rl_limit (ts_client s)"] by (simp add: client_turn_def)
  next
    case (Inr bs)
    have len: "length bs \<le> RELAY_BUF" using assms(3) Inr by (simp add: client_enabled_def)
    show thesis
    proof (cases "bs = []")
      case True
      then show thesis
        using assms(4) lost s i Inr closed [where bs = "[]" and c = "rl_codec (ts_client s)" and l = "rl_limit (ts_client s)"] by (simp add: client_turn_def)
    next
      case False
      then obtain st l where st: "relay_wait (ts_client s) (length bs) polls = Some st" "st = (ts_client s)\<lparr>rl_limit := l\<rparr>"
        using assms(4) lost s i Inr relay_wait_limit [of "ts_client s" "length bs" polls]
        by (cases "relay_wait (ts_client s) (length bs) polls") (force simp: client_turn_def)+
      show thesis
        using assms(4) lost s i Inr False st write_frame_healthy [OF assms(1) relay_buf_fits [OF len] assms(2)]
          sent [OF len, of l] closed [where bs = bs and c = "bump (rl_codec (ts_client s))" and l = l]
        by (auto simp: client_turn_def Let_def split: if_splits)
    qed
  qed
qed

lemma client_frame_turn:
  assumes "client_turn A s (GatewayRead polls) = Some t" and "plain_chunk p"
    and "read_frame A (rl_codec (ts_client s)) (rl_gw_in (ts_client s)) = (c, r, Inr p)"
  obtains l w n b where "t = s\<lparr>ts_client := (ts_client s)\<lparr>rl_codec := c, rl_gw_in := r, rl_client := w, rl_limit := l\<rparr>,
      ts_client_open := ts_client_open s \<and> b\<rparr>"
    "wbuf w = wbuf (rl_client (ts_client s)) @ take n p" "b \<longrightarrow> take n p = p" "healthy (rl_client (ts_client s)) \<longrightarrow> b"
    "relay_wait ((ts_client s)\<lparr>rl_codec := c, rl_gw_in := r\<rparr>) (length p) polls
       = Some ((ts_client s)\<lparr>rl_codec := c, rl_gw_in := r, rl_limit := l\<rparr>)" "healthy (rl_client (ts_client s)) \<longrightarrow> healthy w"
proof -
  let ?st = "(ts_client s)\<lparr>rl_codec := c, rl_gw_in := r\<rparr>"
  obtain st l where st: "relay_wait ?st (length p) polls = Some st" "st = ?st\<lparr>rl_limit := l\<rparr>"
    using assms relay_wait_limit [of ?st "length p" polls]
    by (cases "relay_wait ?st (length p) polls") (force simp: client_turn_def plain_chunk_def Let_def)+
  obtain w res where w: "write_all p (rl_client (ts_client s)) = (w, res)" by fastforce
  obtain n where n: "wbuf w = wbuf (rl_client (ts_client s)) @ take n p" "isl res \<or> take n p = p"
    using write_all_outcome [OF w] by blast
  have h: "healthy (rl_client (ts_client s)) \<longrightarrow> \<not> isl res \<and> healthy w" using w by (auto simp: write_all_healthy)
  have "t = s\<lparr>ts_client := (ts_client s)\<lparr>rl_codec := c, rl_gw_in := r, rl_client := w, rl_limit := l\<rparr>,
      ts_client_open := if isl res then False else ts_client_open s\<rparr>"
    using assms st w by (cases res) (auto simp: client_turn_def plain_chunk_def Let_def)
  then show thesis using n h st by (intro that [where w = w and l = l and b = "\<not> isl res" and n = n]) auto
qed

lemma gw_target_turn:
  assumes "aead_correct A" and "healthy (out (gw_conn (ts_gw s)))" and "gw_enabled s (FromTarget lost polls res)"
    and "gw_turn A s (FromTarget lost polls res) = Some t" and "ts_intact t"
  obtains (sent) l bs where "length bs \<le> RELAY_BUF" "plain_chunk bs" "send_counter (gw_codec (ts_gw s)) < REKEY_THRESHOLD"
      "t = s\<lparr>ts_gw := (ts_gw s)\<lparr>gw_codec := bump (gw_codec (ts_gw s)),
         gw_conn := (gw_conn (ts_gw s))\<lparr>out := (out (gw_conn (ts_gw s)))\<lparr>wbuf :=
           wbuf (out (gw_conn (ts_gw s))) @ sealed A (gw_codec (ts_gw s)) bs\<rparr>\<rparr>,
         gw_limit := l\<rparr>, ts_from_target := ts_from_target s @ bs\<rparr>"
  | (closed) c l bs where "t = s\<lparr>ts_gw := (ts_gw s)\<lparr>gw_codec := c, gw_limit := l\<rparr>,
         ts_from_target := ts_from_target s @ bs, ts_gw_open := False\<rparr>"
proof -
  have lost: "lost = 0" and s: "s\<lparr>ts_intact := True\<rparr> = s" and magic: "\<And>bs. res = Inr bs \<Longrightarrow> take (length REKEY_INIT_MAGIC) bs \<noteq> REKEY_INIT_MAGIC"
    and i: "ts_intact s"
    using gw_turn_intact [OF assms(4)] assms(5) by (simp_all add: intact_update)
  show thesis
  proof (cases res)
    case (Inl e)
    show thesis
      using assms(4) lost s i Inl closed [where bs = "[]" and c = "gw_codec (ts_gw s)" and l = "gw_limit (ts_gw s)"]
      by (simp add: gw_turn_def)
  next
    case (Inr bs)
    have len: "length bs \<le> RELAY_BUF" and plain: "plain_chunk bs" using assms(3) magic [OF Inr] Inr by (simp_all add: gw_enabled_def plain_chunk_def one_buffer_def)
    show thesis
    proof (cases "bs = []")
      case True
      then have "[] \<noteq> REKEY_INIT_MAGIC" using magic [OF Inr] by simp
      then show thesis
        using True assms(4) lost i Inr closed [where bs = "[]" and c = "gw_codec (ts_gw s)" and l = "gw_limit (ts_gw s)"]
        by (simp add: gw_turn_def s)
    next
      case False
      then obtain l n where l: "wait_until server_try_consume (of_nat (length bs)) polls (gw_limit (ts_gw s)) = Some (l, n)"
        using assms(4) lost s i Inr
        by (cases "wait_until server_try_consume (of_nat (length bs)) polls (gw_limit (ts_gw s))") (force simp: gw_turn_def)+
      show thesis
        using assms(4) lost s i Inr magic [OF Inr] False l write_frame_healthy [OF assms(1) relay_buf_fits [OF len] assms(2)]
          sent [OF len plain, of l] closed [where bs = bs and c = "bump (gw_codec (ts_gw s))" and l = l]
        by (auto simp: gw_turn_def Let_def split: if_splits)
    qed
  qed
qed

lemma gw_frame_turn:
  assumes "gw_turn A s (FromClient polls key) = Some t"
    and "read_frame A (gw_codec (ts_gw s)) (inp (gw_conn (ts_gw s))) = (c, r, Inr p)"
  obtains l w n b where "t = s\<lparr>ts_gw := (ts_gw s)\<lparr>gw_codec := c, gw_conn := (gw_conn (ts_gw s))\<lparr>inp := r\<rparr>, gw_target := w, gw_limit := l\<rparr>,
      ts_gw_open := ts_gw_open s \<and> b\<rparr>"
    "wbuf w = wbuf (gw_target (ts_gw s)) @ take n p" "b \<longrightarrow> take n p = p" "healthy (gw_target (ts_gw s)) \<longrightarrow> b"
    "\<exists>k. wait_until server_try_consume (of_nat (length p)) polls (gw_limit (ts_gw s)) = Some (l, k)"
    "healthy (gw_target (ts_gw s)) \<longrightarrow> healthy w"
proof -
  obtain l k where l: "wait_until server_try_consume (of_nat (length p)) polls (gw_limit (ts_gw s)) = Some (l, k)"
    using assms
    by (cases "wait_until server_try_consume (of_nat (length p)) polls (gw_limit (ts_gw s))") (force simp: gw_turn_def Let_def)+
  obtain w res where w: "write_all p (gw_target (ts_gw s)) = (w, res)" by fastforce
  obtain n where n: "wbuf w = wbuf (gw_target (ts_gw s)) @ take n p" "isl res \<or> take n p = p"
    using write_all_outcome [OF w] by blast
  have h: "healthy (gw_target (ts_gw s)) \<longrightarrow> \<not> isl res \<and> healthy w" using w by (auto simp: write_all_healthy)
  have "t = s\<lparr>ts_gw := (ts_gw s)\<lparr>gw_codec := c, gw_conn := (gw_conn (ts_gw s))\<lparr>inp := r\<rparr>, gw_target := w, gw_limit := l\<rparr>,
      ts_gw_open := if isl res then False else ts_gw_open s\<rparr>"
    using assms l w by (cases res) (auto simp: gw_turn_def Let_def)
  then show thesis using n h l by (intro that [where w = w and l = l and b = "\<not> isl res" and n = n]) auto
qed

section \<open>The invariant of the tunnel\<close>

definition up_channel :: "aead \<Rightarrow> 'f tunnel_sys \<Rightarrow> bool" where
  "up_channel A s \<longleftrightarrow> channel A one_buffer (rl_codec (ts_client s)) (ts_client_open s) (gw_codec (ts_gw s)) (ts_gw_open s)
     (rbuf (inp (gw_conn (ts_gw s))) @ up_flight s) (ts_from_client s) (wbuf (gw_target (ts_gw s)))"

definition down_channel :: "aead \<Rightarrow> 'f tunnel_sys \<Rightarrow> bool" where
  "down_channel A s \<longleftrightarrow> channel A plain_chunk (gw_codec (ts_gw s)) (ts_gw_open s) (rl_codec (ts_client s)) (ts_client_open s)
     (rbuf (rl_gw_in (ts_client s)) @ down_flight s) (ts_from_target s) (drop (ts_base s) (wbuf (rl_client (ts_client s))))"

definition wires_ok :: "'f tunnel_sys \<Rightarrow> bool" where
  "wires_ok s \<longleftrightarrow> healthy (rl_gw_out (ts_client s)) \<and> healthy (out (gw_conn (ts_gw s)))
     \<and> ts_up_moved s \<le> length (wbuf (rl_gw_out (ts_client s)))
     \<and> ts_down_moved s \<le> length (wbuf (out (gw_conn (ts_gw s))))
     \<and> ts_base s \<le> length (wbuf (rl_client (ts_client s)))"

definition tunnel_inv :: "aead \<Rightarrow> 'f tunnel_sys \<Rightarrow> bool" where
  "tunnel_inv A s \<longleftrightarrow> up_channel A s \<and> down_channel A s \<and> wires_ok s"

lemmas channel_defs = up_channel_def down_channel_def up_flight_def down_flight_def wires_ok_def tunnel_inv_def

lemma tunnel_inv_init: "tunnel_init s \<Longrightarrow> tunnel_inv A s"
  by (auto simp: tunnel_init_def channel_defs channel_start)

lemma flight_split: "take n (drop m w) @ drop (m + n) w = drop m w"
  by (metis add.commute append_take_drop_id drop_drop)

lemma tunnel_inv_move_up: "tunnel_inv A s \<Longrightarrow> n \<le> length (up_flight s) \<Longrightarrow> tunnel_inv A (move_up n s)"
  by (auto simp: channel_defs move_up_def Let_def flight_split)

lemma tunnel_inv_move_down: "tunnel_inv A s \<Longrightarrow> n \<le> length (down_flight s) \<Longrightarrow> tunnel_inv A (move_down n s)"
  by (auto simp: channel_defs move_down_def Let_def flight_split)

lemma sends_like_refl [simp]: "sends_like s s"
  by (simp add: sends_like_def)

lemma tunnel_inv_client_read:
  assumes A: "aead_correct A" and "tunnel_inv A s" and "client_enabled s (ClientRead lost polls res)"
    and "client_turn A s (ClientRead lost polls res) = Some t" and "ts_intact t"
  shows "tunnel_inv A t \<and> (\<exists>bs. tunnel_abs t = (tunnel_abs s)\<lparr>up_sent := up_sent (tunnel_abs s) @ bs\<rparr>)"
proof -
  have up: "up_channel A s" and down: "down_channel A s" and w: "wires_ok s" using assms(2) by (simp_all add: tunnel_inv_def)
  have h: "healthy (rl_gw_out (ts_client s))" and op: "ts_client_open s"
    using w assms(3) by (simp_all add: wires_ok_def client_enabled_def)
  from A h assms(3-5) show ?thesis
  proof (cases rule: client_read_turn)
    case (sent l bs)
    have "up_channel A t"
      using channel_send [OF up [unfolded up_channel_def] op relay_buf_fits [OF sent(1)] sent(1) [folded one_buffer_def] sent(2)] w op
      by (simp add: sent(3) up_channel_def up_flight_def wires_ok_def)
    moreover have "down_channel A t"
      using down channel_receiver_cong [of "bump (rl_codec (ts_client s))" "rl_codec (ts_client s)"]
      by (simp add: sent(3) down_channel_def down_flight_def)
    ultimately show ?thesis using w by (auto simp: sent(3) wires_ok_def tunnel_inv_def tunnel_abs_def)
  next
    case (closed c l bs)
    have "up_channel A t"
      using channel_sender_closes [OF up [unfolded up_channel_def]] by (simp add: closed up_channel_def up_flight_def)
    moreover have "down_channel A t"
      using channel_receiver_closes [OF channel_prefix [OF down [unfolded down_channel_def]]]
      by (simp add: closed down_channel_def down_flight_def)
    ultimately show ?thesis using w by (auto simp: closed wires_ok_def tunnel_inv_def tunnel_abs_def)
  qed
qed

lemma tunnel_inv_gw_target:
  assumes A: "aead_correct A" and "tunnel_inv A s" and "gw_enabled s (FromTarget lost polls res)"
    and "gw_turn A s (FromTarget lost polls res) = Some t" and "ts_intact t"
  shows "tunnel_inv A t \<and> (\<exists>bs. tunnel_abs t = (tunnel_abs s)\<lparr>down_sent := down_sent (tunnel_abs s) @ bs\<rparr>)"
proof -
  have up: "up_channel A s" and down: "down_channel A s" and w: "wires_ok s" using assms(2) by (simp_all add: tunnel_inv_def)
  have h: "healthy (out (gw_conn (ts_gw s)))" and op: "ts_gw_open s"
    using w assms(3) by (simp_all add: wires_ok_def gw_enabled_def)
  from A h assms(3-5) show ?thesis
  proof (cases rule: gw_target_turn)
    case (sent l bs)
    have "down_channel A t"
      using channel_send [OF down [unfolded down_channel_def] op relay_buf_fits [OF sent(1)] sent(2,3)] w op
      by (simp add: sent(4) down_channel_def down_flight_def wires_ok_def)
    moreover have "up_channel A t"
      using up channel_receiver_cong [of "bump (gw_codec (ts_gw s))" "gw_codec (ts_gw s)"]
      by (simp add: sent(4) up_channel_def up_flight_def)
    ultimately show ?thesis using w by (auto simp: sent(4) wires_ok_def tunnel_inv_def tunnel_abs_def)
  next
    case (closed c l bs)
    have "down_channel A t"
      using channel_sender_closes [OF down [unfolded down_channel_def]] by (simp add: closed down_channel_def down_flight_def)
    moreover have "up_channel A t"
      using channel_receiver_closes [OF channel_prefix [OF up [unfolded up_channel_def]]]
      by (simp add: closed up_channel_def up_flight_def)
    ultimately show ?thesis using w by (auto simp: closed wires_ok_def tunnel_inv_def tunnel_abs_def)
  qed
qed

lemma read_frame_empty: "rbuf i = [] \<Longrightarrow> read_frame A c i = (c, i\<lparr>rbuf := []\<rparr>, Inl (Io (rend i)))"
  by (simp add: read_frame_def read_exact_def TLS_RECORD_HEADER_SIZE_def)

lemma prefix_take: "prefix (got @ p) sent \<Longrightarrow> prefix (got @ take n p) sent"
  by (metis append_take_drop_id append.assoc append_prefixD)

lemma tunnel_inv_client_frame:
  assumes A: "aead_correct A" and "tunnel_inv A s" and "client_enabled s (GatewayRead polls)"
    and turn: "client_turn A s (GatewayRead polls) = Some t"
  shows "tunnel_inv A t \<and> (\<exists>bs. tunnel_abs t = (tunnel_abs s)\<lparr>down_got := down_got (tunnel_abs s) @ bs\<rparr>)"
proof -
  have up: "up_channel A s" and down: "down_channel A s" and w: "wires_ok s" using assms(2) by (simp_all add: tunnel_inv_def)
  have op: "ts_client_open s" using assms(3) by (simp add: client_enabled_def)
  have ch: "channel A plain_chunk (gw_codec (ts_gw s)) (ts_gw_open s) (rl_codec (ts_client s)) True
      (rbuf (rl_gw_in (ts_client s)) @ down_flight s) (ts_from_target s) (drop (ts_base s) (wbuf (rl_client (ts_client s))))"
    using down op by (simp add: down_channel_def)
  show ?thesis
  proof (cases "frame_ready (rl_gw_in (ts_client s))")
    case True
    obtain p r' rest where rd: "read_frame A (rl_codec (ts_client s)) (rl_gw_in (ts_client s)) =
          (r', (rl_gw_in (ts_client s))\<lparr>rbuf := rest\<rparr>, Inr p)"
        "plain_chunk p" "prefix (drop (ts_base s) (wbuf (rl_client (ts_client s))) @ p) (ts_from_target s)"
        "channel A plain_chunk (gw_codec (ts_gw s)) (ts_gw_open s) r' True (rest @ down_flight s) (ts_from_target s)
           (drop (ts_base s) (wbuf (rl_client (ts_client s))) @ p)" "sends_like r' (rl_codec (ts_client s))"
      by (rule channel_receive [OF A ch True])
    obtain l v n b where t: "t = s\<lparr>ts_client := (ts_client s)\<lparr>rl_codec := r', rl_gw_in := (rl_gw_in (ts_client s))\<lparr>rbuf := rest\<rparr>,
          rl_client := v, rl_limit := l\<rparr>, ts_client_open := ts_client_open s \<and> b\<rparr>"
        "wbuf v = wbuf (rl_client (ts_client s)) @ take n p" "b \<longrightarrow> take n p = p"
      by (rule client_frame_turn [OF turn rd(2,1)])
    have "up_channel A t"
    proof (cases b)
      case True
      then show ?thesis using up op channel_sender_cong [OF rd(5)] by (simp add: t(1) up_channel_def up_flight_def)
    next
      case False
      then show ?thesis using channel_sender_closes [OF up [unfolded up_channel_def], of r' "[]"]
        by (simp add: t(1) up_channel_def up_flight_def)
    qed
    moreover have "down_channel A t"
    proof (cases b)
      case True
      then show ?thesis using rd(4) t(2,3) w op by (simp add: t(1) down_channel_def down_flight_def wires_ok_def)
    next
      case False
      then show ?thesis using channel_receiver_closes [OF prefix_take [OF rd(3)]] t(2) w
        by (simp add: t(1) down_channel_def down_flight_def wires_ok_def)
    qed
    ultimately show ?thesis using w t(2) by (auto simp: t(1) wires_ok_def tunnel_inv_def tunnel_abs_def)
  next
    case False
    then have "down_flight s = []" using assms(3) by (simp add: client_enabled_def)
    with channel_end [OF A _ False] ch have "rbuf (rl_gw_in (ts_client s)) = []" by simp
    then have t: "t = s\<lparr>ts_client := (ts_client s)\<lparr>rl_gw_in := (rl_gw_in (ts_client s))\<lparr>rbuf := []\<rparr>\<rparr>, ts_client_open := False\<rparr>"
      using turn read_frame_empty by (simp add: client_turn_def)
    have "up_channel A t" using channel_sender_closes [OF up [unfolded up_channel_def], of _ "[]"]
      by (simp add: t up_channel_def up_flight_def)
    moreover have "down_channel A t" using channel_receiver_closes [OF channel_prefix [OF ch]]
      by (simp add: t down_channel_def down_flight_def)
    ultimately show ?thesis using w by (auto simp: t wires_ok_def tunnel_inv_def tunnel_abs_def intro: exI [of _ "[]"])
  qed
qed

lemma tunnel_inv_gw_frame:
  assumes A: "aead_correct A" and "tunnel_inv A s" and "gw_enabled s (FromClient polls key)"
    and turn: "gw_turn A s (FromClient polls key) = Some t"
  shows "tunnel_inv A t \<and> (\<exists>bs. tunnel_abs t = (tunnel_abs s)\<lparr>up_got := up_got (tunnel_abs s) @ bs\<rparr>)"
proof -
  have up: "up_channel A s" and down: "down_channel A s" and w: "wires_ok s" using assms(2) by (simp_all add: tunnel_inv_def)
  have op: "ts_gw_open s" using assms(3) by (simp add: gw_enabled_def)
  let ?i = "inp (gw_conn (ts_gw s))"
  have ch: "channel A one_buffer (rl_codec (ts_client s)) (ts_client_open s) (gw_codec (ts_gw s)) True
      (rbuf ?i @ up_flight s) (ts_from_client s) (wbuf (gw_target (ts_gw s)))"
    using up op by (simp add: up_channel_def)
  show ?thesis
  proof (cases "frame_ready ?i")
    case True
    obtain p r' rest where rd: "read_frame A (gw_codec (ts_gw s)) ?i = (r', ?i\<lparr>rbuf := rest\<rparr>, Inr p)" "one_buffer p"
        "prefix (wbuf (gw_target (ts_gw s)) @ p) (ts_from_client s)"
        "channel A one_buffer (rl_codec (ts_client s)) (ts_client_open s) r' True (rest @ up_flight s) (ts_from_client s)
           (wbuf (gw_target (ts_gw s)) @ p)" "sends_like r' (gw_codec (ts_gw s))"
      by (rule channel_receive [OF A ch True])
    obtain l v n b where t: "t = s\<lparr>ts_gw := (ts_gw s)\<lparr>gw_codec := r', gw_conn := (gw_conn (ts_gw s))\<lparr>inp := ?i\<lparr>rbuf := rest\<rparr>\<rparr>,
          gw_target := v, gw_limit := l\<rparr>, ts_gw_open := ts_gw_open s \<and> b\<rparr>"
        "wbuf v = wbuf (gw_target (ts_gw s)) @ take n p" "b \<longrightarrow> take n p = p"
      by (rule gw_frame_turn [OF turn rd(1)])
    have "down_channel A t"
    proof (cases b)
      case True
      then show ?thesis using down op channel_sender_cong [OF rd(5)] by (simp add: t(1) down_channel_def down_flight_def)
    next
      case False
      then show ?thesis using channel_sender_closes [OF down [unfolded down_channel_def], of r' "[]"]
        by (simp add: t(1) down_channel_def down_flight_def)
    qed
    moreover have "up_channel A t"
    proof (cases b)
      case True
      then show ?thesis using rd(4) t(2,3) w op by (simp add: t(1) up_channel_def up_flight_def wires_ok_def)
    next
      case False
      then show ?thesis using channel_receiver_closes [OF prefix_take [OF rd(3)]] t(2) w
        by (simp add: t(1) up_channel_def up_flight_def wires_ok_def)
    qed
    ultimately show ?thesis using w t(2) by (auto simp: t(1) wires_ok_def tunnel_inv_def tunnel_abs_def)
  next
    case False
    then have "up_flight s = []" using assms(3) by (simp add: gw_enabled_def)
    with channel_end [OF A _ False] ch have "rbuf ?i = []" by simp
    then have t: "t = s\<lparr>ts_gw := (ts_gw s)\<lparr>gw_conn := (gw_conn (ts_gw s))\<lparr>inp := ?i\<lparr>rbuf := []\<rparr>\<rparr>\<rparr>, ts_gw_open := False\<rparr>"
      using turn read_frame_empty by (simp add: gw_turn_def Let_def)
    have "down_channel A t" using channel_sender_closes [OF down [unfolded down_channel_def], of _ "[]"]
      by (simp add: t down_channel_def down_flight_def)
    moreover have "up_channel A t" using channel_receiver_closes [OF channel_prefix [OF ch]]
      by (simp add: t up_channel_def up_flight_def)
    ultimately show ?thesis using w by (auto simp: t wires_ok_def tunnel_inv_def tunnel_abs_def intro: exI [of _ "[]"])
  qed
qed

lemma tunnel_inv_idle:
  assumes "tunnel_inv A s" and "gw_turn A s IdleTimeout = Some t"
  shows "tunnel_inv A t \<and> tunnel_abs t = tunnel_abs s"
proof -
  have up: "up_channel A s" and down: "down_channel A s" and w: "wires_ok s" using assms(1) by (simp_all add: tunnel_inv_def)
  have t: "t = s\<lparr>ts_gw_open := False\<rparr>" using assms(2) by (simp add: gw_turn_def)
  have "down_channel A t" using channel_sender_closes [OF down [unfolded down_channel_def], of _ "[]"]
    by (simp add: t down_channel_def down_flight_def)
  moreover have "up_channel A t" using channel_receiver_closes [OF channel_prefix [OF up [unfolded up_channel_def]]]
    by (simp add: t up_channel_def up_flight_def)
  ultimately show ?thesis using w by (simp add: t wires_ok_def tunnel_inv_def tunnel_abs_def)
qed

lemma tunnel_inv_prefix:
  assumes "tunnel_inv A s"
  shows "prefix (up_got (tunnel_abs s)) (up_sent (tunnel_abs s))" and "prefix (down_got (tunnel_abs s)) (down_sent (tunnel_abs s))"
  using assms by (auto simp: tunnel_inv_def up_channel_def down_channel_def tunnel_abs_def dest: channel_prefix)

section \<open>The tunnel refines the two pipes\<close>

lemma tunnel_step_refines:
  assumes A: "aead_correct A" and inv: "tunnel_inv A s" and "tunnel_step A s t" and "ts_intact t"
  shows "tunnel_inv A t \<and> (tunnel_abs t = tunnel_abs s \<or> duplex_step (tunnel_abs s) (tunnel_abs t))"
  using assms(3)
proof (cases rule: tunnel_step.cases)
  case (client x)
  show ?thesis
  proof (cases x)
    case (ClientRead lost polls res)
    with tunnel_inv_client_read [OF A inv] client assms(4) show ?thesis by (metis duplex_step.up_send)
  next
    case (GatewayRead polls)
    then obtain bs where t: "tunnel_inv A t" "tunnel_abs t = (tunnel_abs s)\<lparr>down_got := down_got (tunnel_abs s) @ bs\<rparr>"
      using tunnel_inv_client_frame [OF A inv] client by blast
    with tunnel_inv_prefix(2) [OF t(1)] obtain rest where "down_sent (tunnel_abs s) = down_got (tunnel_abs s) @ bs @ rest"
      by (auto simp: prefix_def)
    with t show ?thesis by (metis duplex_step.down_take)
  qed
next
  case (gateway x)
  show ?thesis
  proof (cases x)
    case (FromTarget lost polls res)
    with tunnel_inv_gw_target [OF A inv] gateway assms(4) show ?thesis by (metis duplex_step.down_send)
  next
    case (FromClient polls key)
    then obtain bs where t: "tunnel_inv A t" "tunnel_abs t = (tunnel_abs s)\<lparr>up_got := up_got (tunnel_abs s) @ bs\<rparr>"
      using tunnel_inv_gw_frame [OF A inv] gateway by blast
    with tunnel_inv_prefix(1) [OF t(1)] obtain rest where "up_sent (tunnel_abs s) = up_got (tunnel_abs s) @ bs @ rest"
      by (auto simp: prefix_def)
    with t show ?thesis by (metis duplex_step.up_take)
  next
    case IdleTimeout
    with tunnel_inv_idle [OF inv] gateway show ?thesis by auto
  qed
next
  case (up n)
  then show ?thesis using tunnel_inv_move_up [OF inv] by (simp add: tunnel_abs_def move_up_def Let_def)
next
  case (down n)
  then show ?thesis using tunnel_inv_move_down [OF inv] by (simp add: tunnel_abs_def move_down_def Let_def)
qed

text \<open>
  The steps that leave the tunnel intact. Since no step repairs it, an intact state is reached by them
  alone.
\<close>

definition intact_step :: "aead \<Rightarrow> 'f tunnel_sys \<Rightarrow> 'f tunnel_sys \<Rightarrow> bool" where
  "intact_step A s t \<longleftrightarrow> tunnel_step A s t \<and> ts_intact t"

lemma tunnel_step_intact: "tunnel_step A s t \<Longrightarrow> ts_intact t \<Longrightarrow> ts_intact s"
  by (induction rule: tunnel_step.induct)
    (auto simp: client_turn_intact gw_turn_intact move_up_def move_down_def Let_def)

lemma reach_intact: "reach tunnel_init (tunnel_step A) s \<Longrightarrow> ts_intact s \<Longrightarrow> reach tunnel_init (intact_step A) s"
proof (induction rule: reach.induct)
  case (reach_step s t)
  then show ?case
    using tunnel_step_intact [of A s t] by (auto intro: reach.reach_step simp: intact_step_def)
qed (rule reach.reach_init)

text \<open>The network and the relays, for every cipher that decrypts what it encrypts.\<close>

interpretation pipes: refinement_map "\<lambda>s. aead_correct A \<and> tunnel_init s" "intact_step A"
    "\<lambda>s. aead_correct A \<and> tunnel_inv A s" duplex_init duplex_step tunnel_abs for A
proof
  fix s assume "aead_correct A \<and> tunnel_init s"
  then show "aead_correct A \<and> tunnel_inv A s" by (simp add: tunnel_inv_init)
next
  fix s t assume "aead_correct A \<and> tunnel_inv A s" and "intact_step A s t"
  then show "aead_correct A \<and> tunnel_inv A t" and "tunnel_abs t = tunnel_abs s \<or> duplex_step (tunnel_abs s) (tunnel_abs t)"
    using tunnel_step_refines unfolding intact_step_def by blast+
next
  fix s :: "'f tunnel_sys" assume "aead_correct A \<and> tunnel_init s"
  then show "duplex_init (tunnel_abs s)" by (simp add: tunnel_init_def duplex_init_def tunnel_abs_def)
qed

section \<open>Properties\<close>

text \<open>
  C2. The tunnel is a pair of byte pipes as long as it is intact, that is, as long as no read from a
  local side has cut off a half-read frame of the tunnel and the target has sent no chunk that starts
  with the rekey magic. In every such state, however the two relays, the network, the limiters,
  writes that fail half way and either side closing have interleaved, the bytes that reached the
  target are a prefix of the bytes the local client sent, those that reached the local client a
  prefix of the bytes the target sent (no loss in the middle, no duplication, no reordering, no
  alteration), and the state is reached by steps of the abstract pipes. What the two exceptions do
  is the subject of C40 and C20.
\<close>

theorem tunnel_refines_duplex:
  assumes "aead_correct A" and "reach tunnel_init (tunnel_step A) s" and "ts_intact s"
  shows "reach duplex_init duplex_step (tunnel_abs s) \<and> prefix (wbuf (gw_target (ts_gw s))) (ts_from_client s)
    \<and> prefix (drop (ts_base s) (wbuf (rl_client (ts_client s)))) (ts_from_target s)"
  using pipes.reach_amap [of A s] pipes.reach_sinv [of A s] reach_intact [OF assms(2,3)] assms(1) tunnel_inv_prefix [of A s]
  by (simp add: tunnel_abs_def)

definition sample_tunnel :: "nat tunnel_sys" where
  "sample_tunnel =
     \<lparr>ts_client = sample_relay [],
      ts_gw = \<lparr>gw_codec = sample_codec, gw_conn = \<lparr>inp = cursor [], out = vec_writer\<rparr>, gw_target = vec_writer,
               gw_limit = server_limiter_new 100000 0\<rparr>,
      ts_metrics = metrics_new, ts_up_moved = 0, ts_down_moved = 0, ts_from_client = [], ts_from_target = [],
      ts_base = 0, ts_client_open = True, ts_gw_open = True, ts_intact = True\<rparr>"

lemma sample_tunnel_init: "tunnel_init sample_tunnel"
  by (simp add: tunnel_init_def sample_tunnel_def sample_relay_def sample_codec_def sample_peer_def linked_new cursor_def vec_writer_def
      healthy_def) (simp add: codec_new_def)

definition sample_sent :: "nat tunnel_sys" where
  "sample_sent = the (client_turn toy_aead sample_tunnel (ClientRead 0 [] (Inr [3])))"

lemma sample_sent_turn: "client_turn toy_aead sample_tunnel (ClientRead 0 [] (Inr [3])) = Some sample_sent"
proof -
  have "client_turn toy_aead sample_tunnel (ClientRead 0 [] (Inr [3])) \<noteq> None" by code_simp
  then show ?thesis by (simp add: sample_sent_def)
qed

lemma sample_sent_reach: "reach tunnel_init (tunnel_step toy_aead) sample_sent"
proof -
  have "client_enabled sample_tunnel (ClientRead 0 [] (Inr [3]))"
    by (simp add: client_enabled_def half_read_def frame_ready_def sample_tunnel_def RELAY_BUF_def)
  from tunnel_step.client [OF this sample_sent_turn] show ?thesis
    by (rule reach.reach_step [OF reach.reach_init [of tunnel_init, OF sample_tunnel_init]])
qed

lemma sample_sent_intact: "ts_intact sample_sent"
  using client_turn_intact [OF sample_sent_turn] by (simp add: sample_tunnel_def)

theorem tunnel_refines_duplex_witness:
  "ts_from_client sample_sent = [3] \<and> reach duplex_init duplex_step (tunnel_abs sample_sent)
     \<and> prefix (wbuf (gw_target (ts_gw sample_sent))) [3]"
proof -
  have "ts_from_client sample_sent = [3]" by code_simp
  with tunnel_refines_duplex [OF toy_aead_correct sample_sent_reach sample_sent_intact] show ?thesis by simp
qed

end
