(* ===== verification/Tunnel_Delivery.thy ===== *)
theory Tunnel_Delivery
  imports Tunnel
begin

text \<open>
  Delivery through the tunnel: the steps that bring bytes nearer to their receiver (the network moves some,
  a relay takes a whole frame from the tunnel and hands it on). Each of them makes the backlog smaller, and
  as long as something is undelivered one of them can happen.
\<close>

section \<open>Limiters that serve\<close>


text \<open>
  Limiters that can grant one buffer: capacity and rate are at least a buffer, the level is within
  the capacity, and one second's refill does not overflow.
\<close>

definition grants_buffer :: "u64 \<Rightarrow> u64 \<Rightarrow> u64 \<Rightarrow> bool" where
  "grants_buffer level cap rate \<longleftrightarrow> RELAY_BUF \<le> unat cap \<and> RELAY_BUF \<le> unat rate \<and> level \<le> cap \<and> unat cap + unat rate < 2 ^ 64"

definition limits_serve :: "'f tunnel_sys \<Rightarrow> bool" where
  "limits_serve s \<longleftrightarrow>
     (let l = gw_limit (ts_gw s) in grants_buffer (srv_tokens l) (srv_capacity l) (srv_refill_rate l))
     \<and> (case rl_limit (ts_client s) of None \<Rightarrow> True | Some b \<Rightarrow> grants_buffer (tokens b) (capacity b) (refill_rate b))"

text \<open>Both relays run, both local sides accept data, and the limiters can grant a buffer.\<close>

definition serving :: "aead \<Rightarrow> 'f tunnel_sys \<Rightarrow> bool" where
  "serving A s \<longleftrightarrow> tunnel_inv A s \<and> ts_client_open s \<and> ts_gw_open s
     \<and> healthy (rl_client (ts_client s)) \<and> healthy (gw_target (ts_gw s)) \<and> limits_serve s"

section \<open>Delivery steps\<close>

text \<open>
  The steps of the tunnel that need nothing from the two ends: the network moves at least one byte, the
  client relay takes a frame from the gateway, the gateway takes a frame from the client. The instants at
  which the limiters are polled are arbitrary.
\<close>

inductive delivery_step :: "aead \<Rightarrow> 'f tunnel_sys \<Rightarrow> 'f tunnel_sys \<Rightarrow> bool" for A where
  up: "1 \<le> n \<Longrightarrow> n \<le> length (up_flight s) \<Longrightarrow> delivery_step A s (move_up n s)"
| down: "1 \<le> n \<Longrightarrow> n \<le> length (down_flight s) \<Longrightarrow> delivery_step A s (move_down n s)"
| client: "client_enabled s (GatewayRead polls) \<Longrightarrow> client_turn A s (GatewayRead polls) = Some t \<Longrightarrow> delivery_step A s t"
| gateway: "gw_enabled s (FromClient polls key) \<Longrightarrow> gw_turn A s (FromClient polls key) = Some t \<Longrightarrow> delivery_step A s t"

text \<open>A byte on the wire counts twice: it has to be moved and to be taken.\<close>

definition backlog :: "'f tunnel_sys \<Rightarrow> nat" where
  "backlog s = 2 * length (up_flight s) + 2 * length (down_flight s)
     + length (rbuf (inp (gw_conn (ts_gw s)))) + length (rbuf (rl_gw_in (ts_client s)))"

definition same_input :: "'f tunnel_sys \<Rightarrow> 'f tunnel_sys \<Rightarrow> bool" where
  "same_input s t \<longleftrightarrow> ts_from_client t = ts_from_client s \<and> ts_from_target t = ts_from_target s"

definition delivered :: "'f tunnel_sys \<Rightarrow> bool" where
  "delivered s \<longleftrightarrow> wbuf (gw_target (ts_gw s)) = ts_from_client s
     \<and> drop (ts_base s) (wbuf (rl_client (ts_client s))) = ts_from_target s"

lemma delivery_is_tunnel_step: "delivery_step A s t \<Longrightarrow> tunnel_step A s t"
  by (induction rule: delivery_step.induct) (blast intro: tunnel_step.intros)+

section \<open>Every delivery step makes progress\<close>

lemma one_buffer_word: "one_buffer p \<Longrightarrow> RELAY_BUF \<le> unat w \<Longrightarrow> of_nat (length p) \<le> (w :: u64)"
  by (simp add: one_buffer_def RELAY_BUF_def word_le_nat_alt unat_of_nat)

lemma server_wait_grants:
  assumes "grants_buffer (srv_tokens l) (srv_capacity l) (srv_refill_rate l)" and "one_buffer p"
  obtains l' n where "wait_until server_try_consume (of_nat (length p)) [srv_last_refill l + second] l = Some (l', n)"
    "grants_buffer (srv_tokens l') (srv_capacity l') (srv_refill_rate l')"
proof -
  have "of_nat (length p) \<le> srv_capacity l" "of_nat (length p) \<le> srv_refill_rate l"
    using assms by (simp_all add: grants_buffer_def one_buffer_word)
  with assms(1) show thesis
    using server_bucket.wait_one_second [of "of_nat (length p)" l] that by (auto simp: grants_buffer_def)
qed

lemma client_wait_grants:
  assumes "case rl_limit st of None \<Rightarrow> True | Some b \<Rightarrow> grants_buffer (tokens b) (capacity b) (refill_rate b)" and "one_buffer p"
  obtains polls l where "relay_wait st (length p) polls = Some (st\<lparr>rl_limit := l\<rparr>)"
    "case l of None \<Rightarrow> True | Some b \<Rightarrow> grants_buffer (tokens b) (capacity b) (refill_rate b)"
proof (cases "rl_limit st")
  case None
  then have "relay_wait st (length p) [] = Some (st\<lparr>rl_limit := None\<rparr>)" by (cases st) (simp add: relay_wait_def)
  then show thesis using that [of "[]" None] by simp
next
  case (Some b)
  have "of_nat (length p) \<le> capacity b" "of_nat (length p) \<le> refill_rate b"
    using assms Some by (simp_all add: grants_buffer_def one_buffer_word)
  then obtain b' n where b': "wait_until try_consume (of_nat (length p)) [last_refill b + second] b = Some (b', n)"
      "grants_buffer (tokens b') (capacity b') (refill_rate b')"
    using client_bucket.wait_one_second [of "of_nat (length p)" b] assms(1) Some by (auto simp: grants_buffer_def)
  then show thesis
    using that [of "[last_refill b + second]" "Some b'"] Some by (simp add: relay_wait_def wait_for_bytes_async_def wait_for_tokens_def)
qed

lemma relay_wait_keeps:
  assumes "case rl_limit st of None \<Rightarrow> True | Some b \<Rightarrow> grants_buffer (tokens b) (capacity b) (refill_rate b)"
    and "relay_wait st n polls = Some (st\<lparr>rl_limit := l\<rparr>)"
  shows "case l of None \<Rightarrow> True | Some b \<Rightarrow> grants_buffer (tokens b) (capacity b) (refill_rate b)"
proof (cases "rl_limit st")
  case None
  then show ?thesis using assms(2) by (cases st) (simp add: relay_wait_def)
next
  case (Some b)
  then obtain b' k where w: "wait_until try_consume (of_nat n) polls b = Some (b', k)" "l = Some b'"
    using assms(2) by (cases st) (auto simp: relay_wait_def wait_for_bytes_async_def wait_for_tokens_def split: option.splits)
  then show ?thesis using client_bucket.wait_keeps [OF w(1)] assms(1) Some by (auto simp: grants_buffer_def)
qed

lemma gw_frame_progress:
  assumes A: "aead_correct A" and sv: "serving A s" and en: "gw_enabled s (FromClient polls key)"
    and turn: "gw_turn A s (FromClient polls key) = Some t"
  shows "serving A t \<and> backlog t < backlog s \<and> same_input s t"
proof -
  let ?i = "inp (gw_conn (ts_gw s))"
  have inv: "tunnel_inv A s" and ready: "frame_ready ?i" and op: "ts_gw_open s"
    using sv en by (auto simp: serving_def gw_enabled_def)
  have ch: "channel A one_buffer (rl_codec (ts_client s)) (ts_client_open s) (gw_codec (ts_gw s)) True
      (rbuf ?i @ up_flight s) (ts_from_client s) (wbuf (gw_target (ts_gw s)))"
    using inv op by (simp add: tunnel_inv_def up_channel_def)
  obtain p c rest where rd: "read_frame A (gw_codec (ts_gw s)) ?i = (c, ?i\<lparr>rbuf := rest\<rparr>, Inr p)" "length rest < length (rbuf ?i)"
    using channel_receive [OF A ch ready] by metis
  obtain l w b where t: "t = s\<lparr>ts_gw := (ts_gw s)\<lparr>gw_codec := c, gw_conn := (gw_conn (ts_gw s))\<lparr>inp := ?i\<lparr>rbuf := rest\<rparr>\<rparr>,
        gw_target := w, gw_limit := l\<rparr>, ts_gw_open := ts_gw_open s \<and> b\<rparr>"
      "healthy (gw_target (ts_gw s)) \<longrightarrow> b" "healthy (gw_target (ts_gw s)) \<longrightarrow> healthy w"
      "\<exists>k. wait_until server_try_consume (of_nat (length p)) polls (gw_limit (ts_gw s)) = Some (l, k)"
    using gw_frame_turn [OF turn rd(1)] by metis
  have "grants_buffer (srv_tokens l) (srv_capacity l) (srv_refill_rate l)"
    using t(4) server_bucket.wait_keeps sv by (fastforce simp: serving_def limits_serve_def grants_buffer_def Let_def)
  moreover have "tunnel_inv A t" using tunnel_inv_gw_frame [OF A inv en turn] by blast
  ultimately have "serving A t" using sv t(2,3) by (simp add: serving_def t(1) limits_serve_def)
  with rd(2) show ?thesis by (simp add: t(1) backlog_def same_input_def up_flight_def down_flight_def)
qed

lemma client_frame_progress:
  assumes A: "aead_correct A" and sv: "serving A s" and en: "client_enabled s (GatewayRead polls)"
    and turn: "client_turn A s (GatewayRead polls) = Some t"
  shows "serving A t \<and> backlog t < backlog s \<and> same_input s t"
proof -
  let ?i = "rl_gw_in (ts_client s)"
  have inv: "tunnel_inv A s" and ready: "frame_ready ?i" and op: "ts_client_open s"
    using sv en by (auto simp: serving_def client_enabled_def)
  have ch: "channel A plain_chunk (gw_codec (ts_gw s)) (ts_gw_open s) (rl_codec (ts_client s)) True
      (rbuf ?i @ down_flight s) (ts_from_target s) (drop (ts_base s) (wbuf (rl_client (ts_client s))))"
    using inv op by (simp add: tunnel_inv_def down_channel_def)
  obtain p c rest where rd: "read_frame A (rl_codec (ts_client s)) ?i = (c, ?i\<lparr>rbuf := rest\<rparr>, Inr p)" "plain_chunk p"
      "length rest < length (rbuf ?i)"
    using channel_receive [OF A ch ready] by metis
  let ?st = "(ts_client s)\<lparr>rl_codec := c, rl_gw_in := ?i\<lparr>rbuf := rest\<rparr>\<rparr>"
  obtain l w b where t: "t = s\<lparr>ts_client := ?st\<lparr>rl_client := w, rl_limit := l\<rparr>, ts_client_open := ts_client_open s \<and> b\<rparr>"
      "healthy (rl_client (ts_client s)) \<longrightarrow> b" "healthy (rl_client (ts_client s)) \<longrightarrow> healthy w"
      "relay_wait ?st (length p) polls = Some (?st\<lparr>rl_limit := l\<rparr>)"
    using client_frame_turn [OF turn rd(2,1)] by metis
  have "case l of None \<Rightarrow> True | Some b \<Rightarrow> grants_buffer (tokens b) (capacity b) (refill_rate b)"
    by (rule relay_wait_keeps [OF _ t(4)]) (use sv in \<open>simp add: serving_def limits_serve_def\<close>)
  moreover have "tunnel_inv A t" using tunnel_inv_client_frame [OF A inv en turn] by blast
  ultimately have "serving A t" using sv t(2,3) by (simp add: serving_def t(1) limits_serve_def)
  with rd(3) show ?thesis by (simp add: t(1) backlog_def same_input_def up_flight_def down_flight_def)
qed

lemma move_progress:
  assumes "serving A s" and "1 \<le> n"
  shows "n \<le> length (up_flight s) \<Longrightarrow> serving A (move_up n s) \<and> backlog (move_up n s) < backlog s \<and> same_input s (move_up n s)"
    and "n \<le> length (down_flight s) \<Longrightarrow> serving A (move_down n s) \<and> backlog (move_down n s) < backlog s \<and> same_input s (move_down n s)"
  using assms tunnel_inv_move_up [of A s n] tunnel_inv_move_down [of A s n]
  by (auto simp: serving_def limits_serve_def backlog_def same_input_def move_up_def move_down_def Let_def up_flight_def down_flight_def)

lemma delivery_progress:
  assumes "aead_correct A" and "delivery_step A s t" and "serving A s"
  shows "serving A t \<and> backlog t < backlog s \<and> same_input s t"
  using assms(2)
proof (cases rule: delivery_step.cases)
  case (client polls)
  then show ?thesis by (rule client_frame_progress [OF assms(1,3)])
next
  case (gateway polls key)
  then show ?thesis by (rule gw_frame_progress [OF assms(1,3)])
qed (use move_progress [OF assms(3)] in auto)

text \<open>So a chain of delivery steps is at most as long as the backlog.\<close>

lemma delivery_chain:
  assumes A: "aead_correct A" and sv: "serving A s"
  shows "(delivery_step A ^^ n) s t \<Longrightarrow> serving A t \<and> n + backlog t \<le> backlog s \<and> same_input s t"
proof (induction n arbitrary: t)
  case 0
  then show ?case using sv by (simp add: same_input_def)
next
  case (Suc n)
  then obtain u where u: "(delivery_step A ^^ n) s u" "delivery_step A u t" by auto
  with Suc.IH [OF u(1)] delivery_progress [OF A u(2)] show ?case by (auto simp: same_input_def)
qed

lemma delivery_step_intact: "delivery_step A s t \<Longrightarrow> ts_intact s \<Longrightarrow> ts_intact t"
  by (induction rule: delivery_step.induct)
    (auto simp: client_turn_intact gw_turn_intact move_up_def move_down_def Let_def)

lemma delivery_chain_intact: "(delivery_step A ^^ n) s t \<Longrightarrow> ts_intact s \<Longrightarrow> ts_intact t"
  by (induction n arbitrary: t) (auto dest: delivery_step_intact)

section \<open>Nothing is stuck\<close>

lemma gateway_can_take:
  assumes A: "aead_correct A" and sv: "serving A s" and "up_flight s = []" and "rbuf (inp (gw_conn (ts_gw s))) \<noteq> []"
  shows "\<exists>t. delivery_step A s t"
proof -
  let ?i = "inp (gw_conn (ts_gw s))"
  have ch: "channel A one_buffer (rl_codec (ts_client s)) (ts_client_open s) (gw_codec (ts_gw s)) True
      (rbuf ?i @ []) (ts_from_client s) (wbuf (gw_target (ts_gw s)))"
    using sv assms(3) by (auto simp: serving_def tunnel_inv_def up_channel_def)
  have ready: "frame_ready ?i" using channel_end [OF A ch [simplified]] assms(4) by blast
  obtain p c rest where rd: "read_frame A (gw_codec (ts_gw s)) ?i = (c, ?i\<lparr>rbuf := rest\<rparr>, Inr p)" "one_buffer p"
    using channel_receive [OF A ch ready] by metis
  let ?l = "gw_limit (ts_gw s)"
  have g: "grants_buffer (srv_tokens ?l) (srv_capacity ?l) (srv_refill_rate ?l)"
    using sv by (simp add: serving_def limits_serve_def Let_def)
  obtain l n where l: "wait_until server_try_consume (of_nat (length p)) [srv_last_refill ?l + second] ?l = Some (l, n)"
    by (rule server_wait_grants [OF g rd(2)])
  let ?x = "FromClient [srv_last_refill ?l + second] []"
  have "gw_enabled s ?x" using ready sv by (simp add: gw_enabled_def serving_def)
  moreover have "\<exists>t. gw_turn A s ?x = Some t"
    using rd(1) l(1) sv by (simp add: gw_turn_def Let_def serving_def write_all_healthy)
  ultimately show ?thesis by (blast intro: delivery_step.gateway)
qed

lemma client_can_take:
  assumes A: "aead_correct A" and sv: "serving A s" and "down_flight s = []" and "rbuf (rl_gw_in (ts_client s)) \<noteq> []"
  shows "\<exists>t. delivery_step A s t"
proof -
  let ?i = "rl_gw_in (ts_client s)"
  have ch: "channel A plain_chunk (gw_codec (ts_gw s)) (ts_gw_open s) (rl_codec (ts_client s)) True
      (rbuf ?i @ []) (ts_from_target s) (drop (ts_base s) (wbuf (rl_client (ts_client s))))"
    using sv assms(3) by (auto simp: serving_def tunnel_inv_def down_channel_def)
  have ready: "frame_ready ?i" using channel_end [OF A ch [simplified]] assms(4) by blast
  obtain p c rest where rd: "read_frame A (rl_codec (ts_client s)) ?i = (c, ?i\<lparr>rbuf := rest\<rparr>, Inr p)" "plain_chunk p"
    using channel_receive [OF A ch ready] by metis
  let ?st = "(ts_client s)\<lparr>rl_codec := c, rl_gw_in := ?i\<lparr>rbuf := rest\<rparr>\<rparr>"
  have g: "case rl_limit ?st of None \<Rightarrow> True | Some b \<Rightarrow> grants_buffer (tokens b) (capacity b) (refill_rate b)"
    using sv by (simp add: serving_def limits_serve_def)
  have b: "one_buffer p" using rd(2) by (simp add: plain_chunk_def)
  obtain polls l where l: "relay_wait ?st (length p) polls = Some (?st\<lparr>rl_limit := l\<rparr>)"
    by (rule client_wait_grants [OF g b])
  have "client_enabled s (GatewayRead polls)" using ready sv by (simp add: client_enabled_def serving_def)
  moreover have "\<exists>t. client_turn A s (GatewayRead polls) = Some t"
    using rd(1,2) l(1) sv by (simp add: client_turn_def Let_def plain_chunk_def serving_def write_all_healthy)
  ultimately show ?thesis by (blast intro: delivery_step.client)
qed

lemma channel_drained:
  assumes "aead_correct A" and "channel A ok s True r True [] sent got"
  shows "got = sent"
proof -
  obtain s0 ps where uw: "under_way A s0 r [] ps" "sent = got @ concat ps" using assms(2) by (auto simp: channel_def)
  have "ps = []"
  proof (rule ccontr)
    assume "ps \<noteq> []"
    then obtain p qs where "ps = p # qs" by (cases ps) auto
    then show False using uw(1) frame_header(1) [OF assms(1), of p s0] by (auto simp: under_way_def)
  qed
  with uw(2) show ?thesis by simp
qed

text \<open>A tunnel with no delivery step left has delivered everything.\<close>

lemma stuck_is_delivered:
  assumes A: "aead_correct A" and sv: "serving A s" and stuck: "\<nexists>t. delivery_step A s t"
  shows "delivered s"
proof -
  have up: "up_flight s = []" using delivery_step.up [of 1 s A] stuck by (cases "up_flight s") auto
  have down: "down_flight s = []" using delivery_step.down [of 1 s A] stuck by (cases "down_flight s") auto
  have "rbuf (inp (gw_conn (ts_gw s))) = []" "rbuf (rl_gw_in (ts_client s)) = []"
    using gateway_can_take [OF A sv up] client_can_take [OF A sv down] stuck by blast+
  moreover have "up_channel A s" "down_channel A s" "ts_client_open s" "ts_gw_open s"
    using sv by (auto simp: serving_def tunnel_inv_def)
  ultimately show ?thesis
    using up down channel_drained [OF A] by (auto simp: delivered_def up_channel_def down_channel_def)
qed

lemma delivery_ends:
  assumes A: "aead_correct A"
  shows "serving A s \<Longrightarrow> \<exists>n t. (delivery_step A ^^ n) s t \<and> (\<nexists>u. delivery_step A t u)"
proof (induction "backlog s" arbitrary: s rule: less_induct)
  case less
  show ?case
  proof (cases "\<exists>u. delivery_step A s u")
    case True
    then obtain u where u: "delivery_step A s u" ..
    note p = delivery_progress [OF A u less.prems]
    obtain n t where "(delivery_step A ^^ n) u t" "\<nexists>v. delivery_step A t v" using less.hyps [of u] p by blast
    with relpowp_Suc_I2 [of "delivery_step A", OF u] show ?thesis by blast
  next
    case False
    then show ?thesis by (intro exI [of _ 0] exI [of _ s]) simp
  qed
qed

lemma reach_serving:
  assumes "aead_correct A" and "reach tunnel_init (tunnel_step A) s" and "ts_intact s" and "ts_client_open s" and "ts_gw_open s"
    and "healthy (rl_client (ts_client s))" and "healthy (gw_target (ts_gw s))" and "limits_serve s"
  shows "serving A s"
  using pipes.reach_sinv [of A s] reach_intact [OF assms(2,3)] assms by (simp add: serving_def)

section \<open>Properties\<close>

text \<open>
  C3. Delivery is inevitable in an intact tunnel. From every reachable state in which both relays run, no
  half-read frame has been cut off and the target has sent no rekey magic, the local client and the target
  accept data and the limiters can grant one buffer, every chain of delivery steps (the network moves bytes,
  a relay takes a whole frame from the tunnel and hands it on), in whatever order they come and whenever the
  limiters are polled, is at most as long as the backlog and leaves the tunnel intact with both relays
  running; and where no further delivery step is possible, the target has received everything the local
  client sent and the local client everything the target sent.
\<close>

theorem tunnel_delivery_inevitable:
  assumes "aead_correct A" and "reach tunnel_init (tunnel_step A) s" and "ts_intact s" and "ts_client_open s" and "ts_gw_open s"
    and "healthy (rl_client (ts_client s))" and "healthy (gw_target (ts_gw s))" and "limits_serve s"
    and "(delivery_step A ^^ n) s t"
  shows "n + backlog t \<le> backlog s \<and> ts_intact t \<and> ts_client_open t \<and> ts_gw_open t
    \<and> ((\<exists>u. delivery_step A t u) \<or> wbuf (gw_target (ts_gw t)) = ts_from_client s
       \<and> drop (ts_base t) (wbuf (rl_client (ts_client t))) = ts_from_target s)"
proof -
  have t: "serving A t" "n + backlog t \<le> backlog s" "same_input s t"
    using delivery_chain [OF assms(1) reach_serving [OF assms(1-8)] assms(9)] by auto
  moreover have "ts_intact t" by (rule delivery_chain_intact [OF assms(9,3)])
  ultimately show ?thesis using stuck_is_delivered [OF assms(1) t(1)] by (auto simp: serving_def delivered_def same_input_def)
qed

lemma sample_sent_serves: "ts_intact sample_sent" "ts_client_open sample_sent" "ts_gw_open sample_sent" "healthy (rl_client (ts_client sample_sent))"
    "healthy (gw_target (ts_gw sample_sent))" "ts_from_client sample_sent = [3]" "limits_serve sample_sent"
proof -
  have "gw_limit (ts_gw sample_sent) = server_limiter_new 100000 0" "rl_limit (ts_client sample_sent) = None" by code_simp+
  then show "limits_serve sample_sent"
    by (simp add: limits_serve_def grants_buffer_def server_limiter_new_def RELAY_BUF_def)
  show "ts_intact sample_sent" "ts_client_open sample_sent" "ts_gw_open sample_sent"
    by (rule sample_sent_intact | code_simp)+
qed code_simp+

theorem tunnel_delivery_inevitable_witness:
  "\<exists>n t. (delivery_step toy_aead ^^ n) sample_sent t \<and> n \<le> backlog sample_sent \<and> wbuf (gw_target (ts_gw t)) = [3]"
proof -
  note s = sample_sent_serves
  obtain n t where c: "(delivery_step toy_aead ^^ n) sample_sent t" "\<nexists>u. delivery_step toy_aead t u"
    using delivery_ends [OF toy_aead_correct reach_serving [OF toy_aead_correct sample_sent_reach s(1-5,7)]] by blast
  with tunnel_delivery_inevitable [OF toy_aead_correct sample_sent_reach s(1-5,7) c(1)] s(6) show ?thesis by fastforce
qed

text \<open>In particular the tunnel can always be drained.\<close>

theorem tunnel_can_drain:
  assumes "aead_correct A" and "reach tunnel_init (tunnel_step A) s" and "ts_intact s" and "ts_client_open s" and "ts_gw_open s"
    and "healthy (rl_client (ts_client s))" and "healthy (gw_target (ts_gw s))" and "limits_serve s"
  shows "\<exists>t. (tunnel_step A)\<^sup>*\<^sup>* s t \<and> same_input s t \<and> ts_client_open t \<and> ts_gw_open t \<and> delivered t"
proof -
  note sv = reach_serving [OF assms]
  obtain n t where t: "(delivery_step A ^^ n) s t" "\<nexists>u. delivery_step A t u" using delivery_ends [OF assms(1) sv] by blast
  have "(delivery_step A)\<^sup>*\<^sup>* s t" using t(1) by (rule relpowp_imp_rtranclp)
  then have "(tunnel_step A)\<^sup>*\<^sup>* s t" using rtranclp_mono [of "delivery_step A" "tunnel_step A"] delivery_is_tunnel_step by blast
  with delivery_chain [OF assms(1) sv t(1)] stuck_is_delivered [OF assms(1) _ t(2)] show ?thesis
    by (auto simp: serving_def)
qed

end
