(* ===== verification/Protocol_Integrity.thy ===== *)
theory Protocol_Integrity
  imports Proxy Gateway_Server "HOL-Library.Multiset"
begin

text \<open>
  Two views of the codec over whole sessions. The first is its type discipline: the cipher of
  \<open>transport-core/src/protocol.rs\<close> takes keys of 32 and nonces of 12 bytes and panics on others, and
  the codecs that the handshakes create and the relays use never leave that range. The second is
  what an attacker who controls the stream can make a codec deliver.
\<close>

section \<open>Well-formed codecs\<close>

definition NONCE_SIZE :: nat where
  "NONCE_SIZE = 12"

definition codec_wf :: "frame_codec \<Rightarrow> bool" where
  "codec_wf c \<longleftrightarrow> length (cipher (cstate c)) = 32 \<and> (\<forall>k key. prev (cstate c) = Some (k, key) \<longrightarrow> length key = 32)
     \<and> length (send_prefix c) = PREFIX_SIZE \<and> length (recv_prefix c) = PREFIX_SIZE
     \<and> replay_wf (recv_replay c) \<and> window_size (recv_replay c) = REPLAY_WINDOW_SIZE"

text \<open>Rekeys install keys of the array type \<open>[u8; 32]\<close>.\<close>

fun op_typed :: "codec_op \<Rightarrow> bool" where
  "op_typed (StartRekeyOp k key) \<longleftrightarrow> length key = 32"
| "op_typed _ \<longleftrightarrow> True"

text \<open>Two ciphers that agree wherever key and nonce have the sizes the cipher accepts.\<close>

definition agree_in_domain :: "aead \<Rightarrow> aead \<Rightarrow> bool" where
  "agree_in_domain A B \<longleftrightarrow> aead_error A = aead_error B \<and>
     (\<forall>key nonce x. length key = 32 \<and> length nonce = NONCE_SIZE \<longrightarrow>
        aead_encrypt A key nonce x = aead_encrypt B key nonce x \<and> aead_decrypt A key nonce x = aead_decrypt B key nonce x)"

lemma codec_wf_new [wf_intros]:
  "length key = 32 \<Longrightarrow> length sp = 8 \<Longrightarrow> length rp = 8 \<Longrightarrow> codec_wf (codec_new key sp rp k)"
  by (simp add: codec_wf_def codec_new_def PREFIX_SIZE_def) (simp add: replay_new_def)

lemma count_overlap_prev: "prev (count_overlap st) = Some p \<Longrightarrow> prev st = Some p"
  by (auto simp: count_overlap_def Let_def split: if_splits)

lemma open_body_cstate: "cstate (fst (open_body A c b)) = cstate c \<or> cstate (fst (open_body A c b)) = count_overlap (cstate c)"
  by (simp add: open_body_def Let_def split: option.split prod.split bool.split)

lemma open_body_wf: "codec_wf c \<Longrightarrow> codec_wf (fst (open_body A c b))"
  using open_body_cstate [of A c b]
  by (auto simp: codec_wf_def intro: replay_check_wf dest!: count_overlap_prev)

lemma read_frame_wf [wf_intros]: "codec_wf c \<Longrightarrow> codec_wf (fst (read_frame A c r))"
  by (rule read_frame_cases [where A = A and c = c and r = r]) (simp_all add: open_body_wf)

lemma write_frame_wf [wf_intros]: "codec_wf c \<Longrightarrow> codec_wf (fst (write_frame A c w p))"
  by (simp add: write_frame_codec codec_wf_def)

lemma start_rekey_wf [wf_intros]: "codec_wf c \<Longrightarrow> length key = 32 \<Longrightarrow> codec_wf (start_rekey c k key)"
  by (simp add: codec_wf_def start_rekey_def Let_def)

lemma complete_rekey_wf [wf_intros]: "codec_wf c \<Longrightarrow> codec_wf (complete_rekey c)"
  by (simp add: codec_wf_def complete_rekey_def)

lemma codec_exec_wf: "codec_wf c \<Longrightarrow> op_typed x \<Longrightarrow> codec_wf (codec_exec A c x)"
  by (cases x) (simp_all add: wf_intros)

lemma codec_run_wf: "codec_wf c \<Longrightarrow> \<forall>x \<in> set xs. op_typed x \<Longrightarrow> codec_wf (foldl (codec_exec A) c xs)"
  by (induction xs arbitrary: c) (simp_all add: codec_exec_wf)

lemma frame_nonce_size: "length p = PREFIX_SIZE \<Longrightarrow> length (frame_nonce p n) = NONCE_SIZE"
  by (simp add: frame_nonce_def PREFIX_SIZE_def NONCE_SIZE_def)

lemma write_frame_agree:
  assumes "agree_in_domain A B" and "codec_wf c"
  shows "write_frame A c w p = write_frame B c w p"
  using assms by (intro write_frame_cipher_use) (simp_all add: agree_in_domain_def codec_wf_def frame_nonce_size)

lemma open_body_agree:
  assumes "agree_in_domain A B" and "codec_wf c"
  shows "open_body A c b = open_body B c b"
proof -
  have "aead_decrypt A key (frame_nonce (recv_prefix c) n) x = aead_decrypt B key (frame_nonce (recv_prefix c) n) x"
    if "select_key (cstate c) k = Some key" for k key n x
  proof -
    have "length key = 32" using that assms(2) by (auto simp: select_key_def codec_wf_def split: if_splits option.splits)
    then show ?thesis using assms by (simp add: agree_in_domain_def codec_wf_def frame_nonce_size)
  qed
  moreover have "aead_error A = aead_error B" using assms(1) by (simp add: agree_in_domain_def)
  ultimately show ?thesis by (simp add: open_body_def Let_def split: prod.split bool.split option.split)
qed

lemma read_frame_agree:
  assumes "agree_in_domain A B" and "codec_wf c"
  shows "read_frame A c r = read_frame B c r"
  unfolding read_frame_def ext [of "open_body A c" "open_body B c", OF open_body_agree [OF assms]] ..

lemma codec_run_agree:
  assumes "agree_in_domain A B"
  shows "codec_wf c \<Longrightarrow> \<forall>x \<in> set xs. op_typed x \<Longrightarrow> foldl (codec_exec A) c xs = foldl (codec_exec B) c xs"
proof (induction xs arbitrary: c)
  case (Cons x xs)
  have "codec_exec A c x = codec_exec B c x"
    using write_frame_agree [OF assms Cons.prems(1)] read_frame_agree [OF assms Cons.prems(1)] by (cases x) simp_all
  with Cons codec_exec_wf [of c x B] show ?case by simp
qed simp

section \<open>The codecs of the program\<close>

text \<open>Every codec the gateway serves with, and every codec of a client's tunnel, is well-formed.\<close>

lemma read_auth_frame_prefixes:
  "snd (read_auth_frame r) = Inr (pk, tok, c2s, s2c) \<Longrightarrow> length c2s = 8 \<and> length s2c = 8"
  by (auto simp: read_auth_frame_def read_exact_def AUTH_FRAME_SIZE_def split: if_splits sum.splits prod.splits)

lemma served_codec_wf:
  assumes "kex_correct K" and "gateway_session K es G found c m = (m', Serve c' codec cl)"
  shows "codec_wf codec"
proof -
  obtain pk tok c2s s2c resp key where s: "snd (read_auth_frame (inp c)) = Inr (pk, tok, c2s, s2c)"
      "server_derive_session K es (env_server_key G) pk tok (env_client_psk G) = Some (resp, key)" "codec = codec_new key s2c c2s 0"
    using gateway_session_Serve [OF assms(2)] by blast
  then have "length key = 32"
    using kex_correctD(4) [OF assms(1)] by (auto simp: server_derive_session_def Let_def split: if_splits)
  with s(3) read_auth_frame_prefixes [OF s(1)] show ?thesis by (auto intro: codec_wf_new)
qed

lemma frame_ops_wf:
  "read_frame A c r = (c1, r1, x) \<Longrightarrow> codec_wf c \<Longrightarrow> codec_wf c1"
  "write_frame A c w p = (c2, w2, y) \<Longrightarrow> codec_wf c \<Longrightarrow> codec_wf c2"
  using read_frame_wf [of c A r] write_frame_wf [of c A w p] by simp_all

lemma tunnel_codec_wf:
  assumes "kex_correct K" and "length (draw_c2s d) = 8" and "length (draw_s2c d) = 8"
    and "open_session F A K d e h p r w = Ret (SessionUp tn)"
  shows "codec_wf (tn_codec tn)"
proof -
  have "codec_wf (codec_new (kx_hkdf K x SESSION_INFO) (draw_c2s d) (draw_s2c d) 0)" for x
    using assms(1-3) kex_correctD(4) by (intro codec_wf_new) auto
  then show ?thesis
    using assms(4)
    by (auto simp: open_session_def client_handshake_def Let_def
        split: outcome.splits option.splits prod.splits sum.splits if_splits) (metis frame_ops_wf)
qed

lemma relay_step_codec_wf:
  assumes "codec_wf (rl_codec st)"
  shows "case relay_step A st x of Running st' \<Rightarrow> codec_wf (rl_codec st') | Closed st' res \<Rightarrow> codec_wf (rl_codec st')
    | Waiting st' \<Rightarrow> codec_wf (rl_codec st')"
proof (cases x)
  case (ClientRead lost polls res)
  with assms show ?thesis
    by (auto simp: Let_def dest!: relay_wait_fields dest: frame_ops_wf split: sum.splits option.splits prod.splits)
next
  case (GatewayRead polls)
  have "codec_wf c'" if "read_frame A (rl_codec st) (rl_gw_in st) = (c', r, res)" for c' r res
    using that assms by (rule frame_ops_wf)
  with GatewayRead show ?thesis
    by (auto simp: Let_def relay_rekey_def dest!: relay_wait_fields dest: frame_ops_wf intro!: start_rekey_wf
        split: sum.splits option.splits prod.splits transport_error.splits)
qed

lemma gw_rekey_codec_wf:
  assumes "codec_wf (gw_codec g)" and "length key = 32"
  shows "case gw_rekey A g m key of GwRunning g' m' \<Rightarrow> codec_wf (gw_codec g') | GwClosed g' m' res \<Rightarrow> codec_wf (gw_codec g')
    | GwWaiting g' \<Rightarrow> codec_wf (gw_codec g')"
  using assms
  by (auto simp: gw_rekey_def send_rekey_init_def server_handle_rekey_ack_def Let_def dest!: frame_ops_wf intro!: start_rekey_wf
      split: sum.splits prod.splits if_splits)

lemma gw_step_codec_wf:
  assumes "codec_wf (gw_codec g)" and "\<And>polls key. x = FromClient polls key \<Longrightarrow> length key = 32"
  shows "case gw_step A g m x of GwRunning g' m' \<Rightarrow> codec_wf (gw_codec g') | GwClosed g' m' res \<Rightarrow> codec_wf (gw_codec g')
    | GwWaiting g' \<Rightarrow> codec_wf (gw_codec g')"
proof (cases x)
  case (FromClient polls key)
  obtain c r res where rf: "read_frame A (gw_codec g) (inp (gw_conn g)) = (c, r, res)" by (metis prod_cases3)
  have c: "codec_wf c" using frame_ops_wf(1) [OF rf assms(1)] .
  note rk = gw_rekey_codec_wf [of "g\<lparr>gw_codec := c, gw_conn := (gw_conn g)\<lparr>inp := r\<rparr>\<rparr>" key A m]
  show ?thesis
    using c FromClient rf rk assms(2) [OF FromClient]
    by (auto simp: Let_def split: sum.splits option.splits prod.splits transport_error.splits)
next
  case (FromTarget lost polls res)
  with assms(1) show ?thesis
    by (auto simp: Let_def dest: frame_ops_wf split: sum.splits option.splits prod.splits)
qed (use assms in simp)

section \<open>What an attacker can make a codec deliver\<close>

text \<open>The counter and the plaintext of each frame that the operations deliver.\<close>

fun op_receives :: "aead \<Rightarrow> frame_codec \<Rightarrow> codec_op \<Rightarrow> (u64 \<times> bytes) list" where
  "op_receives A c (ReadOp r) = (case read_frame A c r of (_, _, Inr p) \<Rightarrow> [(wire_counter r, p)] | _ \<Rightarrow> [])"
| "op_receives A c _ = []"

fun receives :: "aead \<Rightarrow> frame_codec \<Rightarrow> codec_op list \<Rightarrow> (u64 \<times> bytes) list" where
  "receives A c [] = []"
| "receives A c (x # xs) = op_receives A c x @ receives A (codec_exec A c x) xs"

lemma op_receives_delivered: "map fst (op_receives A c x) = op_delivered A c x"
  by (cases x) (simp_all split: prod.split sum.split)

lemma receives_delivered: "map fst (receives A c xs) = delivered A c xs"
  by (induction xs arbitrary: c) (simp_all add: op_receives_delivered)

text \<open>Late frames: an accepted counter is no further than the window below any accepted before.\<close>

lemma spec_accepts_window:
  assumes "spec_accepts n H c" and "h \<in> H"
  shows "unat h \<le> unat c + unat n"
proof -
  have h: "unat h \<le> unat (Max H)" using assms(2) by (simp add: word_le_nat_alt [symmetric])
  consider "Max H < c" | "saturating_sub (Max H) n \<le> c" using assms by (auto simp: spec_accepts_def)
  then have "unat (Max H) \<le> unat c + unat n"
  proof cases
    case 1
    then have "unat (Max H) < unat c" by (simp only: word_less_nat_alt)
    then show ?thesis by simp
  next
    case 2
    then show ?thesis
      by (auto simp: saturating_sub_def word_le_nat_alt unat_sub_if' split: if_splits)
  qed
  with h show ?thesis by simp
qed

lemma codec_exec_window:
  assumes "replay_abs n (recv_replay c) H"
  shows "\<exists>H'. replay_abs n (recv_replay (codec_exec A c x)) H' \<and> H \<subseteq> H' \<and> set (op_delivered A c x) \<subseteq> H'
    \<and> (\<forall>d \<in> set (op_delivered A c x). \<forall>h \<in> H. unat h \<le> unat d + unat n)"
proof (cases x)
  case (ReadOp r)
  show ?thesis
  proof (rule read_frame_cases [where A = A and c = c and r = r], goal_cases)
    case (2 b r')
    note chk = replay_check_refines [OF assms, of "body_counter b"]
    have "H \<subseteq> fst (spec_check n H (body_counter b))" by (auto simp: spec_check_def)
    moreover have "set (op_delivered A c x) \<subseteq> fst (spec_check n H (body_counter b))"
        "\<forall>d \<in> set (op_delivered A c x). \<forall>h \<in> H. unat h \<le> unat d + unat n"
      using 2 ReadOp chk(1) spec_accepts_window [of n H "body_counter b"]
      by (cases "snd (open_body A c b)"; auto simp: open_body_delivers spec_check_def)+
    ultimately show ?case using chk(2) 2(3) ReadOp
      by (intro exI [of _ "fst (spec_check n H (body_counter b))"]) simp
  qed (use assms ReadOp in auto)
qed (use assms in \<open>auto simp: write_frame_codec start_rekey_def complete_rekey_def Let_def\<close>)

lemma delivered_window:
  "replay_abs n (recv_replay c) H \<Longrightarrow> sorted_wrt (\<lambda>a b. unat a \<le> unat b + unat n) (delivered A c xs)
     \<and> (\<forall>d \<in> set (delivered A c xs). \<forall>h \<in> H. unat h \<le> unat d + unat n)"
proof (induction xs arbitrary: c H)
  case (Cons x xs)
  obtain H' where H': "replay_abs n (recv_replay (codec_exec A c x)) H'" "H \<subseteq> H'" "set (op_delivered A c x) \<subseteq> H'"
      "\<forall>d \<in> set (op_delivered A c x). \<forall>h \<in> H. unat h \<le> unat d + unat n"
    using codec_exec_window [OF Cons.prems] by blast
  have "sorted_wrt R (op_delivered A c x)" for R
    by (cases x) (simp_all split: prod.split sum.split)
  with Cons.IH [OF H'(1)] H'(2-) show ?case by (auto simp: sorted_wrt_append)
qed simp

text \<open>
  The key, the nonce and the plaintext of each encryption of a session, and the key, the nonce and
  the ciphertext of each decryption in it that succeeds.
\<close>

fun op_seals :: "frame_codec \<Rightarrow> codec_op \<Rightarrow> ((bytes \<times> bytes) \<times> bytes) list" where
  "op_seals c (WriteOp p w) =
     (if encrypts c p then [((cipher (cstate c), frame_nonce (send_prefix c) (send_counter c)), p)] else [])"
| "op_seals c _ = []"

fun seal_trace :: "aead \<Rightarrow> frame_codec \<Rightarrow> codec_op list \<Rightarrow> ((bytes \<times> bytes) \<times> bytes) list" where
  "seal_trace A c [] = []"
| "seal_trace A c (x # xs) = op_seals c x @ seal_trace A (codec_exec A c x) xs"

definition frame_body :: "reader \<Rightarrow> bytes" where
  "frame_body r = take (unat (from_be16 (rbuf r ! 3) (rbuf r ! 4))) (drop TLS_RECORD_HEADER_SIZE (rbuf r))"

fun op_opened :: "aead \<Rightarrow> frame_codec \<Rightarrow> codec_op \<Rightarrow> ((bytes \<times> bytes) \<times> bytes) list" where
  "op_opened A c (ReadOp r) =
     (case (read_frame A c r, select_key (cstate c) (frame_body r ! 0)) of
        ((_, _, Inr p), Some key) \<Rightarrow>
          [((key, frame_nonce (recv_prefix c) (wire_counter r)), drop (KID_SIZE + COUNTER_SIZE) (frame_body r))]
      | _ \<Rightarrow> [])"
| "op_opened A c _ = []"

fun opened :: "aead \<Rightarrow> frame_codec \<Rightarrow> codec_op list \<Rightarrow> ((bytes \<times> bytes) \<times> bytes) list" where
  "opened A c [] = []"
| "opened A c (x # xs) = op_opened A c x @ opened A (codec_exec A c x) xs"

text \<open>
  No forgery in a run, the integrity of ciphertexts that authenticated encryption is built for:
  whatever the receiver opened, under some key and nonce, the sender had sealed under them.
\<close>

definition no_forgery :: "aead \<Rightarrow> ((bytes \<times> bytes) \<times> bytes) list \<Rightarrow> ((bytes \<times> bytes) \<times> bytes) list \<Rightarrow> bool" where
  "no_forgery A T Q \<longleftrightarrow>
     (\<forall>((key, nonce), ct) \<in> set Q. \<exists>p. ((key, nonce), p) \<in> set T \<and> aead_encrypt A key nonce p = Some ct)"

lemma op_seals_nonce: "map fst (op_seals c x) = op_nonce c x"
  by (cases x) simp_all

lemma seal_trace_nonces: "map fst (seal_trace A c xs) = nonce_trace A c xs"
  by (induction xs arbitrary: c) (simp_all add: op_seals_nonce)

lemma seal_trace_fits: "(kn, p) \<in> set (seal_trace A c xs) \<Longrightarrow> length p \<le> MAX_PAYLOAD"
proof (induction xs arbitrary: c)
  case (Cons x xs)
  then show ?case by (cases x) (auto simp: encrypts_def split: if_splits)
qed simp

lemma codec_exec_recv_prefix: "recv_prefix (codec_exec A c x) = recv_prefix c"
  by (cases x) (simp_all add: write_frame_codec start_rekey_def complete_rekey_def Let_def)

lemma body_counter_u32: "ucast (ucast (body_counter b) :: u32) = body_counter b"
proof -
  have "ucast (ucast (ucast v :: u64) :: u32) = (ucast v :: u64)" for v :: u32
    by (rule bit_word_eqI) (auto simp: bit_simps dest: bit_imp_le_length)
  then show ?thesis by (simp only: body_counter_def)
qed

lemma read_frame_body:
  assumes "read_frame A c r = (c', r', Inr m)"
  shows "snd (open_body A c (frame_body r)) = Inr m" and "body_counter (frame_body r) = wire_counter r"
proof -
  obtain r1 header where h: "read_exact TLS_RECORD_HEADER_SIZE r = (r1, Inr header)"
    using assms by (auto simp: read_frame_def split: prod.splits sum.splits)
  obtain n where n: "check_header header = Inr n"
    using assms h by (auto simp: read_frame_def split: prod.splits sum.splits)
  obtain r2 b where b: "read_exact n r1 = (r2, Inr b)"
    using assms h n by (auto simp: read_frame_def split: prod.splits sum.splits)
  note ok = read_exact_InrD [OF h] read_exact_InrD [OF b]
  have len: "n = unat (from_be16 (header ! 3) (header ! 4))" "21 \<le> n"
    using n by (auto simp: check_header_def Let_def codec_simps split: if_splits)
  have body: "frame_body r = b"
    using ok len by (simp add: frame_body_def TLS_RECORD_HEADER_SIZE_def nth_append)
  show "snd (open_body A c (frame_body r)) = Inr m"
    using assms h n b by (auto simp: body read_frame_def split: prod.splits)
  show "body_counter (frame_body r) = wire_counter r"
    using ok len by (simp add: body wire_counter_def body_counter_def nth_append)
qed

lemma op_receives_opened:
  assumes "(n, m) \<in> set (op_receives A c x)"
  shows "ucast (ucast n :: u32) = n \<and> (\<exists>key ct. ((key, frame_nonce (recv_prefix c) n), ct) \<in> set (op_opened A c x)
    \<and> aead_decrypt A key (frame_nonce (recv_prefix c) n) ct = Some m)"
proof (cases x)
  case (ReadOp r)
  obtain c' r' res where res: "read_frame A c r = (c', r', res)" by (metis prod_cases3)
  then have rf: "read_frame A c r = (c', r', Inr m)" and n: "n = wire_counter r"
    using assms ReadOp by (cases res; simp)+
  note body = read_frame_body [OF rf]
  then obtain key where "select_key (cstate c) (frame_body r ! 0) = Some key"
      "aead_decrypt A key (frame_nonce (recv_prefix c) n) (drop 5 (frame_body r)) = Some m"
    by (auto simp: open_body_delivers n)
  moreover have "ucast (ucast n :: u32) = n" using body_counter_u32 [of "frame_body r"] body(2) n by simp
  ultimately show ?thesis using ReadOp rf n by (auto simp: KID_SIZE_def COUNTER_SIZE_def)
qed (use assms in auto)

lemma receives_opened:
  "(n, m) \<in> set (receives A c xs) \<Longrightarrow>
     ucast (ucast n :: u32) = n \<and> (\<exists>key ct. ((key, frame_nonce (recv_prefix c) n), ct) \<in> set (opened A c xs)
       \<and> aead_decrypt A key (frame_nonce (recv_prefix c) n) ct = Some m)"
proof (induction xs arbitrary: c)
  case (Cons x xs)
  then show ?case using op_receives_opened [of n m A c x] Cons.IH [of "codec_exec A c x"]
    by (auto simp: codec_exec_recv_prefix)
qed simp

text \<open>So what a receiver delivers was sealed under the nonce of its counter.\<close>

lemma receives_sealed:
  assumes A: "aead_correct A" and "no_forgery A (seal_trace A s ys) (opened A c xs)" and R: "(n, m) \<in> set (receives A c xs)"
  shows "ucast (ucast n :: u32) = n \<and> (\<exists>key. ((key, frame_nonce (recv_prefix c) n), m) \<in> set (seal_trace A s ys))"
proof -
  obtain key ct where o: "((key, frame_nonce (recv_prefix c) n), ct) \<in> set (opened A c xs)"
      "aead_decrypt A key (frame_nonce (recv_prefix c) n) ct = Some m"
    using receives_opened [OF R] by blast
  obtain p where p: "((key, frame_nonce (recv_prefix c) n), p) \<in> set (seal_trace A s ys)"
      "aead_encrypt A key (frame_nonce (recv_prefix c) n) p = Some ct"
    using assms(2) o(1) unfolding no_forgery_def by fast
  have "p = m" using aead_correctE [OF A seal_trace_fits [OF p(1)], of key "frame_nonce (recv_prefix c) n"] p(2) o(2) by auto
  with p(1) receives_opened [OF R] show ?thesis by blast
qed

lemma distinct_sub_mset: "distinct xs \<Longrightarrow> distinct ys \<Longrightarrow> set xs \<subseteq> set ys \<Longrightarrow> mset xs \<subseteq># mset ys"
  by (metis List.finite_set msubset_mset_set_iff mset_set_set)

lemma receives_sub_seals:
  fixes p and R T :: "(_ \<times> bytes) list"
  defines "f \<equiv> \<lambda>(n, m :: bytes). (frame_nonce p n, m)"
  assumes fresh: "distinct (map fst R)" and T: "distinct (map fst T)"
    and dec: "\<And>n m. (n, m) \<in> set R \<Longrightarrow> ucast (ucast n :: u32) = n \<and> (frame_nonce p n, m) \<in> set T"
  shows "mset (map snd R) \<subseteq># mset (map snd T)"
proof -
  have "inj_on f (set R)"
  proof (rule inj_onI)
    fix x y assume xy: "x \<in> set R" "y \<in> set R" "f x = f y"
    obtain a m b k where e: "x = (a, m)" "y = (b, k)" by fastforce
    then have "(ucast a :: u32) = ucast b" "m = k" using xy(3) by (simp_all add: f_def frame_nonce_def)
    then show "x = y" using dec [of a m] dec [of b k] xy(1,2) e by metis
  qed
  moreover have "distinct R" using fresh by (simp add: distinct_map)
  ultimately have "distinct (map f R)" by (simp add: distinct_map)
  moreover have "set (map f R) \<subseteq> set T" using dec by (auto simp: f_def)
  ultimately have "mset (map f R) \<subseteq># mset T" using T by (intro distinct_sub_mset) (simp_all add: distinct_map)
  then have "image_mset snd (mset (map f R)) \<subseteq># image_mset snd (mset T)" by (rule image_mset_subseteq_mono)
  moreover have "map snd (map f R) = map snd R" by (auto simp: f_def)
  ultimately show ?thesis by (metis mset_map)
qed

section \<open>Properties\<close>

text \<open>
  C10. The codec never leaves the domain of its cipher: from a key of 32 bytes and prefixes of
  eight, through any operations with any stream contents and rekeys to keys of 32 bytes, the
  codec stays well-formed (keys of 32 bytes, also during an overlap, prefixes of eight, a consistent
  replay window of size 64), and no call reaches the cipher with a key or a nonce of another
  size: any two ciphers that agree on keys of 32 and nonces of 12 bytes give the same results.
\<close>

theorem codec_stays_in_cipher_domain:
  fixes key sp rp k
  defines "c0 \<equiv> codec_new key sp rp k"
  assumes "length key = 32" and "length sp = 8" and "length rp = 8" and "\<forall>x \<in> set xs. op_typed x" and "agree_in_domain A B"
  shows "codec_wf (foldl (codec_exec A) c0 xs) \<and> foldl (codec_exec A) c0 xs = foldl (codec_exec B) c0 xs
    \<and> write_frame A (foldl (codec_exec A) c0 xs) w p = write_frame B (foldl (codec_exec A) c0 xs) w p
    \<and> read_frame A (foldl (codec_exec A) c0 xs) r = read_frame B (foldl (codec_exec A) c0 xs) r"
proof -
  have "codec_wf c0" unfolding c0_def by (rule codec_wf_new [OF assms(2-4)])
  from codec_run_wf [OF this assms(5)] codec_run_agree [OF assms(6) this assms(5)] show ?thesis
    by (simp add: write_frame_agree [OF assms(6)] read_frame_agree [OF assms(6)])
qed

text \<open>A cipher that works on keys of 32 bytes and nonces of 12 only.\<close>

definition strict_aead :: aead where
  "strict_aead = toy_aead\<lparr>aead_encrypt := (\<lambda>key nonce p. if length key = 32 \<and> length nonce = 12 then aead_encrypt toy_aead key nonce p else None),
     aead_decrypt := (\<lambda>key nonce c. if length key = 32 \<and> length nonce = 12 then aead_decrypt toy_aead key nonce c else None)\<rparr>"

theorem codec_stays_in_cipher_domain_witness:
  "\<exists>w'. write_frame strict_aead (foldl (codec_exec strict_aead) (codec_new (replicate 32 1) (replicate 8 2) (replicate 8 3) 0)
       [StartRekeyOp 1 (replicate 32 9)]) vec_writer [7] = w' \<and> snd (snd w') = Inr ()"
proof -
  let ?c = "\<lambda>A. foldl (codec_exec A) (codec_new (replicate 32 1) (replicate 8 2) (replicate 8 3) 0) [StartRekeyOp 1 (replicate 32 9)]"
  have ag: "agree_in_domain strict_aead toy_aead" by (simp add: agree_in_domain_def strict_aead_def NONCE_SIZE_def)
  have "write_frame strict_aead (?c strict_aead) vec_writer [7] = write_frame toy_aead (?c strict_aead) vec_writer [7]"
    using codec_stays_in_cipher_domain [of "replicate 32 1" "replicate 8 2" "replicate 8 3" "[StartRekeyOp 1 (replicate 32 9)]"
        strict_aead toy_aead 0 vec_writer "[7]"] ag by simp
  moreover have "send_counter (?c strict_aead) < REKEY_THRESHOLD" by (simp add: start_rekey_def codec_new_def REKEY_THRESHOLD_def)
  ultimately show ?thesis
    using write_frame_ok [OF toy_aead_correct, of "[7]" "?c strict_aead" vec_writer] by (simp add: MAX_PAYLOAD_def)
qed

text \<open>
  C9. An attacker who controls the stream can neither forge nor duplicate: with a correct cipher, in
  any run in which every ciphertext that the receiver opens is one that the sender produced under
  the same key and nonce (integrity of ciphertexts, supposed of this run only), whatever bytes the
  receiver reads, in however many reads, and whatever either side writes or rekeys in between, the
  chunks that the receiver delivers are among those the sender sent, each at most as often as it was
  sent; and a chunk is never delivered after one whose counter is more than 64 larger.
\<close>

theorem tampering_delivers_only_sent:
  fixes A key sp rp k ys key' rp' k' xs
  defines "T \<equiv> seal_trace A (codec_new key sp rp k) ys" and "R \<equiv> receives A (codec_new key' rp' sp k') xs"
  assumes A: "aead_correct A" and integrity: "no_forgery A T (opened A (codec_new key' rp' sp k') xs)" and "length ys < 2 ^ 64"
  shows "mset (map snd R) \<subseteq># mset (map snd T) \<and> sorted_wrt (\<lambda>a b. unat (fst a) \<le> unat (fst b) + 64) R"
proof
  have abs: "replay_abs REPLAY_WINDOW_SIZE (recv_replay (codec_new key' rp' sp k')) {}"
    by (simp add: codec_new_def replay_abs_new)
  let ?T = "map (\<lambda>((key, nonce), p). (nonce, p)) T"
  have "mset (map snd R) \<subseteq># mset (map snd ?T)"
  proof (rule receives_sub_seals)
    show "distinct (map fst R)"
      using delivered_once [OF abs, of A xs] by (simp add: R_def receives_delivered)
    have "map fst ?T = map snd (map fst T)" by (induction T) auto
    then show "distinct (map fst ?T)"
      using nonce_trace_distinct [of "codec_new key sp rp k" ys A] assms(5)
      by (simp only: T_def seal_trace_nonces) (simp add: codec_new_def)
    show "ucast (ucast n :: u32) = n \<and> (frame_nonce sp n, m) \<in> set ?T" if "(n, m) \<in> set R" for n m
      using receives_sealed [OF A integrity [unfolded T_def] that [unfolded R_def]] by (force simp: T_def codec_new_def)
  qed
  moreover have "map snd ?T = map snd T" by (induction T) auto
  ultimately show "mset (map snd R) \<subseteq># mset (map snd T)" by (simp only:)
  show "sorted_wrt (\<lambda>a b. unat (fst a) \<le> unat (fst b) + 64) R"
    using delivered_window [OF abs, of A xs] by (simp add: R_def receives_delivered [symmetric] sorted_wrt_map REPLAY_WINDOW_SIZE_def)
qed

text \<open>A frame that arrives and arrives again.\<close>

definition attacked_sender :: frame_codec where
  "attacked_sender = codec_new [7] (replicate 8 2) (replicate 8 3) 0"

definition attacked_receiver :: frame_codec where
  "attacked_receiver = codec_new [7] (replicate 8 3) (replicate 8 2) 0"

definition attacked_reader :: reader where
  "attacked_reader = cursor (sealed toy_aead attacked_sender [42])"

lemma attacked_wire: "wire_counter attacked_reader = 0" "select_key (cstate attacked_receiver) (frame_body attacked_reader ! 0) = Some [7]"
    "drop (KID_SIZE + COUNTER_SIZE) (frame_body attacked_reader) = [42] @ toy_tag [7] (frame_nonce (replicate 8 2) 0)"
  by code_simp+

lemma attacked_read: "\<exists>c r. read_frame toy_aead attacked_receiver attacked_reader = (c, r, Inr [42])
    \<and> \<not> (\<exists>c' r' p. read_frame toy_aead c attacked_reader = (c', r', Inr p))"
proof -
  have "(case read_frame toy_aead attacked_receiver attacked_reader of (c, r, res) \<Rightarrow>
      res = Inr [42] \<and> isl (snd (snd (read_frame toy_aead c attacked_reader))))" by code_simp
  then show ?thesis by (auto split: prod.splits)
qed

theorem tampering_delivers_only_sent_witness:
  "let R = receives toy_aead attacked_receiver [ReadOp attacked_reader, ReadOp attacked_reader]
   in map snd R = [[42]] \<and> mset (map snd R) \<subseteq># mset [[42]]"
proof -
  let ?ys = "[WriteOp [42] vec_writer]" and ?xs = "[ReadOp attacked_reader, ReadOp attacked_reader]"
  have T: "seal_trace toy_aead attacked_sender ?ys = [(([7], frame_nonce (replicate 8 2) 0), [42])]"
    by (simp add: attacked_sender_def encrypts_def codec_new_def MAX_PAYLOAD_def REKEY_THRESHOLD_def)
  obtain c r where rd: "read_frame toy_aead attacked_receiver attacked_reader = (c, r, Inr [42])"
      "\<not> (\<exists>c' r' p. read_frame toy_aead c attacked_reader = (c', r', Inr p))"
    using attacked_read by blast
  obtain c' r' e where again: "read_frame toy_aead c attacked_reader = (c', r', Inl e)"
    using rd(2) by (metis prod_cases3 sum.exhaust)
  have "recv_prefix attacked_receiver = replicate 8 2" by (simp add: attacked_receiver_def codec_new_def)
  then have Q: "opened toy_aead attacked_receiver ?xs =
      [(([7], frame_nonce (replicate 8 2) 0), [42] @ toy_tag [7] (frame_nonce (replicate 8 2) 0))]"
    using rd(1) again attacked_wire by simp
  have "no_forgery toy_aead (seal_trace toy_aead attacked_sender ?ys) (opened toy_aead attacked_receiver ?xs)"
    unfolding T Q by (simp add: no_forgery_def toy_aead_def)
  from tampering_delivers_only_sent [OF toy_aead_correct this [unfolded attacked_sender_def attacked_receiver_def]] T
  have "mset (map snd (receives toy_aead attacked_receiver ?xs)) \<subseteq># mset [[42]]"
    by (simp only: attacked_sender_def attacked_receiver_def) simp
  moreover have "map snd (receives toy_aead attacked_receiver ?xs) = [[42]]" using rd(1) again by simp
  ultimately show ?thesis by (simp add: Let_def)
qed

text \<open>
  The codec does not restore order: a receiver that is handed the first two frames of a session in
  the wrong order delivers both chunks, in the wrong order and without an error. The relays write
  chunks on as they come, so the order of the byte stream rests on the TLS connection alone.
\<close>

theorem swapped_frames_delivered:
  fixes key p q k
  defines "s \<equiv> codec_new key p q k" and "r \<equiv> codec_new key q p k"
  assumes A: "aead_correct A" and len: "length x \<le> MAX_PAYLOAD" "length y \<le> MAX_PAYLOAD"
    and buf: "rbuf i = sealed A (s\<lparr>send_counter := 1\<rparr>) y @ sealed A s x @ rest"
  shows "\<exists>r'. read_frames A r i 2 = (r', i\<lparr>rbuf := rest\<rparr>, Inr [y, x])"
proof -
  let ?t = "s\<lparr>send_counter := 1\<rparr>"
  have "linked ?t r" by (simp add: linked_def s_def r_def codec_new_def replay_new_def)
  then have y: "read_frame A r i = (r\<lparr>recv_replay := fst (replay_check (recv_replay r) 1), cstate := count_overlap (cstate r)\<rparr>,
      i\<lparr>rbuf := sealed A s x @ rest\<rparr>, Inr y)" (is "_ = (?r, _, _)")
    using read_sealed [OF A len(2) _ linked_can_open, of ?t r i "sealed A s x @ rest"] buf by (simp add: REKEY_THRESHOLD_def)
  have "can_open s ?r"
    by (simp add: can_open_def s_def r_def codec_new_def replay_new_def replay_check_def select_key_def Let_def count_overlap_def
        saturating_sub_def REPLAY_WINDOW_SIZE_def word_le_nat_alt)
  then have "\<exists>r'. read_frame A ?r (i\<lparr>rbuf := sealed A s x @ rest\<rparr>) = (r', i\<lparr>rbuf := rest\<rparr>, Inr x)"
    using read_sealed [OF A len(1), of s ?r "i\<lparr>rbuf := sealed A s x @ rest\<rparr>" rest] by (simp add: s_def codec_new_def REKEY_THRESHOLD_def)
  with y show ?thesis by (auto simp: numeral_2_eq_2)
qed

theorem swapped_frames_delivered_witness:
  "\<exists>r'. read_frames toy_aead (codec_new [7, 7] [8, 7, 6, 5, 4, 3, 2, 1] [1, 2, 3, 4, 5, 6, 7, 8] 0)
     (cursor (sealed toy_aead ((codec_new [7, 7] [1, 2, 3, 4, 5, 6, 7, 8] [8, 7, 6, 5, 4, 3, 2, 1] 0)\<lparr>send_counter := 1\<rparr>) [5]
       @ sealed toy_aead (codec_new [7, 7] [1, 2, 3, 4, 5, 6, 7, 8] [8, 7, 6, 5, 4, 3, 2, 1] 0) [4] @ [])) 2
   = (r', (cursor [])\<lparr>rbuf := []\<rparr>, Inr [[5], [4]])"
  using swapped_frames_delivered [OF toy_aead_correct, of "[4]" "[5]" "cursor (sealed toy_aead
      ((codec_new [7, 7] [1, 2, 3, 4, 5, 6, 7, 8] [8, 7, 6, 5, 4, 3, 2, 1] 0)\<lparr>send_counter := 1\<rparr>) [5]
       @ sealed toy_aead (codec_new [7, 7] [1, 2, 3, 4, 5, 6, 7, 8] [8, 7, 6, 5, 4, 3, 2, 1] 0) [4] @ [])"
      "[7, 7]" "[1, 2, 3, 4, 5, 6, 7, 8]" "[8, 7, 6, 5, 4, 3, 2, 1]" 0 "[]"]
  by (simp add: MAX_PAYLOAD_def cursor_def)

end
