(* ===== verification/Proxy_Server.thy ===== *)
theory Proxy_Server
  imports Proxy
begin

text \<open>
  The server of \<open>transport-core/src/proxy.rs\<close>: \<open>Socks5Proxy\<close>, its accept loop and the tasks it
  spawns. A task touches the shared failover manager at three instants only: it reads the current
  endpoint, it reports a failed connection, it reports a success. It is therefore cut into the
  phases between these instants, and the server runs on a list of events that advance one task
  each, in any order.
\<close>

section \<open>The server and its tasks\<close>

record socks5_proxy =
  px_bind :: u16
  px_failover :: failover_manager
  px_key :: bytes
  px_rate_limiter :: "token_bucket option"

definition proxy_new :: "u16 \<Rightarrow> failover_manager \<Rightarrow> bytes \<Rightarrow> socks5_proxy" where
  "proxy_new bind_addr failover key =
     \<lparr>px_bind = bind_addr, px_failover = failover, px_key = key, px_rate_limiter = None\<rparr>"

definition with_rate_limit :: "u64 \<Rightarrow> nat \<Rightarrow> socks5_proxy \<Rightarrow> socks5_proxy" where
  "with_rate_limit bytes_per_second now p = p\<lparr>px_rate_limiter := Some (rate_limiter_new bytes_per_second now)\<rparr>"

datatype task =
    Accepted conn
  | Connecting conn bytes u16 endpoint_config
  | InSession conn bytes u16 endpoint_config reader writer
  | Relaying conn tunnel
  | Done conn "transport_error + unit"
  | Crashed

definition task_begin :: "std_fmt \<Rightarrow> failover_manager \<Rightarrow> conn \<Rightarrow> task" where
  "task_begin F fo c =
     (case socks_request F c of
        (c, Inl e) \<Rightarrow> Done c (Inl e)
      | (c, Inr (target_host, target_port)) \<Rightarrow>
          (case current_endpoint fo of Panic \<Rightarrow> Crashed | Ret e \<Rightarrow> Connecting c target_host target_port e))"

definition done_refused :: "transport_error \<Rightarrow> conn \<Rightarrow> task" where
  "done_refused e c = (case refuse e c of (c, r :: transport_error + unit) \<Rightarrow> Done c r)"

definition task_fail ::
  "instant \<Rightarrow> int \<Rightarrow> failover_manager \<Rightarrow> transport_error \<Rightarrow> conn \<Rightarrow> failover_manager \<times> task" where
  "task_fail now sysnow fo e c =
     (case report_failure fo now sysnow of Panic \<Rightarrow> (fo, Crashed) | Ret fo \<Rightarrow> (fo, done_refused e c))"

definition task_connect ::
  "'tcp net \<Rightarrow> bool \<Rightarrow> instant \<Rightarrow> int \<Rightarrow> failover_manager \<Rightarrow> conn \<Rightarrow> bytes \<Rightarrow> u16 \<Rightarrow> endpoint_config
   \<Rightarrow> failover_manager \<times> task" where
  "task_connect N late now sysnow fo c h p e =
     (if late then task_fail now sysnow fo (Protocol ''gateway connect timeout'') c
      else
        (case tls_connect_endpoint N e of
           Panic \<Rightarrow> (fo, Crashed)
         | Ret (Inl err) \<Rightarrow> task_fail now sysnow fo err c
         | Ret (Inr (r, w)) \<Rightarrow> (fo, InSession c h p e r w)))"

definition task_session ::
  "std_fmt \<Rightarrow> aead \<Rightarrow> kex \<Rightarrow> session_draw \<Rightarrow> failover_manager \<Rightarrow> conn \<Rightarrow> bytes \<Rightarrow> u16 \<Rightarrow> endpoint_config
   \<Rightarrow> reader \<Rightarrow> writer \<Rightarrow> failover_manager \<times> task" where
  "task_session F A K d fo c h p e r w =
     (case open_session F A K d e h p r w of
        Panic \<Rightarrow> (fo, Crashed)
      | Ret (SessionFailed err) \<Rightarrow> (fo, Done c (Inl err))
      | Ret (SessionRefused err) \<Rightarrow> (fo, done_refused err c)
      | Ret (SessionUp tn) \<Rightarrow>
          (case report_success fo of
             Panic \<Rightarrow> (fo, Crashed)
           | Ret fo \<Rightarrow>
               (case sock_write (socks_reply REP_SUCCESS) c of
                  (c, Inl err) \<Rightarrow> (fo, Done c (Inl err))
                | (c, Inr _) \<Rightarrow> (fo, Relaying c tn))))"

section \<open>The accept loop\<close>

text \<open>
  \<open>run_with_listener\<close>: every accepted connection becomes a task; a failing \<open>accept\<close> ends the loop,
  and the runtime that ran it is dropped with its tasks. An error of a task is only logged.
\<close>

record proxy_state =
  ps_failover :: failover_manager
  ps_tasks :: "task list"
  ps_error :: "io_error option"

datatype proxy_event =
    PxAccept conn
  | PxAcceptFailed io_error
  | PxBegin nat
  | PxConnect nat bool instant int
  | PxSession nat session_draw
  | PxRelayEnd nat "transport_error + unit"

definition run_with_listener :: "socks5_proxy \<Rightarrow> proxy_state" where
  "run_with_listener p = \<lparr>ps_failover = px_failover p, ps_tasks = [], ps_error = None\<rparr>"

text \<open>\<open>run\<close> binds the address first.\<close>

definition run_proxy :: "(u16 \<Rightarrow> io_error + unit) \<Rightarrow> socks5_proxy \<Rightarrow> transport_error + proxy_state" where
  "run_proxy tcp_listen p = (case tcp_listen (px_bind p) of Inl e \<Rightarrow> Inl (Io e) | Inr _ \<Rightarrow> Inr (run_with_listener p))"

definition task_step ::
  "std_fmt \<Rightarrow> 'tcp net \<Rightarrow> aead \<Rightarrow> kex \<Rightarrow> failover_manager \<Rightarrow> task \<Rightarrow> proxy_event \<Rightarrow> failover_manager \<times> task" where
  "task_step F N A K fo tk x =
     (case (x, tk) of
        (PxBegin _, Accepted c) \<Rightarrow> (fo, task_begin F fo c)
      | (PxConnect _ late now sysnow, Connecting c h p e) \<Rightarrow> task_connect N late now sysnow fo c h p e
      | (PxSession _ d, InSession c h p e r w) \<Rightarrow> task_session F A K d fo c h p e r w
      | (PxRelayEnd _ res, Relaying c tn) \<Rightarrow> (fo, Done c res)
      | _ \<Rightarrow> (fo, tk))"

fun event_task :: "proxy_event \<Rightarrow> nat option" where
  "event_task (PxBegin i) = Some i"
| "event_task (PxConnect i late now sysnow) = Some i"
| "event_task (PxSession i d) = Some i"
| "event_task (PxRelayEnd i res) = Some i"
| "event_task _ = None"

definition proxy_exec ::
  "std_fmt \<Rightarrow> 'tcp net \<Rightarrow> aead \<Rightarrow> kex \<Rightarrow> proxy_state \<Rightarrow> proxy_event \<Rightarrow> proxy_state" where
  "proxy_exec F N A K s x =
     (if ps_error s \<noteq> None then s
      else
        case event_task x of
          Some i \<Rightarrow>
            if i < length (ps_tasks s) then
              (case task_step F N A K (ps_failover s) (ps_tasks s ! i) x of
                 (fo, tk) \<Rightarrow> s\<lparr>ps_failover := fo, ps_tasks := (ps_tasks s)[i := tk]\<rparr>)
            else s
        | None \<Rightarrow>
            (case x of
               PxAccept c \<Rightarrow> s\<lparr>ps_tasks := ps_tasks s @ [Accepted c]\<rparr>
             | PxAcceptFailed e \<Rightarrow> s\<lparr>ps_error := Some e, ps_tasks := []\<rparr>
             | _ \<Rightarrow> s))"

section \<open>Lemmas\<close>

lemma tls_connect_endpoint_ret: "\<exists>r. tls_connect_endpoint N e = Ret r"
proof (cases "tls_new [sni e]")
  case (Inr c)
  then have "tls_wf c" using tls_new_wf by blast
  then obtain c' r where "tls_connect N c (host e) (port e) = Ret (c', r)" by (rule tls_connect_wf)
  with Inr show ?thesis by (simp add: tls_connect_endpoint_def)
qed (simp add: tls_connect_endpoint_def)

lemma open_session_ret:
  assumes "endpoint_ok e"
  shows "\<exists>res. open_session F A K d e h p r w = Ret res"
proof -
  obtain k1 k2 where "decode_hex32 (server_pub e) = Ret (Some k1)" "decode_hex32 (psk e) = Ret (Some k2)"
    using assms hex_key_decodes unfolding endpoint_ok_def by metis
  then show ?thesis
    by (auto simp: open_session_def Let_def split: prod.split sum.split)
qed

text \<open>What a task holds: an endpoint of the list it was started with.\<close>

fun task_ok :: "endpoint_config list \<Rightarrow> task \<Rightarrow> bool" where
  "task_ok eps (Connecting c h p e) \<longleftrightarrow> e \<in> set eps"
| "task_ok eps (InSession c h p e r w) \<longleftrightarrow> e \<in> set eps"
| "task_ok eps Crashed \<longleftrightarrow> False"
| "task_ok eps _ \<longleftrightarrow> True"

definition proxy_inv :: "endpoint_config list \<Rightarrow> proxy_state \<Rightarrow> bool" where
  "proxy_inv eps s \<longleftrightarrow> endpoints_ok eps \<and> failover_good eps (Ret (ps_failover s)) \<and> list_all (task_ok eps) (ps_tasks s)"

lemma done_refused_ok [simp]: "task_ok eps (done_refused e c)"
  by (simp add: done_refused_def split: prod.split)

lemma task_fail_ok:
  assumes "failover_good eps (Ret fo)"
  shows "failover_good eps (Ret (fst (task_fail now sysnow fo e c))) \<and> task_ok eps (snd (task_fail now sysnow fo e c))"
  using report_failure_good [of fo now sysnow] assms
  by (auto simp: task_fail_def failover_good_def split: outcome.splits)

lemma task_begin_ok:
  assumes "failover_good eps (Ret fo)"
  shows "task_ok eps (task_begin F fo c)"
  using assms current_endpoint_wf [of fo]
  by (auto simp: task_begin_def failover_good_def failover_wf_def split: prod.split sum.split)

lemma task_connect_ok:
  assumes "failover_good eps (Ret fo)" and "e \<in> set eps"
  shows "failover_good eps (Ret (fst (task_connect N late now sysnow fo c h p e)))
    \<and> task_ok eps (snd (task_connect N late now sysnow fo c h p e))"
proof -
  obtain r where "tls_connect_endpoint N e = Ret r" using tls_connect_endpoint_ret by blast
  then show ?thesis using assms task_fail_ok [OF assms(1)]
    by (auto simp: task_connect_def split: sum.split)
qed

lemma task_session_ok:
  assumes "failover_good eps (Ret fo)" and "e \<in> set eps" and "endpoints_ok eps"
  shows "failover_good eps (Ret (fst (task_session F A K d fo c h p e r w)))
    \<and> task_ok eps (snd (task_session F A K d fo c h p e r w))"
proof -
  have "endpoint_ok e" using assms(2,3) by (auto simp: endpoints_ok_def list_all_iff)
  then obtain res where "open_session F A K d e h p r w = Ret res" using open_session_ret by blast
  moreover have "failover_good eps (report_success fo)"
    using assms(1) report_success_good [of fo] by (auto simp: failover_good_def)
  ultimately show ?thesis using assms(1)
    by (auto simp: task_session_def failover_good_def split: session_result.split outcome.splits prod.split sum.split)
qed

lemma task_step_ok:
  assumes "failover_good eps (Ret fo)" and "task_ok eps tk" and "endpoints_ok eps"
  shows "failover_good eps (Ret (fst (task_step F N A K fo tk x))) \<and> task_ok eps (snd (task_step F N A K fo tk x))"
  using assms task_begin_ok [OF assms(1)] task_connect_ok [OF assms(1)] task_session_ok [OF assms(1) _ assms(3)]
  by (cases x; cases tk) (simp_all add: task_step_def)

interpretation proxy_run: op_system "proxy_exec F N A K" "proxy_inv eps" for F and N :: "'tcp net" and A K eps
proof
  fix s x assume inv: "proxy_inv eps s"
  show "proxy_inv eps (proxy_exec F N A K s x)"
  proof (cases "event_task x")
    case None
    then show ?thesis using inv by (cases x) (auto simp: proxy_exec_def proxy_inv_def)
  next
    case (Some i)
    show ?thesis
    proof (cases "i < length (ps_tasks s) \<and> ps_error s = None")
      case True
      then have "task_ok eps (ps_tasks s ! i)" using inv by (simp add: proxy_inv_def list_all_length)
      with inv task_step_ok [of eps "ps_failover s" "ps_tasks s ! i" F N A K x] True Some show ?thesis
        by (auto simp: proxy_exec_def proxy_inv_def list_all_iff split: prod.split dest!: subsetD [OF set_update_subset_insert])
    qed (use inv Some in \<open>auto simp: proxy_exec_def\<close>)
  qed
qed

section \<open>Interleaving\<close>

text \<open>The handler's outcome as a task, and the three phases with what other tasks do to the manager in between.\<close>

definition handler_task ::
  "(failover_manager \<times> conn \<times> (transport_error + tunnel)) outcome \<Rightarrow> task" where
  "handler_task r =
     (case r of
        Panic \<Rightarrow> Crashed
      | Ret (fo, c, Inl e) \<Rightarrow> Done c (Inl e)
      | Ret (fo, c, Inr tn) \<Rightarrow> Relaying c tn)"

lemma refuse_polymorphic:
  "snd (refuse e c :: conn \<times> (transport_error + 'a)) = Inl err \<longleftrightarrow> snd (refuse e c :: conn \<times> (transport_error + unit)) = Inl err"
  "fst (refuse e c :: conn \<times> (transport_error + 'a)) = fst (refuse e c :: conn \<times> (transport_error + unit))"
  by (auto simp: refuse_def bindE_def failE_def split: prod.split sum.split)

lemma refuse_Inl: "\<exists>err. snd (refuse e c) = Inl err"
  by (auto simp: refuse_def bindE_def failE_def split: prod.split sum.split)

lemma handler_task_refuse: "handler_task (Ret (fo, refuse e c)) = done_refused e c"
proof -
  obtain c1 err where r: "(refuse e c :: conn \<times> (transport_error + tunnel)) = (c1, Inl err)"
    using refuse_Inl [of e c] by (metis prod.collapse)
  then have "(refuse e c :: conn \<times> (transport_error + unit)) = (c1, Inl err)"
    using refuse_polymorphic [of e c, where ?'a = tunnel] by (metis fst_conv prod.collapse snd_conv)
  with r show ?thesis by (simp add: handler_task_def done_refused_def)
qed

lemma handler_task_simps [simp]:
  "handler_task Panic = Crashed"
  "handler_task (Ret (fo, c, Inl e)) = Done c (Inl e)"
  "handler_task (Ret (fo, c, Inr tn)) = Relaying c tn"
  by (simp_all add: handler_task_def)

lemma task_fail_final:
  "(case task_fail now sysnow fo err c of
      (fo2, InSession c h p e r w) \<Rightarrow> g fo2 c h p e r w | (fo2, tk) \<Rightarrow> tk) = snd (task_fail now sysnow fo err c)"
  by (auto simp: task_fail_def done_refused_def split: outcome.split prod.split)

lemma task_session_handler:
  "handler_task
     (case open_session F A K d e h p r w of
        Panic \<Rightarrow> Panic
      | Ret (SessionFailed err) \<Rightarrow> Ret (fo, c, Inl err)
      | Ret (SessionRefused err) \<Rightarrow> Ret (fo, refuse err c)
      | Ret (SessionUp tn) \<Rightarrow>
          (case report_success (others_later d fo) of
             Panic \<Rightarrow> Panic
           | Ret fo \<Rightarrow> Ret (fo, bindE (sock_write (socks_reply REP_SUCCESS)) (\<lambda>_. retE tn) c)))
   = snd (task_session F A K d (others_later d fo) c h p e r w)"
  by (auto simp: task_session_def handler_task_refuse bindE_def retE_def
      split: outcome.split session_result.split prod.split sum.split)

lemma task_phases_handler:
  "handler_task (handle_connection F N A K \<lparr>timed_out = late, others = f1, at = now, at_sys = sysnow\<rparr> d c fo) =
     (case task_begin F fo c of
        Connecting c h p e \<Rightarrow>
          (case task_connect N late now sysnow (f1 fo) c h p e of
             (fo2, InSession c h p e r w) \<Rightarrow> snd (task_session F A K d (others_later d fo2) c h p e r w)
           | (fo2, tk) \<Rightarrow> tk)
      | tk \<Rightarrow> tk)"
proof -
  obtain c1 req where sr: "socks_request F c = (c1, req)" by fastforce
  consider (bad) e where "req = Inl e" | (panic) h p where "req = Inr (h, p)" "current_endpoint fo = Panic"
    | (go) h p e where "req = Inr (h, p)" "current_endpoint fo = Ret e"
    by (cases req; cases "current_endpoint fo") auto
  then show ?thesis
  proof cases
    case bad
    then show ?thesis using sr by (simp add: handle_connection_def task_begin_def)
  next
    case panic
    then show ?thesis using sr by (simp add: handle_connection_def connect_tls_def task_begin_def)
  next
    case (go h p e)
    obtain res where res: "tls_connect_endpoint N e = Ret res" using tls_connect_endpoint_ret by blast
    note defs = handle_connection_def connect_tls_def task_begin_def task_connect_def
    show ?thesis
    proof (cases "late \<or> (\<exists>err. res = Inl err)")
      case True
      then show ?thesis using sr go res
        by (cases "report_failure (f1 fo) now sysnow")
          (auto simp: defs fail_report_def task_fail_final, auto simp: task_fail_def handler_task_refuse)
    next
      case False
      then obtain r w where "res = Inr (r, w)" by (cases res) auto
      with False show ?thesis using sr go res by (simp add: defs task_session_handler)
    qed
  qed
qed

text \<open>The same phases, for the manager that the handler hands back.\<close>

definition final_task :: "task \<Rightarrow> bool" where
  "final_task tk \<longleftrightarrow> (case tk of Done c res \<Rightarrow> True | _ \<Rightarrow> False)"

lemma final_task_simps [simp]:
  "final_task (Done c res)" "\<not> final_task (Connecting c h p e)" "\<not> final_task (InSession c h p e r w)" "final_task (done_refused err c)"
  "\<not> final_task Crashed" "\<not> final_task (Accepted c)" "\<not> final_task (Relaying c tn)"
  by (simp_all add: final_task_def done_refused_def split: prod.split)

text \<open>The session phase reports to the manager when the tunnel came up, and not otherwise.\<close>

definition session_reports :: "std_fmt \<Rightarrow> aead \<Rightarrow> kex \<Rightarrow> session_draw \<Rightarrow> task \<Rightarrow> bool" where
  "session_reports F A K d tk \<longleftrightarrow>
     (case tk of
        InSession c h p e r w \<Rightarrow> (case open_session F A K d e h p r w of Ret (SessionUp tn) \<Rightarrow> True | _ \<Rightarrow> False)
      | _ \<Rightarrow> False)"

lemma session_reports_simps [simp]:
  "\<not> session_reports F A K d (Accepted c)" "\<not> session_reports F A K d (Connecting c h p e)" "\<not> session_reports F A K d (Done c res)"
  "\<not> session_reports F A K d Crashed" "\<not> session_reports F A K d (Relaying c tn)"
  by (simp_all add: session_reports_def)

lemma session_quiet:
  "\<not> session_reports F A K d (InSession c h p e r w) \<Longrightarrow> fst (task_session F A K d fo c h p e r w) = fo"
  by (auto simp: session_reports_def task_session_def split: outcome.splits session_result.splits)

lemma handler_manager:
  assumes "handle_connection F N A K \<lparr>timed_out = late, others = f1, at = now, at_sys = sysnow\<rparr> d c fo = Ret (fo', c', res)"
  shows "(final_task (task_begin F fo c) \<and> fo' = fo)
    \<or> (\<exists>c1 h p e. task_begin F fo c = Connecting c1 h p e
        \<and> (let (fo2, tk) = task_connect N late now sysnow (f1 fo) c1 h p e in
             final_task tk \<and> fo' = fo2
             \<or> (\<exists>r w. tk = InSession c1 h p e r w \<and> fo2 = f1 fo
                  \<and> fo' = (if session_reports F A K d tk then fst (task_session F A K d (others_later d fo2) c1 h p e r w) else fo2))))"
proof -
  obtain c1 req where sr: "socks_request F c = (c1, req)" by fastforce
  consider (bad) e where "req = Inl e" | (panic) h p where "req = Inr (h, p)" "current_endpoint fo = Panic"
    | (go) h p e where "req = Inr (h, p)" "current_endpoint fo = Ret e"
    by (cases req; cases "current_endpoint fo") auto
  then show ?thesis
  proof cases
    case bad
    then show ?thesis using sr assms by (simp add: handle_connection_def task_begin_def)
  next
    case panic
    then show ?thesis using sr assms by (simp add: handle_connection_def connect_tls_def)
  next
    case (go h p e)
    obtain res' where res': "tls_connect_endpoint N e = Ret res'" using tls_connect_endpoint_ret by blast
    note defs = handle_connection_def connect_tls_def task_begin_def task_connect_def
    show ?thesis
    proof (cases "late \<or> (\<exists>err. res' = Inl err)")
      case True
      then show ?thesis using sr go res' assms
        by (cases "report_failure (f1 fo) now sysnow") (auto simp: defs fail_report_def task_fail_def)
    next
      case False
      then obtain r w where "res' = Inr (r, w)" by (cases res') auto
      with False show ?thesis using sr go res' assms
        by (auto simp: defs session_reports_def task_session_def bindE_def retE_def split: outcome.splits session_result.splits prod.splits sum.splits)
    qed
  qed
qed

text \<open>Events of other tasks leave a task where it is.\<close>

definition foreign :: "nat \<Rightarrow> proxy_event \<Rightarrow> bool" where
  "foreign i x \<longleftrightarrow> event_task x \<noteq> Some i \<and> (\<forall>e. x \<noteq> PxAcceptFailed e)"

lemma foreign_step:
  assumes "foreign i x" and "i < length (ps_tasks s)" and "ps_error s = None"
  shows "ps_tasks (proxy_exec F N A K s x) ! i = ps_tasks s ! i \<and> i < length (ps_tasks (proxy_exec F N A K s x))
    \<and> ps_error (proxy_exec F N A K s x) = None"
proof (cases "event_task x")
  case None
  then show ?thesis using assms by (cases x) (auto simp: proxy_exec_def foreign_def nth_append)
next
  case (Some j)
  then show ?thesis using assms by (auto simp: proxy_exec_def foreign_def split: prod.split)
qed

lemma foreign_run:
  assumes "list_all (foreign i) xs" and "i < length (ps_tasks s)" and "ps_error s = None"
  shows "ps_tasks (foldl (proxy_exec F N A K) s xs) ! i = ps_tasks s ! i
    \<and> i < length (ps_tasks (foldl (proxy_exec F N A K) s xs)) \<and> ps_error (foldl (proxy_exec F N A K) s xs) = None"
  using assms
proof (induction xs arbitrary: s)
  case (Cons x xs)
  with Cons.IH [of "proxy_exec F N A K s x"] foreign_step [of i x s F N A K] show ?case by simp
qed simp

lemma own_step:
  assumes "event_task x = Some i" and "i < length (ps_tasks s)" and "ps_error s = None"
  shows "ps_tasks (proxy_exec F N A K s x) ! i = snd (task_step F N A K (ps_failover s) (ps_tasks s ! i) x)
    \<and> ps_failover (proxy_exec F N A K s x) = fst (task_step F N A K (ps_failover s) (ps_tasks s ! i) x)
    \<and> i < length (ps_tasks (proxy_exec F N A K s x)) \<and> ps_error (proxy_exec F N A K s x) = None"
  using assms by (simp add: proxy_exec_def split: prod.split)

section \<open>Properties\<close>

text \<open>
  The tasks of the proxy never crash: with endpoints that the parser accepted, after any
  interleaving of any number of connections, timeouts, handshakes and relays, with any network, no
  task has panicked, the failover manager is well formed with the same endpoints, and every task
  that is connecting or in its handshake works on one of them.
\<close>

theorem proxy_tasks_never_crash:
  assumes "parse_endpoints from_json json = Inr eps"
  shows "let s = foldl (proxy_exec F N A K) (run_with_listener (proxy_new b (failover_new eps) key)) xs in
    Crashed \<notin> set (ps_tasks s) \<and> failover_wf (ps_failover s) \<and> endpoints (ps_failover s) = eps
    \<and> (\<forall>c h p e. Connecting c h p e \<in> set (ps_tasks s) \<longrightarrow> e \<in> set eps)
    \<and> (\<forall>c h p e r w. InSession c h p e r w \<in> set (ps_tasks s) \<longrightarrow> e \<in> set eps)"
proof -
  have ok: "endpoints_ok eps" using assms by (simp add: parse_endpoints_Inr)
  then have "eps \<noteq> []" by (simp add: endpoints_ok_def)
  then have "failover_wf (failover_new eps)" by (rule failover_wf_new)
  then have "proxy_inv eps (run_with_listener (proxy_new b (failover_new eps) key))"
    using ok by (simp add: proxy_inv_def run_with_listener_def proxy_new_def failover_good_def failover_new_def)
  then have inv: "proxy_inv eps (foldl (proxy_exec F N A K) (run_with_listener (proxy_new b (failover_new eps) key)) xs)"
    by (rule proxy_run.run_inv)
  then have "task_ok eps tk" if "tk \<in> set (ps_tasks (foldl (proxy_exec F N A K) (run_with_listener (proxy_new b (failover_new eps) key)) xs))" for tk
    using that by (simp add: proxy_inv_def list_all_iff)
  from this [of Crashed] this [of "Connecting _ _ _ _"] this [of "InSession _ _ _ _ _ _"] inv show ?thesis
    by (auto simp: Let_def proxy_inv_def failover_good_def)
qed

theorem proxy_tasks_never_crash_witness:
  "Crashed \<notin> set (ps_tasks (foldl (proxy_exec ascii_fmt refusing_net toy_aead toy_kex)
     (run_with_listener (proxy_new 1080 (failover_new [sample_endpoint]) []))
     [PxAccept sample_socks, PxBegin 0, PxConnect 0 False 7 7]))"
proof -
  have "parse_endpoints (\<lambda>_. Inr [sample_endpoint]) [] = Inr [sample_endpoint]"
    using sample_endpoint_ok by (simp add: parse_endpoints_Inr endpoints_ok_def)
  from proxy_tasks_never_crash [OF this] show ?thesis unfolding Let_def by blast
qed

text \<open>What a run of events does to the failover manager, from the rest of a given state.\<close>

definition effect_on_manager ::
  "std_fmt \<Rightarrow> 'tcp net \<Rightarrow> aead \<Rightarrow> kex \<Rightarrow> proxy_state \<Rightarrow> proxy_event list \<Rightarrow> failover_manager \<Rightarrow> failover_manager" where
  "effect_on_manager F N A K s xs fo = ps_failover (foldl (proxy_exec F N A K) (s\<lparr>ps_failover := fo\<rparr>) xs)"

lemma effect_on_manager_self [simp]: "effect_on_manager F N A K s xs (ps_failover s) = ps_failover (foldl (proxy_exec F N A K) s xs)"
  by (simp add: effect_on_manager_def)

text \<open>
  C19. A task among others is the handler. Let a task take its three steps with any events of other tasks
  between them. Then the task ends as \<open>handle_connection\<close> does when its interference parameters are exactly
  what the events in between do to the failover manager; and the manager that \<open>handle_connection\<close> hands
  back is the shared one right after the step in which the task last had to do with it: its first step
  if the request ends it, its second if the connection fails (with the failure recorded on top of what the
  others did) or the session ends without a tunnel (then the third step leaves the manager alone), its third
  if the tunnel came up (with the success recorded on top of what the others did).
\<close>

theorem interleaved_task_is_handler:
  fixes F and N :: "'tcp net" and A K i s c xs ys late now sysnow d
  defines "s1 \<equiv> proxy_exec F N A K s (PxBegin i)"
  defines "s3 \<equiv> proxy_exec F N A K (foldl (proxy_exec F N A K) s1 xs) (PxConnect i late now sysnow)"
  defines "s5 \<equiv> proxy_exec F N A K (foldl (proxy_exec F N A K) s3 ys) (PxSession i d)"
  defines "r \<equiv> handle_connection F N A K
      \<lparr>timed_out = late, others = effect_on_manager F N A K s1 xs, at = now, at_sys = sysnow\<rparr>
      (d\<lparr>others_later := effect_on_manager F N A K s3 ys\<rparr>) c (ps_failover s)"
  assumes "i < length (ps_tasks s)" and "ps_tasks s ! i = Accepted c" and "ps_error s = None"
    and "list_all (foreign i) xs" and "list_all (foreign i) ys"
  shows "ps_tasks s5 ! i = handler_task r
    \<and> (case r of Panic \<Rightarrow> True
       | Ret (fo', c', res) \<Rightarrow>
           fo' = ps_failover (if final_task (ps_tasks s1 ! i) then s1 else if session_reports F A K d (ps_tasks s3 ! i) then s5 else s3))
    \<and> (session_reports F A K d (ps_tasks s3 ! i) \<or> ps_failover s5 = ps_failover (foldl (proxy_exec F N A K) s3 ys))"
proof -
  define s2 where "s2 = foldl (proxy_exec F N A K) s1 xs"
  define s4 where "s4 = foldl (proxy_exec F N A K) s3 ys"
  define f1 where "f1 = effect_on_manager F N A K s1 xs"
  define f2 where "f2 = effect_on_manager F N A K s3 ys"
  let ?d = "d\<lparr>others_later := f2\<rparr>"
  have s1: "ps_tasks s1 ! i = task_begin F (ps_failover s) c" "ps_failover s1 = ps_failover s" "i < length (ps_tasks s1)" "ps_error s1 = None"
    using own_step [of "PxBegin i" i s F N A K] assms(5-7) by (simp_all add: s1_def task_step_def)
  have s2: "ps_tasks s2 ! i = task_begin F (ps_failover s) c" "i < length (ps_tasks s2)" "ps_error s2 = None"
    using foreign_run [OF assms(8) s1(3,4), of F N A K] s1(1) by (simp_all add: s2_def)
  have f1: "f1 (ps_failover s) = ps_failover s2"
    using effect_on_manager_self [of F N A K s1 xs] s1(2) by (simp add: f1_def s2_def)
  have s3: "ps_tasks s3 ! i = snd (task_step F N A K (ps_failover s2) (ps_tasks s2 ! i) (PxConnect i late now sysnow))"
    "ps_failover s3 = fst (task_step F N A K (ps_failover s2) (ps_tasks s2 ! i) (PxConnect i late now sysnow))"
    "i < length (ps_tasks s3)" "ps_error s3 = None"
    using own_step [of "PxConnect i late now sysnow" i s2 F N A K] s2 by (simp_all add: s3_def s2_def)
  have s4: "ps_tasks s4 ! i = ps_tasks s3 ! i" "i < length (ps_tasks s4)" "ps_error s4 = None"
    using foreign_run [OF assms(9) s3(3,4), of F N A K] by (simp_all add: s4_def)
  have f2: "f2 (ps_failover s3) = ps_failover s4" by (simp add: f2_def s4_def)
  have s5: "ps_tasks s5 ! i = snd (task_step F N A K (ps_failover s4) (ps_tasks s4 ! i) (PxSession i d))"
    "ps_failover s5 = fst (task_step F N A K (ps_failover s4) (ps_tasks s4 ! i) (PxSession i d))"
    using own_step [of "PxSession i d" i s4 F N A K] s4 by (simp_all add: s5_def s4_def)
  have r: "r = handle_connection F N A K \<lparr>timed_out = late, others = f1, at = now, at_sys = sysnow\<rparr> ?d c (ps_failover s)"
    by (simp add: r_def f1_def f2_def)
  have draws: "draw_secret ?d = draw_secret d" "draw_c2s ?d = draw_c2s d" "draw_s2c ?d = draw_s2c d" by simp_all
  have d: "task_session F A K ?d = task_session F A K d"
    unfolding task_session_def [abs_def] open_session_def draws ..
  have "session_reports F A K ?d = session_reports F A K d"
    unfolding session_reports_def [abs_def] open_session_def draws ..
  note d = d this
  note phases = task_phases_handler [of F N A K late f1 now sysnow ?d c "ps_failover s", folded r, unfolded d f1]
  note manager = handler_manager [of F N A K late f1 now sysnow ?d c "ps_failover s", folded r, unfolded d f1]
  have s4_fold: "foldl (proxy_exec F N A K) s3 ys = s4" by (simp add: s4_def)
  show ?thesis
  proof (cases "\<exists>c1 h p e. task_begin F (ps_failover s) c = Connecting c1 h p e")
    case False
    then have "final_task (task_begin F (ps_failover s) c) \<or> task_begin F (ps_failover s) c = Crashed"
      by (auto simp: task_begin_def split: prod.splits sum.splits outcome.splits)
    then show ?thesis using phases manager False s1 s2 s3 s4 s5
      by (cases "task_begin F (ps_failover s) c") (auto simp: s4_fold task_step_def split: outcome.split prod.split)
  next
    case True
    then obtain c1 h p e where tb: "task_begin F (ps_failover s) c = Connecting c1 h p e" by blast
    obtain fo2 tk where tc: "task_connect N late now sysnow (ps_failover s2) c1 h p e = (fo2, tk)" by fastforce
    have s3': "ps_tasks s3 ! i = tk" "ps_failover s3 = fo2" using s3 s2 tb tc by (simp_all add: task_step_def)
    have "final_task tk \<or> tk = Crashed \<or> (\<exists>r w. tk = InSession c1 h p e r w)"
      using tc by (auto simp: task_connect_def task_fail_def split: if_splits outcome.splits sum.splits prod.splits)
    then consider (ended) "final_task tk \<or> tk = Crashed" | (session) r' w' where "tk = InSession c1 h p e r' w'" by blast
    then show ?thesis
    proof cases
      case ended
      then show ?thesis using phases manager tb tc s1(1,2) s3' s4 s5
        by (cases tk) (auto simp: s4_fold task_step_def final_task_def split: outcome.split prod.split)
    next
      case (session r' w')
      then show ?thesis using phases manager tb tc s1(1,2) s3' s4 s5 f2 session_quiet [of F A K d c1 h p e r' w']
        by (auto simp: s4_fold task_step_def split: outcome.split prod.split)
    qed
  qed
qed

text \<open>Two connections whose endpoint refuses: the second one's failure is recorded between the steps of the first.\<close>

abbreviation sample_exec :: "proxy_state \<Rightarrow> proxy_event \<Rightarrow> proxy_state" where
  "sample_exec \<equiv> proxy_exec ascii_fmt refusing_net toy_aead toy_kex"

definition two_tasks :: proxy_state where
  "two_tasks = \<lparr>ps_failover = sample_fo, ps_tasks = [Accepted sample_socks, Accepted sample_socks], ps_error = None\<rparr>"

definition two_begun :: proxy_state where
  "two_begun = sample_exec two_tasks (PxBegin 0)"

definition two_failed :: proxy_state where
  "two_failed = sample_exec (foldl sample_exec two_begun [PxBegin 1, PxConnect 1 False 6 6]) (PxConnect 0 True 7 7)"

lemma two_tasks_steps: "failure_count (ps_failover two_failed) = Ret 2" "\<not> final_task (ps_tasks two_begun ! 0)"
  "final_task (ps_tasks two_failed ! 0)" "ps_tasks (sample_exec two_failed (PxSession 0 sample_draw)) ! 0 \<noteq> Crashed"
  by code_simp+

theorem interleaved_task_is_handler_witness:
  "failure_count (ps_failover two_failed) = Ret 2 \<and>
   (case handle_connection ascii_fmt refusing_net toy_aead toy_kex
       \<lparr>timed_out = True,
        others = effect_on_manager ascii_fmt refusing_net toy_aead toy_kex two_begun [PxBegin 1, PxConnect 1 False 6 6], at = 7, at_sys = 7\<rparr>
       (sample_draw\<lparr>others_later := effect_on_manager ascii_fmt refusing_net toy_aead toy_kex two_failed []\<rparr>) sample_socks sample_fo of
      Panic \<Rightarrow> False | Ret (fo', c', res) \<Rightarrow> fo' = ps_failover two_failed)"
proof -
  have "\<not> session_reports ascii_fmt toy_aead toy_kex sample_draw (ps_tasks two_failed ! 0)"
    using two_tasks_steps(3) by (auto simp: final_task_def split: task.splits)
  then show ?thesis
    using interleaved_task_is_handler [of 0 two_tasks sample_socks "[PxBegin 1, PxConnect 1 False 6 6]" "[]" ascii_fmt refusing_net
        toy_aead toy_kex True 7 7 sample_draw, folded two_begun_def, folded two_failed_def] two_tasks_steps(1,2,4)
    by (auto simp: foreign_def two_tasks_def split: outcome.splits prod.splits)
qed

end
