(* ===== verification/Proxy_Liveness.thy ===== *)
theory Proxy_Liveness
  imports Proxy_Server
begin

text \<open>
  The proxy and its failover manager over a sequence of connections, one after the other: which endpoint
  each of them tries, and whether it gets through to it.
\<close>

section \<open>A sequence of connections\<close>

text \<open>
  Each connection has its attempt (timeout and clock readings), its random values and its socket. The log
  has, per connection, the endpoint it tried and whether the TCP and TLS phase succeeded.
\<close>

type_synonym request = "attempt \<times> session_draw \<times> conn"

fun serve ::
  "std_fmt \<Rightarrow> 'tcp net \<Rightarrow> aead \<Rightarrow> kex \<Rightarrow> request list \<Rightarrow> failover_manager \<Rightarrow> (failover_manager \<times> (nat \<times> bool) list) outcome" where
  "serve F N A K [] fo = Ret (fo, [])"
| "serve F N A K ((t, d, c) # qs) fo =
     (case handle_connection F N A K t d c fo of
        Panic \<Rightarrow> Panic
      | Ret (fo', c', res) \<Rightarrow>
          (case serve F N A K qs fo' of
             Panic \<Rightarrow> Panic
           | Ret (fo'', log) \<Rightarrow> Ret (fo'', (current_idx fo, \<not> connection_failed F N t c fo) # log)))"

text \<open>A request that names a target, with no other connection at work.\<close>

definition lone_request :: "std_fmt \<Rightarrow> request \<Rightarrow> bool" where
  "lone_request F q \<longleftrightarrow>
     (case q of (t, d, c) \<Rightarrow> others t = id \<and> others_later d = id \<and> \<not> isl (snd (socks_request F c)))"

definition reachable :: "'tcp net \<Rightarrow> endpoint_config \<Rightarrow> bool" where
  "reachable N e \<longleftrightarrow> (\<exists>s. tls_connect_endpoint N e = Ret (Inr s))"

section \<open>The manager on its way through the list\<close>

definition stands :: "endpoint_config list \<Rightarrow> nat \<Rightarrow> failover_manager \<Rightarrow> bool" where
  "stands eps i fo \<longleftrightarrow> failover_wf fo \<and> endpoints fo = eps \<and> current_idx fo = i"

text \<open>The manager is at endpoint \<open>i\<close> after \<open>k\<close> failures there, and has not tried a later one yet.\<close>

definition at_turn :: "endpoint_config list \<Rightarrow> nat \<Rightarrow> u32 \<Rightarrow> failover_manager \<Rightarrow> bool" where
  "at_turn eps i k fo \<longleftrightarrow> stands eps i fo \<and> consecutive_failures (states fo ! i) = k
     \<and> (\<forall>m. i < m \<and> m < length eps \<longrightarrow> states fo ! m = endpoint_state_fresh)"

lemma at_turn_new: "eps \<noteq> [] \<Longrightarrow> at_turn eps 0 0 (failover_new eps)"
  using failover_wf_new [of eps] by (simp add: at_turn_def stands_def failover_new_def endpoint_state_fresh_def)

lemma fresh_not_cooling: "\<not> in_cooldown endpoint_state_fresh now"
  by (simp add: in_cooldown_def endpoint_state_fresh_def)

lemma failure_noted:
  assumes "at_turn eps i k fo" and "k + 1 < FAILURE_THRESHOLD"
  shows "\<exists>fo'. report_failure fo now sysnow = Ret fo' \<and> at_turn eps i (k + 1) fo'"
  using assms report_failure_noted [of fo now sysnow] marked_wf [of fo now] marked_current [of fo now]
  by (auto simp: at_turn_def stands_def)

text \<open>The third failure moves the manager to the next endpoint of the list, whatever the clocks say.\<close>

lemma failure_moves_on:
  assumes at: "at_turn eps i 2 fo" and next_ep: "Suc i < length eps"
  shows "\<exists>fo'. report_failure fo now sysnow = Ret fo' \<and> at_turn eps (Suc i) 0 fo'"
proof -
  have wf: "failover_wf fo" and ep: "endpoints fo = eps" and i: "current_idx fo = i"
    and thr: "FAILURE_THRESHOLD \<le> consecutive_failures (states fo ! current_idx fo) + 1"
    and fresh: "\<forall>m. i < m \<and> m < length eps \<longrightarrow> states fo ! m = endpoint_state_fresh"
    using at by (auto simp: at_turn_def stands_def FAILURE_THRESHOLD_def)
  obtain fo' where r: "report_failure fo now sysnow = Ret fo'" and wf': "failover_wf fo'"
    using report_failure_good [OF wf, of now sysnow] by (auto simp: failover_good_def split: outcome.splits)
  have cool: "\<not> in_cooldown (states fo ! Suc i) now" using fresh next_ep fresh_not_cooling by simp
  obtain k where k: "1 \<le> k" "k < length eps" "fo' = switched (marked fo now) ((i + k) mod length eps) sysnow"
      "\<forall>m. 1 \<le> m \<and> m < k \<longrightarrow> in_cooldown (states fo ! ((i + m) mod length eps)) now"
    using report_failure_move [OF wf r thr, of "Suc i"] next_ep cool ep i by auto
  have "k = 1" using k(1,4) cool next_ep by (metis Suc_eq_plus1 le_neq_implies_less mod_less order_refl)
  then have fo': "fo' = switched (marked fo now) (Suc i) sysnow" using k(3) next_ep by simp
  have "states fo' ! m = endpoint_state_fresh" if "i < m" "m < length eps" for m
    using that fresh i by (simp add: fo')
  then show ?thesis
    using r wf' next_ep ep by (simp add: at_turn_def stands_def endpoint_state_fresh_def) (simp add: fo')
qed

lemma success_stays: "stands eps i fo \<Longrightarrow> report_success fo = Ret fo' \<Longrightarrow> stands eps i fo'"
  by (auto simp: report_success_def stands_def failover_wf_def Let_def)

section \<open>One connection\<close>

lemma lone_request_target:
  assumes "lone_request F (t, d, c)"
  obtains c' h p where "socks_request F c = (c', Inr (h, p))"
  using assms by (cases "socks_request F c"; cases "snd (socks_request F c)") (auto simp: lone_request_def)

lemma connection_to_dead_endpoint:
  assumes "lone_request F (t, d, c)" and "stands eps i fo" and "\<not> reachable N (eps ! i)"
    and "report_failure fo (at t) (at_sys t) = Ret fo'"
  shows "connection_failed F N t c fo \<and> (\<exists>c' res. handle_connection F N A K t d c fo = Ret (fo', c', res))"
proof -
  obtain c1 h p where req: "socks_request F c = (c1, Inr (h, p))" by (rule lone_request_target [OF assms(1)])
  have cur: "current_endpoint fo = Ret (eps ! i)" using assms(2) current_endpoint_wf by (auto simp: stands_def)
  obtain e where e: "tls_connect_endpoint N (eps ! i) = Ret (Inl e)"
  proof -
    obtain r where r: "tls_connect_endpoint N (eps ! i) = Ret r" using tls_connect_endpoint_ret by blast
    with assms(3) that show thesis by (cases r) (auto simp: reachable_def)
  qed
  have t: "others t = id" using assms(1) by (simp add: lone_request_def)
  show ?thesis
    using req cur e t assms(4)
    by (auto simp: connection_failed_def handle_connection_def connect_tls_def fail_report_id split: prod.split)
qed

lemma connection_to_live_endpoint:
  assumes "lone_request F (t, d, c)" and at: "stands eps i fo" and "reachable N (eps ! i)"
    and "\<not> timed_out t" and "endpoint_ok (eps ! i)"
  shows "\<not> connection_failed F N t c fo
    \<and> (\<exists>fo' c' res. handle_connection F N A K t d c fo = Ret (fo', c', res) \<and> (fo' = fo \<or> report_success fo = Ret fo'))"
proof -
  obtain c1 h p where req: "socks_request F c = (c1, Inr (h, p))" by (rule lone_request_target [OF assms(1)])
  have cur: "current_endpoint fo = Ret (eps ! i)" using at current_endpoint_wf by (auto simp: stands_def)
  obtain r w where s: "tls_connect_endpoint N (eps ! i) = Ret (Inr (r, w))" using assms(3) by (auto simp: reachable_def)
  obtain res where res: "open_session F A K d (eps ! i) h p r w = Ret res" using open_session_ret [OF assms(5)] by metis
  obtain fo' where ok: "report_success fo = Ret fo'"
    using at report_success_good [of fo] by (auto simp: stands_def failover_good_def split: outcome.splits)
  show ?thesis
    using req cur s res ok assms(1,4)
    by (cases res) (auto simp: connection_failed_def handle_connection_def connect_tls_def lone_request_def split: prod.split)
qed

section \<open>The whole sequence\<close>

text \<open>At an endpoint that answers, the manager stays.\<close>

lemma serve_live:
  assumes "reachable N (eps ! i)" and "endpoint_ok (eps ! i)"
  shows "stands eps i fo \<Longrightarrow> \<forall>q \<in> set qs. lone_request F q \<and> \<not> timed_out (fst q) \<Longrightarrow>
    \<exists>fo'. serve F N A K qs fo = Ret (fo', replicate (length qs) (i, True)) \<and> stands eps i fo'"
proof (induction qs arbitrary: fo)
  case (Cons q qs)
  obtain t d c where q: "q = (t, d, c)" by (cases q)
  obtain fo1 c' res where h: "\<not> connection_failed F N t c fo" "handle_connection F N A K t d c fo = Ret (fo1, c', res)"
      "fo1 = fo \<or> report_success fo = Ret fo1"
    using connection_to_live_endpoint [of F t d c eps i fo N A K] assms Cons.prems q by auto
  have at: "stands eps i fo1" using h(3) Cons.prems(1) success_stays by auto
  obtain fo' where "serve F N A K qs fo1 = Ret (fo', replicate (length qs) (i, True))" "stands eps i fo'"
    using Cons.IH [OF at] Cons.prems(2) by auto
  then show ?case using h Cons.prems(1) by (simp add: q stands_def)
qed simp

text \<open>One connection that fails, and then the rest of the sequence.\<close>

lemma serve_dead:
  assumes "\<not> reachable N (eps ! i)" and "stands eps i fo" and "lone_request F q"
    and "\<exists>fo'. report_failure fo (at (fst q)) (at_sys (fst q)) = Ret fo' \<and> P fo'"
  obtains fo' where "P fo'" "\<And>qs fo'' log. serve F N A K qs fo' = Ret (fo'', log) \<Longrightarrow>
    serve F N A K (q # qs) fo = Ret (fo'', (i, False) # log)"
proof -
  obtain t d c where q: "q = (t, d, c)" by (cases q)
  obtain fo' where r: "report_failure fo (at t) (at_sys t) = Ret fo'" "P fo'" using assms(4) q by auto
  obtain c' res where h: "connection_failed F N t c fo" "handle_connection F N A K t d c fo = Ret (fo', c', res)"
    using connection_to_dead_endpoint [OF assms(3) [unfolded q] assms(2,1) r(1)] by metis
  show thesis
    by (rule that [OF r(2)]) (use h assms(2) in \<open>simp add: q stands_def\<close>)
qed

lemma at_turn_stands: "at_turn eps i k fo \<Longrightarrow> stands eps i fo"
  by (simp add: at_turn_def)

lemma serve_three:
  assumes "\<not> reachable N (eps ! i)" and "at_turn eps i 0 fo" and "Suc i < length eps"
    and "lone_request F q1" "lone_request F q2" "lone_request F q3"
  obtains fo' where "at_turn eps (Suc i) 0 fo'" "\<And>qs fo'' log. serve F N A K qs fo' = Ret (fo'', log) \<Longrightarrow>
    serve F N A K (q1 # q2 # q3 # qs) fo = Ret (fo'', replicate 3 (i, False) @ log)"
proof -
  obtain fo1 where fo1: "at_turn eps i 1 fo1" "\<And>qs fo'' log. serve F N A K qs fo1 = Ret (fo'', log) \<Longrightarrow>
      serve F N A K (q1 # qs) fo = Ret (fo'', (i, False) # log)"
    using serve_dead [OF assms(1) at_turn_stands [OF assms(2)] assms(4), of "at_turn eps i 1"] failure_noted [OF assms(2)]
    by (auto simp: FAILURE_THRESHOLD_def)
  obtain fo2 where fo2: "at_turn eps i 2 fo2" "\<And>qs fo'' log. serve F N A K qs fo2 = Ret (fo'', log) \<Longrightarrow>
      serve F N A K (q2 # qs) fo1 = Ret (fo'', (i, False) # log)"
    using serve_dead [OF assms(1) at_turn_stands [OF fo1(1)] assms(5), of "at_turn eps i 2"] failure_noted [OF fo1(1)]
    by (auto simp: FAILURE_THRESHOLD_def)
  obtain fo3 where fo3: "at_turn eps (Suc i) 0 fo3" "\<And>qs fo'' log. serve F N A K qs fo3 = Ret (fo'', log) \<Longrightarrow>
      serve F N A K (q3 # qs) fo2 = Ret (fo'', (i, False) # log)"
    using serve_dead [OF assms(1) at_turn_stands [OF fo2(1)] assms(6), of "at_turn eps (Suc i) 0"] failure_moves_on [OF fo2(1) assms(3)] by auto
  show thesis
    by (rule that [OF fo3(1)]) (simp add: fo1(2) fo2(2) fo3(2) numeral_3_eq_3 del: serve.simps)
qed

lemma serve_until_live:
  assumes live: "reachable N (eps ! j)" "endpoint_ok (eps ! j)" and "j < length eps"
  shows "at_turn eps i 0 fo \<Longrightarrow> i + n = j \<Longrightarrow> \<forall>m. i \<le> m \<and> m < j \<longrightarrow> \<not> reachable N (eps ! m) \<Longrightarrow>
    3 * n \<le> length qs \<Longrightarrow> \<forall>q \<in> set qs. lone_request F q \<Longrightarrow> \<forall>q \<in> set (drop (3 * n) qs). \<not> timed_out (fst q) \<Longrightarrow>
    \<exists>fo'. serve F N A K qs fo =
        Ret (fo', concat (map (\<lambda>m. replicate 3 (m, False)) [i..<j]) @ replicate (length qs - 3 * n) (j, True))
      \<and> stands eps j fo'"
proof (induction n arbitrary: i fo qs)
  case 0
  then show ?case using serve_live [OF live at_turn_stands [OF "0.prems"(1) [unfolded "0.prems"(2) [simplified]]], of qs F A K] by simp
next
  case (Suc n)
  obtain q1 q2 q3 qs' where qs: "qs = q1 # q2 # q3 # qs'"
    using Suc.prems(4) by (cases qs rule: remdups_adj.cases; cases "tl (tl qs)") auto
  have dead: "\<not> reachable N (eps ! i)" and i: "Suc i < length eps" using Suc.prems(2,3) assms(3) by auto
  obtain fo1 where fo1: "at_turn eps (Suc i) 0 fo1" "\<And>qs fo'' log. serve F N A K qs fo1 = Ret (fo'', log) \<Longrightarrow>
      serve F N A K (q1 # q2 # q3 # qs) fo = Ret (fo'', replicate 3 (i, False) @ log)"
    using serve_three [OF dead Suc.prems(1) i, of F q1 q2 q3 A K] Suc.prems(5) qs by auto
  have "drop (3 * Suc n) qs = drop (3 * n) qs'" by (simp add: qs numeral_3_eq_3)
  then obtain fo' where "serve F N A K qs' fo1 =
        Ret (fo', concat (map (\<lambda>m. replicate 3 (m, False)) [Suc i..<j]) @ replicate (length qs' - 3 * n) (j, True))"
      "stands eps j fo'"
    using Suc.IH [OF fo1(1), of qs'] Suc.prems(2-6) by (auto simp: qs simp del: upt_Suc)
  with fo1(2) Suc.prems(2) show ?case by (simp add: qs upt_conv_Cons del: serve.simps)
qed

section \<open>Recovery\<close>

text \<open>Only the current endpoint has failures on its counter: leaving an endpoint clears it.\<close>

definition idle_clean :: "failover_manager \<Rightarrow> bool" where
  "idle_clean fo \<longleftrightarrow> (\<forall>i < length (states fo). i \<noteq> current_idx fo \<longrightarrow> consecutive_failures (states fo ! i) = 0)"

lemma idle_clean_marked: "idle_clean fo \<Longrightarrow> idle_clean (marked fo now)"
  by (simp add: idle_clean_def)

lemma idle_clean_switched: "failover_wf fo \<Longrightarrow> idle_clean fo \<Longrightarrow> idle_clean (switched fo c sysnow)"
  by (auto simp: idle_clean_def switched_def failover_wf_def nth_list_update)

lemma idle_clean_report_failure:
  assumes "failover_wf fo" and "idle_clean fo" and "report_failure fo now sysnow = Ret fo'"
  shows "idle_clean fo'"
  using assms(1)
proof (cases rule: report_failure_cases [where now = now and sysnow = sysnow])
  case (move k)
  then show ?thesis
    using assms idle_clean_switched [OF marked_wf [OF assms(1)] idle_clean_marked [OF assms(2)]] by auto
qed (use assms idle_clean_marked in auto)

lemma idle_clean_report_success:
  "failover_wf fo \<Longrightarrow> idle_clean fo \<Longrightarrow> report_success fo = Ret fo' \<Longrightarrow> idle_clean fo'"
  by (auto simp: report_success_def idle_clean_def failover_wf_def Let_def)

lemma idle_clean_try_switch:
  assumes "failover_wf fo" and "idle_clean fo" and "try_switch fo now sysnow = Ret (fo', b)"
  shows "idle_clean fo'"
  using assms(1)
proof (cases rule: try_switch_cases [where now = now and sysnow = sysnow])
  case (some k)
  then show ?thesis using assms idle_clean_switched [OF assms(1,2)] by (auto simp: try_switch_def)
qed (use assms in \<open>auto simp: try_switch_def\<close>)

text \<open>So it is in every state a manager can be in.\<close>

definition settled :: "endpoint_config list \<Rightarrow> failover_manager outcome \<Rightarrow> bool" where
  "settled eps r \<longleftrightarrow> failover_good eps r \<and> (case r of Panic \<Rightarrow> False | Ret fo \<Rightarrow> idle_clean fo)"

interpretation settled_run: op_system failover_exec "settled eps" for eps
proof
  fix r :: "failover_manager outcome" and x
  assume s: "settled eps r"
  then obtain fo where fo: "r = Ret fo" "failover_wf fo" "idle_clean fo"
    by (cases r) (auto simp: settled_def failover_good_def)
  have good: "failover_good eps (failover_exec r x)" using s failover_run.exec_inv [of eps r x] by (simp add: settled_def)
  then obtain fo' where fo': "failover_exec r x = Ret fo'" by (auto simp: failover_good_def split: outcome.splits)
  have "idle_clean fo'"
  proof (cases x)
    case (ReportFailure now sysnow)
    then show ?thesis using idle_clean_report_failure [OF fo(2,3)] fo' fo(1) by simp
  next
    case ReportSuccess
    then show ?thesis using idle_clean_report_success [OF fo(2,3)] fo' fo(1) by simp
  next
    case (TrySwitch now sysnow)
    then obtain b where "try_switch fo now sysnow = Ret (fo', b)" using fo' fo(1) by (auto split: outcome.splits)
    then show ?thesis by (rule idle_clean_try_switch [OF fo(2,3)])
  qed
  with good fo' show "settled eps (failover_exec r x)" by (simp add: settled_def)
qed

lemma settled_new: "eps \<noteq> [] \<Longrightarrow> settled eps (Ret (failover_new eps))"
  using failover_wf_new [of eps]
  by (simp add: settled_def failover_good_def idle_clean_def failover_new_def endpoint_state_fresh_def)

text \<open>Failures that the current endpoint still takes before the manager leaves it; the counter may wrap.\<close>

definition patience :: "u32 \<Rightarrow> nat" where
  "patience c = (if c < 3 then 3 - unat c else if c + 1 = 0 then 4 else 1)"

text \<open>An upper bound on the failures before endpoint \<open>g\<close> is reached, \<open>d\<close> steps ahead in the ring.\<close>

definition ahead :: "nat \<Rightarrow> nat \<Rightarrow> nat \<Rightarrow> nat" where
  "ahead n i g = (if i \<le> g then g - i else n + g - i)"

definition burden :: "failover_manager \<Rightarrow> nat \<Rightarrow> nat" where
  "burden fo g = (let d = ahead (length (endpoints fo)) (current_idx fo) g in
     if d = 0 then 0 else 3 * (d - 1) + patience (consecutive_failures (states fo ! current_idx fo)))"

lemma patience_zero [simp]: "patience 0 = 3"
  by (simp add: patience_def)

lemma patience_pos: "0 < patience c"
  by (simp add: patience_def word_less_nat_alt)

lemma patience_noted: "c + 1 < FAILURE_THRESHOLD \<Longrightarrow> patience (c + 1) < patience c"
proof -
  assume a: "c + 1 < FAILURE_THRESHOLD"
  show ?thesis
  proof (cases "c + 1 = 0")
    case True
    then have "\<not> c < 3" by (metis add_diff_cancel_right' diff_0 linorder_not_less word_order.extremum)
    with True show ?thesis by (simp add: patience_def)
  next
    case False
    then have "unat (c + 1) = unat c + 1" by (simp add: unatSuc add.commute)
    with a show ?thesis by (simp add: patience_def FAILURE_THRESHOLD_def word_less_nat_alt)
  qed
qed

lemma patience_le: "patience c \<le> 4"
  unfolding patience_def by auto

lemma ahead_zero: "i < n \<Longrightarrow> g < n \<Longrightarrow> ahead n i g = 0 \<longleftrightarrow> i = g"
  by (auto simp: ahead_def)

lemma ahead_less: "i < n \<Longrightarrow> g < n \<Longrightarrow> ahead n i g < n"
  by (auto simp: ahead_def)

lemma ahead_reaches: "i < n \<Longrightarrow> g < n \<Longrightarrow> (i + ahead n i g) mod n = g"
  by (auto simp: ahead_def)

lemma ahead_step: "i < n \<Longrightarrow> g < n \<Longrightarrow> k \<le> ahead n i g \<Longrightarrow> ahead n ((i + k) mod n) g = ahead n i g - k"
  by (cases "i + k < n") (auto simp: ahead_def le_mod_geq not_less split: if_splits)

text \<open>A failed connection brings the manager nearer to an endpoint that is out of cooldown.\<close>

lemma failure_lightens:
  assumes at: "stands eps i fo" and clean: "idle_clean fo" and g: "g < length eps" "g \<noteq> i" "\<not> in_cooldown (states fo ! g) now"
  obtains fo' where "report_failure fo now sysnow = Ret fo'" "stands eps (current_idx fo') fo'" "idle_clean fo'"
    "states fo' ! g = states fo ! g" "burden fo' g < burden fo g"
proof -
  let ?n = "length eps" and ?d = "ahead (length eps) i g"
  have wf: "failover_wf fo" and ep: "endpoints fo = eps" and i: "current_idx fo = i" "i < ?n"
    using at by (auto simp: stands_def failover_wf_def)
  have len: "length (states fo) = ?n" using wf ep by (simp add: failover_wf_def)
  have d: "0 < ?d" "?d < ?n" "(i + ?d) mod ?n = g"
    using ahead_zero [OF i(2) g(1)] ahead_less [OF i(2) g(1)] ahead_reaches [OF i(2) g(1)] g(2) by auto
  obtain fo' where r: "report_failure fo now sysnow = Ret fo'" and good: "failover_wf fo'" "endpoints fo' = eps"
    using report_failure_good [OF wf, of now sysnow] ep by (auto simp: failover_good_def split: outcome.splits)
  have b: "burden fo g = 3 * (?d - 1) + patience (consecutive_failures (states fo ! i))"
    using d(1) by (simp add: burden_def Let_def ep i(1))
  from wf have "states fo' ! g = states fo ! g \<and> burden fo' g < burden fo g"
  proof (cases rule: report_failure_cases [where now = now and sysnow = sysnow])
    case noted
    then have fo': "fo' = marked fo now" using r by simp
    have "consecutive_failures (states fo' ! i) = consecutive_failures (states fo ! i) + 1"
      using marked_current [OF wf, of now] by (simp add: fo' i(1))
    then have "burden fo' g = 3 * (?d - 1) + patience (consecutive_failures (states fo ! i) + 1)"
      using d(1) by (simp add: burden_def Let_def fo' ep i(1))
    with b patience_noted noted(2) show ?thesis using g(2) i(1) by (simp add: fo')
  next
    case stay
    then show ?thesis using g ep i(1) by auto
  next
    case (move k)
    let ?c = "(i + k) mod ?n"
    have fo': "fo' = switched (marked fo now) ?c sysnow" using r move(1) ep i(1) by simp
    have "\<not> in_cooldown (states (marked fo now) ! ((i + ?d) mod ?n)) now" using g i(1) d(3) by simp
    then have k: "1 \<le> k" "k \<le> ?d" using move(3,6) d(1) ep i(1) by (auto simp: not_less [symmetric])
    then have c: "?c \<noteq> i" using cyclic_step_self [OF i(2), of k] d(2) by simp
    have "?c < ?n" using i(2) by (intro mod_less_divisor) auto
    then have "consecutive_failures (states fo ! ?c) = 0" using clean c len i(1) unfolding idle_clean_def by metis
    then have zero: "consecutive_failures (states fo' ! ?c) = 0" using c i(1) by (simp add: fo')
    have "ahead ?n ?c g = ?d - k" by (rule ahead_step [OF i(2) g(1) k(2)])
    then have "burden fo' g = (if ?d - k = 0 then 0 else 3 * (?d - k - 1) + 3)"
      using zero by (simp add: burden_def Let_def fo' ep)
    also have "\<dots> < burden fo g" using b k patience_pos [of "consecutive_failures (states fo ! i)"] by auto
    finally show ?thesis using g(2) i(1) by (simp add: fo')
  qed
  with r good show thesis
    using that idle_clean_report_failure [OF wf clean r] by (auto simp: stands_def)
qed

lemma serve_recovers:
  assumes ok: "endpoints_ok eps" and g: "g < length eps" "reachable N (eps ! g)"
  shows "stands eps i fo \<Longrightarrow> idle_clean fo \<Longrightarrow> \<not> in_cooldown (states fo ! g) T \<Longrightarrow>
    \<forall>q \<in> set qs. lone_request F q \<and> \<not> timed_out (fst q) \<and> T \<le> at (fst q) \<Longrightarrow>
    \<exists>fo' tried j. serve F N A K qs fo = Ret (fo', map (\<lambda>i. (i, False)) tried @ replicate (length qs - length tried) (j, True))
      \<and> length tried \<le> burden fo g \<and> (length tried < length qs \<longrightarrow> j < length eps \<and> reachable N (eps ! j))"
proof (induction qs arbitrary: i fo)
  case Nil
  then show ?case by (auto intro: exI [of _ "[]"])
next
  case (Cons q qs)
  have i: "i < length eps" using Cons.prems(1) by (auto simp: stands_def failover_wf_def)
  show ?case
  proof (cases "reachable N (eps ! i)")
    case True
    have "endpoint_ok (eps ! i)" using ok i by (auto simp: endpoints_ok_def list_all_length)
    from serve_live [OF True this Cons.prems(1), of "q # qs" F A K] Cons.prems(4)
    obtain fo' where "serve F N A K (q # qs) fo = Ret (fo', replicate (length (q # qs)) (i, True))" by auto
    then show ?thesis using True i by (intro exI [of _ fo'] exI [of _ "[]"] exI [of _ i]) simp
  next
    case False
    then have ne: "g \<noteq> i" using g(2) by auto
    have cool: "\<not> in_cooldown (states fo ! g) (at (fst q))" using in_cooldown_antimono Cons.prems(3,4) by auto
    let ?P = "\<lambda>fo'. stands eps (current_idx fo') fo' \<and> idle_clean fo' \<and> states fo' ! g = states fo ! g \<and> burden fo' g < burden fo g"
    have "\<exists>fo'. report_failure fo (at (fst q)) (at_sys (fst q)) = Ret fo' \<and> ?P fo'"
      using failure_lightens [OF Cons.prems(1,2) g(1) ne cool, of "at_sys (fst q)"] by metis
    then obtain fo1 where fo1: "?P fo1" "\<And>qs fo'' log. serve F N A K qs fo1 = Ret (fo'', log) \<Longrightarrow>
        serve F N A K (q # qs) fo = Ret (fo'', (i, False) # log)"
      using serve_dead [OF False Cons.prems(1), of F q ?P A K] Cons.prems(4) by auto
    have st: "stands eps (current_idx fo1) fo1" "idle_clean fo1" "\<not> in_cooldown (states fo1 ! g) T" using fo1(1) Cons.prems(3) by simp_all
    have qs: "\<forall>q \<in> set qs. lone_request F q \<and> \<not> timed_out (fst q) \<and> T \<le> at (fst q)" using Cons.prems(4) by simp
    obtain fo' tried j where ih: "serve F N A K qs fo1 = Ret (fo', map (\<lambda>i. (i, False)) tried @ replicate (length qs - length tried) (j, True))"
        "length tried \<le> burden fo1 g" "length tried < length qs \<longrightarrow> j < length eps \<and> reachable N (eps ! j)"
      using Cons.IH [OF st qs] by blast
    show ?thesis
      using fo1(2) [OF ih(1)] ih(2,3) fo1(1) by (intro exI [of _ fo'] exI [of _ "i # tried"] exI [of _ j]) auto
  qed
qed

section \<open>Properties\<close>

text \<open>
  C5. The proxy finds the first endpoint that works, in priority order, and stays with it. Let a fresh
  manager have a validated list whose endpoints before the \<open>j\<close>-th cannot be reached, and let connections come
  one after the other, at whatever instants. Then exactly the first \<open>3 * j\<close> of them fail to get a TLS
  connection, three at each endpoint in the order of the list, without skipping or repeating one; every later
  one is connected to endpoint \<open>j\<close>, whether its session succeeds or not. No request panics.
\<close>

theorem first_working_endpoint_is_found:
  assumes "endpoints_ok eps" and "j < length eps" and "reachable N (eps ! j)" and "\<forall>m < j. \<not> reachable N (eps ! m)"
    and "\<forall>q \<in> set qs. lone_request F q" and "3 * j \<le> length qs" and "\<forall>q \<in> set (drop (3 * j) qs). \<not> timed_out (fst q)"
  shows "\<exists>fo. serve F N A K qs (failover_new eps) =
      Ret (fo, concat (map (\<lambda>m. replicate 3 (m, False)) [0..<j]) @ replicate (length qs - 3 * j) (j, True))
    \<and> current_endpoint fo = Ret (eps ! j)"
proof -
  have "endpoint_ok (eps ! j)" "eps \<noteq> []" using assms(1,2) by (auto simp: endpoints_ok_def list_all_length)
  with serve_until_live [OF assms(3) _ assms(2), of 0 "failover_new eps" j qs F A K] at_turn_new assms(4-)
  obtain fo where "serve F N A K qs (failover_new eps) =
      Ret (fo, concat (map (\<lambda>m. replicate 3 (m, False)) [0..<j]) @ replicate (length qs - 3 * j) (j, True))" "stands eps j fo"
    by auto
  then show ?thesis using current_endpoint_wf by (auto simp: stands_def)
qed

text \<open>Two endpoints, of which only the one at port 444 answers; four requests.\<close>

definition half_net :: "unit net" where
  "half_net = \<lparr>net_tcp = (\<lambda>a. if a = bytes_of ''gw.example.com:444'' then Inr () else Inl (IoError ConnectionRefused ''connection refused'')),
     net_valid_name = (\<lambda>_. True), net_tls = (\<lambda>_ _. Inr (cursor [], vec_writer))\<rparr>"

definition two_endpoints :: "endpoint_config list" where
  "two_endpoints = [sample_endpoint, sample_endpoint\<lparr>port := 444\<rparr>]"

lemma two_endpoints_ok: "endpoints_ok two_endpoints"
  using sample_endpoint_ok by (simp add: endpoints_ok_def two_endpoints_def endpoint_ok_def) (simp add: sample_endpoint_def)

lemma sample_request: "lone_request ascii_fmt (sample_attempt False, sample_draw, sample_socks)"
proof -
  have "\<not> isl (snd (socks_request ascii_fmt sample_socks))" by code_simp
  then show ?thesis by (simp add: lone_request_def sample_attempt_def sample_draw_def)
qed

lemma half_net_reach: "\<not> reachable half_net (two_endpoints ! 0)" "reachable half_net (two_endpoints ! 1)"
proof -
  have "(case tls_connect_endpoint half_net (two_endpoints ! 0) of Ret (Inl e) \<Rightarrow> True | _ \<Rightarrow> False)"
    "(case tls_connect_endpoint half_net (two_endpoints ! 1) of Ret (Inr s) \<Rightarrow> True | _ \<Rightarrow> False)" by code_simp+
  then show "\<not> reachable half_net (two_endpoints ! 0)" "reachable half_net (two_endpoints ! 1)"
    by (auto simp: reachable_def split: outcome.splits sum.splits)
qed

theorem first_working_endpoint_is_found_witness:
  "\<exists>fo. serve ascii_fmt half_net toy_aead toy_kex (replicate 4 (sample_attempt False, sample_draw, sample_socks))
        (failover_new two_endpoints) = Ret (fo, [(0, False), (0, False), (0, False), (1, True)])
    \<and> current_endpoint fo = Ret (sample_endpoint\<lparr>port := 444\<rparr>)"
  using first_working_endpoint_is_found [OF two_endpoints_ok, of 1 half_net
      "replicate 4 (sample_attempt False, sample_draw, sample_socks)" ascii_fmt toy_aead toy_kex] sample_request half_net_reach
  by (simp add: two_endpoints_def sample_attempt_def numeral_eq_Suc)

text \<open>
  C6. The proxy recovers from an outage. Whatever failures, successes and switches a manager has seen, at whatever
  instants: when an endpoint of its list can be reached again and its cooldown is over at an instant \<open>T\<close>, then
  of the requests that arrive from \<open>T\<close> on, one after the other, at most \<open>3 * (n - 1) + 1\<close> fail to get a TLS
  connection, with \<open>n\<close> endpoints in the list; all later ones are connected to one endpoint that can be reached.
\<close>

theorem recovered_endpoint_is_served:
  assumes ok: "endpoints_ok eps" and run: "foldl failover_exec (Ret (failover_new eps)) ops = Ret fo"
    and g: "g < length eps" "reachable N (eps ! g)" "\<not> in_cooldown (states fo ! g) T"
    and qs: "\<forall>q \<in> set qs. lone_request F q \<and> \<not> timed_out (fst q) \<and> T \<le> at (fst q)" "3 * (length eps - 1) + 1 < length qs"
  shows "\<exists>fo' tried j. serve F N A K qs fo = Ret (fo', map (\<lambda>i. (i, False)) tried @ replicate (length qs - length tried) (j, True))
    \<and> length tried \<le> 3 * (length eps - 1) + 1 \<and> j < length eps \<and> reachable N (eps ! j)"
proof -
  have "settled eps (foldl failover_exec (Ret (failover_new eps)) ops)"
    using ok by (intro settled_run.run_inv settled_new) (simp add: endpoints_ok_def)
  then have st: "stands eps (current_idx fo) fo" "idle_clean fo"
    using run by (auto simp: settled_def failover_good_def stands_def)
  have i: "current_idx fo < length eps" using st(1) by (auto simp: stands_def failover_wf_def)
  have ep: "endpoints fo = eps" using st(1) by (simp add: stands_def)
  have "burden fo g \<le> 3 * (length eps - 1) + 1"
    using ahead_less [OF i g(1)] patience_le [of "consecutive_failures (states fo ! current_idx fo)"] by (auto simp: burden_def Let_def ep)
  with serve_recovers [OF ok g(1,2) st g(3) qs(1), of A K] qs(2) show ?thesis by fastforce
qed

definition late_request :: request where
  "late_request = (\<lparr>timed_out = False, others = id, at = secs 70, at_sys = 0\<rparr>, sample_draw, sample_socks)"

theorem recovered_endpoint_is_served_witness:
  "\<exists>fo fo' tried j. foldl failover_exec (Ret (failover_new two_endpoints)) [TrySwitch 5 0, ReportFailure 6 0] = Ret fo
    \<and> serve ascii_fmt half_net toy_aead toy_kex (replicate 6 late_request) fo
        = Ret (fo', map (\<lambda>i. (i, False)) tried @ replicate (6 - length tried) (j, True))
    \<and> length tried \<le> 4 \<and> reachable half_net (two_endpoints ! j)"
proof -
  have below: "\<not> (3 :: u32) \<le> 1" by (simp add: word_le_nat_alt)
  obtain fo where fo: "foldl failover_exec (Ret (failover_new two_endpoints)) [TrySwitch 5 0, ReportFailure 6 0] = Ret fo"
      "states fo ! 1 = \<lparr>consecutive_failures = 1, last_failure = Some 6\<rparr>"
    by (simp add: two_endpoints_def failover_new_def endpoint_state_fresh_def try_switch_def try_switch_locked_def in_cooldown_def
        report_failure_def FAILURE_THRESHOLD_def Let_def numeral_2_eq_2 below)
  have "\<not> in_cooldown (states fo ! 1) (secs 70)" using fo(2) by (simp add: in_cooldown_recorded secs_def)
  moreover have "lone_request ascii_fmt late_request"
    using sample_request by (simp add: lone_request_def late_request_def sample_attempt_def)
  ultimately show ?thesis
    using recovered_endpoint_is_served [OF two_endpoints_ok fo(1), of 1 half_net "secs 70" "replicate 6 late_request" ascii_fmt toy_aead toy_kex]
      fo(1) half_net_reach(2) by (auto simp: two_endpoints_def late_request_def)
qed

end
