(* ===== verification/Gateway_Main.thy ===== *)
theory Gateway_Main
  imports Gateway_Server Endpoint
begin

text \<open>
  The start-up and the accept loop of \<open>gateway/src/main.rs\<close>, and the key helper
  \<open>gateway/examples/compute_pubkey.rs\<close>. The parsed command line is a record; the file system, the
  PEM reader, rustls and the listening sockets are parameters. The accept loop is run on a list of
  events: connections, a failing \<open>accept\<close>, ending tasks and ticks of the cleanup task.
\<close>

section \<open>Keys from the command line\<close>

datatype hex_key_error = KeyLength nat | KeyUtf8 | KeyDigits

fun parse_hex_pairs :: "bytes \<Rightarrow> hex_key_error + bytes" where
  "parse_hex_pairs [] = Inr []"
| "parse_hex_pairs [a] =
     (if \<not> utf8_valid [a] then Inl KeyUtf8
      else case u8_from_str_radix16 [a] of None \<Rightarrow> Inl KeyDigits | Some v \<Rightarrow> Inr [v])"
| "parse_hex_pairs (a # b # r) =
     (if \<not> utf8_valid [a, b] then Inl KeyUtf8
      else case u8_from_str_radix16 [a, b] of
             None \<Rightarrow> Inl KeyDigits
           | Some v \<Rightarrow> map_sum id (\<lambda>vs. v # vs) (parse_hex_pairs r))"

definition parse_hex_key :: "bytes \<Rightarrow> hex_key_error + bytes" where
  "parse_hex_key hex = (if length hex \<noteq> 64 then Inl (KeyLength (length hex)) else parse_hex_pairs hex)"

definition hex_key_message :: "nat \<Rightarrow> string" where
  "hex_key_message n = ''--secret must be 64 hex chars (32 bytes), got '' @ show_nat n"

text \<open>
  \<open>compute_pubkey\<close> fills an array of 32 zeros pair by pair; a pair beyond the array, or one that is
  not a number, panics.
\<close>

fun fill_secret :: "nat \<Rightarrow> bytes \<Rightarrow> bytes \<Rightarrow> bytes outcome" where
  "fill_secret i [] arr = Ret arr"
| "fill_secret i [a] arr =
     (case (utf8_valid [a], u8_from_str_radix16 [a]) of
        (True, Some v) \<Rightarrow> if i < length arr then Ret (arr[i := v]) else Panic
      | _ \<Rightarrow> Panic)"
| "fill_secret i (a # b # r) arr =
     (case (utf8_valid [a, b], u8_from_str_radix16 [a, b]) of
        (True, Some v) \<Rightarrow> if i < length arr then fill_secret (Suc i) r (arr[i := v]) else Panic
      | _ \<Rightarrow> Panic)"

definition compute_pubkey :: "kex \<Rightarrow> bytes option \<Rightarrow> bytes outcome" where
  "compute_pubkey K secret_hex =
     (case secret_hex of
        None \<Rightarrow> Panic
      | Some hex \<Rightarrow>
          (case fill_secret 0 hex (replicate 32 0) of
             Panic \<Rightarrow> Panic
           | Ret secret_bytes \<Rightarrow> Ret (hex_encode (kx_public K secret_bytes))))"

section \<open>Start-up\<close>

definition TEST_MODE_SERVER_SECRET :: bytes where
  "TEST_MODE_SERVER_SECRET = map of_nat [1..<33]"

definition TEST_MODE_CLIENT_PSK :: bytes where
  "TEST_MODE_CLIENT_PSK = concat (replicate 4 [0xAB, 0xCD, 0xEF, 0x01, 0x23, 0x45, 0x67, 0x89])"

definition MAX_CONCURRENT_CONNECTIONS :: nat where
  "MAX_CONCURRENT_CONNECTIONS = 5000"

record gateway_args =
  ga_bind :: "ip_addr \<times> u16"
  ga_cert :: string
  ga_key :: string
  ga_secret :: bytes
  ga_server_private_key :: bytes
  ga_fallback_cdn :: bytes
  ga_jwt_secret :: string
  ga_hmac_key :: bytes
  ga_client_psk :: "bytes option"
  ga_metrics_bind :: "ip_addr \<times> u16"
  ga_test_mode :: bool

record ('cert, 'pkey, 'cfg) host_lib =
  fs_read :: "string \<Rightarrow> io_error + bytes"
  pem_certs :: "bytes \<Rightarrow> io_error + 'cert list"
  pem_private_key :: "bytes \<Rightarrow> io_error + 'pkey option"
  with_single_cert :: "'cert list \<Rightarrow> 'pkey \<Rightarrow> string + 'cfg"
  tcp_bind :: "ip_addr \<times> u16 \<Rightarrow> io_error + unit"

datatype startup_error =
    BadKey hex_key_error
  | PskRequired
  | OsError io_error
  | NoPrivateKey string
  | TlsRejected string

definition load_tls_config :: "('cert, 'pkey, 'cfg) host_lib \<Rightarrow> string \<Rightarrow> string \<Rightarrow> startup_error + 'cfg" where
  "load_tls_config L cert_path key_path =
     (case fs_read L cert_path of Inl e \<Rightarrow> Inl (OsError e) | Inr cert_data \<Rightarrow>
      case fs_read L key_path of Inl e \<Rightarrow> Inl (OsError e) | Inr key_data \<Rightarrow>
      case pem_certs L cert_data of Inl e \<Rightarrow> Inl (OsError e) | Inr certs \<Rightarrow>
      case pem_private_key L key_data of
        Inl e \<Rightarrow> Inl (OsError e)
      | Inr None \<Rightarrow> Inl (NoPrivateKey (''no private key found in '' @ key_path))
      | Inr (Some key) \<Rightarrow>
          (case with_single_cert L certs key of Inl e \<Rightarrow> Inl (TlsRejected e) | Inr config \<Rightarrow> Inr config))"

record 'cfg gateway_config =
  gc_server_key :: bytes
  gc_client_psk :: bytes
  gc_fallback :: bytes
  gc_auth :: auth_manager
  gc_tls :: 'cfg
  gc_test_mode :: bool

text \<open>The steps of \<open>main\<close> up to the accept loop, in their order; the first failure ends the program.\<close>

definition key_arg :: "bool \<Rightarrow> bytes \<Rightarrow> bytes \<Rightarrow> startup_error + bytes" where
  "key_arg test fixed hex =
     (if test then Inr fixed else case parse_hex_key hex of Inl e \<Rightarrow> Inl (BadKey e) | Inr k \<Rightarrow> Inr k)"

definition psk_arg :: "bool \<Rightarrow> bytes option \<Rightarrow> startup_error + bytes" where
  "psk_arg test given =
     (if test then Inr TEST_MODE_CLIENT_PSK
      else case given of None \<Rightarrow> Inl PskRequired | Some hex \<Rightarrow> key_arg test [] hex)"

definition gateway_startup ::
  "('cert, 'pkey, 'cfg) host_lib \<Rightarrow> gateway_args \<Rightarrow> startup_error + 'cfg gateway_config" where
  "gateway_startup L a =
     (let test = ga_test_mode a in
      case key_arg test (replicate 32 0) (ga_secret a) of Inl e \<Rightarrow> Inl e | Inr _ \<Rightarrow>
      case key_arg test TEST_MODE_SERVER_SECRET (ga_server_private_key a) of Inl e \<Rightarrow> Inl e | Inr server_key \<Rightarrow>
      case psk_arg test (ga_client_psk a) of Inl e \<Rightarrow> Inl e | Inr client_psk \<Rightarrow>
      case key_arg False [] (ga_hmac_key a) of Inl e \<Rightarrow> Inl e | Inr hmac_key \<Rightarrow>
      case load_tls_config L (ga_cert a) (ga_key a) of Inl e \<Rightarrow> Inl e | Inr tls \<Rightarrow>
      case tcp_bind L (ga_bind a) of
        Inl e \<Rightarrow> Inl (OsError e)
      | Inr _ \<Rightarrow>
          Inr \<lparr>gc_server_key = server_key, gc_client_psk = client_psk, gc_fallback = ga_fallback_cdn a,
               gc_auth = auth_new (ga_jwt_secret a) hmac_key, gc_tls = tls, gc_test_mode = test\<rparr>)"

text \<open>What a connection's task sees of the configuration.\<close>

definition gateway_env_of ::
  "'cfg gateway_config \<Rightarrow> ('cfg \<Rightarrow> bytes \<Rightarrow> io_error + conn) \<Rightarrow> jwt_lib \<Rightarrow> (bytes \<Rightarrow> string) \<Rightarrow> int \<Rightarrow> gateway_env" where
  "gateway_env_of c accept J hex now =
     \<lparr>tls_accept = accept (gc_tls c), env_jwt = J, env_hex_encode = hex, env_now = now,
      env_server_key = gc_server_key c, env_client_psk = gc_client_psk c, env_auth = gc_auth c,
      test_mode = gc_test_mode c\<rparr>"

section \<open>The accept loop\<close>

text \<open>
  The loop owns the address table, the semaphore and, through the spawned tasks, the permits that
  are out. A task is known by its number, with the address and instant of its connection. The list
  of panicked tasks is history that only the statements use. \<open>loop_error\<close> is the error with which
  \<open>main\<close> returned.
\<close>

record 'f accept_loop =
  al_ips :: ip_table
  al_permits :: nat
  al_tasks :: "(nat \<times> ip_addr \<times> nat) list"
  al_spawned :: "(nat \<times> ip_addr \<times> nat) list"
  al_panicked :: "nat list"
  al_metrics :: "'f metrics"
  loop_error :: "io_error option"

definition accept_loop_new :: "'f metrics \<Rightarrow> 'f accept_loop" where
  "accept_loop_new m = \<lparr>al_ips = [], al_permits = MAX_CONCURRENT_CONNECTIONS, al_tasks = [], al_spawned = [],
     al_panicked = [], al_metrics = m, loop_error = None\<rparr>"

datatype loop_event =
    Incoming nat ip_addr
  | AcceptFailed io_error
  | TaskEnds nat "io_error + bytes" bytes gateway_env
  | CleanupTick nat

definition rate_check :: "bool \<Rightarrow> nat \<Rightarrow> ip_addr \<Rightarrow> ip_table \<Rightarrow> ip_table \<times> bool" where
  "rate_check test now ip ips = (if \<not> test \<or> \<not> is_loopback ip then ip_check now ip ips else (ips, True))"

definition accept_connection :: "bool \<Rightarrow> nat \<Rightarrow> ip_addr \<Rightarrow> 'f accept_loop \<Rightarrow> 'f accept_loop" where
  "accept_connection test now ip s =
     (case rate_check test now ip (al_ips s) of
        (ips, False) \<Rightarrow> s\<lparr>al_ips := ips\<rparr>
      | (ips, True) \<Rightarrow>
          if al_permits s = 0 then s\<lparr>al_ips := ips\<rparr>
          else let task = (length (al_spawned s), ip, now) in
            s\<lparr>al_ips := ips, al_permits := al_permits s - 1,
              al_tasks := al_tasks s @ [task], al_spawned := al_spawned s @ [task],
              al_metrics := inc_connections_total (inc_connections_active (al_metrics s))\<rparr>)"

text \<open>A task that ends returns its permit, also when it panics; the gauge goes down only when it does not.\<close>

definition end_task ::
  "kex \<Rightarrow> nat \<Rightarrow> io_error + bytes \<Rightarrow> bytes \<Rightarrow> gateway_env \<Rightarrow> 'f accept_loop \<Rightarrow> 'f accept_loop" where
  "end_task K i first es G s =
     (if i \<notin> fst ` set (al_tasks s) then s
      else
        let s = s\<lparr>al_tasks := filter (\<lambda>t. fst t \<noteq> i) (al_tasks s), al_permits := al_permits s + 1\<rparr> in
        case handle_tcp_connection first K es G (al_metrics s) of
          Panic \<Rightarrow> s\<lparr>al_panicked := al_panicked s @ [i]\<rparr>
        | Ret (m, v) \<Rightarrow> s\<lparr>al_metrics := dec_connections_active m\<rparr>)"

text \<open>An error of \<open>accept\<close> ends \<open>main\<close>; the runtime is dropped and with it every task.\<close>

definition stop_loop :: "io_error \<Rightarrow> 'f accept_loop \<Rightarrow> 'f accept_loop" where
  "stop_loop e s = s\<lparr>loop_error := Some e, al_permits := al_permits s + length (al_tasks s), al_tasks := []\<rparr>"

fun loop_exec :: "kex \<Rightarrow> bool \<Rightarrow> 'f accept_loop \<Rightarrow> loop_event \<Rightarrow> 'f accept_loop" where
  "loop_exec K test s (Incoming now ip) = (if loop_error s = None then accept_connection test now ip s else s)"
| "loop_exec K test s (AcceptFailed e) = (if loop_error s = None then stop_loop e s else s)"
| "loop_exec K test s (TaskEnds i first es G) = (if loop_error s = None then end_task K i first es G s else s)"
| "loop_exec K test s (CleanupTick now) = (if loop_error s = None then s\<lparr>al_ips := ip_cleanup now (al_ips s)\<rparr> else s)"

section \<open>Keys: lemmas\<close>

lemma radix16_pair_ascii:
  assumes "u8_from_str_radix16 [a, b] = Some v"
  shows "a < 0x80 \<and> b < 0x80 \<and> \<not> is_cont a \<and> \<not> is_cont b"
proof -
  have dig: "\<exists>d. to_digit16 x = Some d \<Longrightarrow> x < 0x80 \<and> \<not> is_cont x" for x
    using hexdigit_ascii [of x] by (auto simp: is_ascii_hexdigit_iff)
  have "a = 0x2B \<or> (\<exists>d. to_digit16 a = Some d)" "\<exists>d. to_digit16 b = Some d"
    using assms by (auto simp: u8_from_str_radix16_def split: if_splits option.splits)
  moreover have "(0x2B :: u8) < 0x80" "\<not> is_cont 0x2B" by (simp_all add: is_cont_def)
  ultimately show ?thesis using dig [of a] dig [of b] by auto
qed

lemma parse_hex_pairs_cont: "is_cont a \<Longrightarrow> parse_hex_pairs (a # b # r) \<noteq> Inr vs"
proof
  assume "is_cont a" "parse_hex_pairs (a # b # r) = Inr vs"
  then obtain v where "u8_from_str_radix16 [a, b] = Some v" by (auto split: if_splits option.splits)
  from radix16_pair_ascii [OF this] \<open>is_cont a\<close> show False by simp
qed

lemma parse_hex_pairs_decode:
  assumes "length hex = 2 * (i + k)"
  shows "parse_hex_pairs (drop (i * 2) hex) = Inr vs \<longleftrightarrow> decode_hex_loop hex i k = Ret (Some vs)"
  using assms
proof (induction k arbitrary: i vs)
  case 0
  then show ?case by auto
next
  case (Suc k)
  have "2 \<le> length (drop (i * 2) hex)" using Suc.prems by simp
  then obtain a b r where v: "drop (i * 2) hex = a # b # r"
    unfolding numeral_2_eq_2 Suc_le_length_iff by blast
  have nths: "hex ! (i * 2) = a" using hd_drop_conv_nth [of "i * 2" hex] v Suc.prems by simp
  have r: "drop (Suc i * 2) hex = r" using arg_cong [OF v, of "drop 2"] by (simp add: add.commute)
  have IH: "parse_hex_pairs r = Inr us \<longleftrightarrow> decode_hex_loop hex (Suc i) k = Ret (Some us)" for us
    using Suc.IH [of "Suc i" us] Suc.prems r by simp
  show ?case
  proof (cases "u8_from_str_radix16 [a, b]")
    case None
    then show ?thesis using v by (auto simp: str_slice_def split: outcome.split)
  next
    case (Some w)
    note asc = radix16_pair_ascii [OF Some]
    then have u: "utf8_valid [a, b]" by (intro utf8_valid_ascii) auto
    have b0: "is_char_boundary hex (i * 2)" using nths asc Suc.prems by (simp add: is_char_boundary_def)
    show ?thesis
    proof (cases "is_char_boundary hex (i * 2 + 2)")
      case True
      then have "str_slice hex (i * 2) (i * 2 + 2) = Ret [a, b]"
        using b0 v Suc.prems by (simp add: str_slice_def)
      then have "decode_hex_loop hex i (Suc k) = Ret (Some vs) \<longleftrightarrow>
          (\<exists>us. vs = w # us \<and> decode_hex_loop hex (Suc i) k = Ret (Some us))"
        using Some by (auto split: outcome.split)
      moreover have "parse_hex_pairs (drop (i * 2) hex) = Inr vs \<longleftrightarrow> (\<exists>us. vs = w # us \<and> parse_hex_pairs r = Inr us)"
        using v Some u by (cases "parse_hex_pairs r") auto
      ultimately show ?thesis using IH by simp
    next
      case False
      then have lt: "i * 2 + 2 < length hex" and c: "is_cont (hex ! (i * 2 + 2))"
        using Suc.prems by (auto simp: is_char_boundary_def)
      obtain c d r' where r': "r = c # d # r'"
      proof -
        have "2 \<le> length r" using lt Suc.prems r [symmetric] by simp
        then show ?thesis using that unfolding numeral_2_eq_2 Suc_le_length_iff by blast
      qed
      have "c = hex ! (i * 2 + 2)" using hd_drop_conv_nth [OF lt] r r' by (simp add: add.commute)
      then show ?thesis using v Some u r' False parse_hex_pairs_cont [of c d r'] c
        by (cases "parse_hex_pairs r") (auto simp: str_slice_def)
    qed
  qed
qed

lemma parse_hex_key_decode: "parse_hex_key hex = Inr k \<longleftrightarrow> decode_hex32 hex = Ret (Some k)"
  using parse_hex_pairs_decode [of hex 0 32 k] by (simp add: parse_hex_key_def decode_hex32_def KEY_HEX_LEN_def)

lemma parse_hex_pairs_length: "parse_hex_pairs hex = Inr vs \<Longrightarrow> length vs = (length hex + 1) div 2"
proof (induction hex arbitrary: vs rule: parse_hex_pairs.induct)
  case (3 a b r)
  then show ?case by (cases "parse_hex_pairs r") (auto split: if_splits option.splits)
qed (auto split: if_splits option.splits)

lemma fill_secret_spec:
  "fill_secret i hex arr =
     (case parse_hex_pairs hex of
        Inl e \<Rightarrow> Panic
      | Inr vs \<Rightarrow> if vs = [] \<or> i + length vs \<le> length arr
                  then Ret (take i arr @ vs @ drop (i + length vs) arr) else Panic)"
proof (induction hex arbitrary: i arr rule: parse_hex_pairs.induct)
  case (2 a)
  then show ?case
    by (auto simp: upd_conv_take_nth_drop split: option.split)
next
  case (3 a b r)
  show ?case
  proof (cases "utf8_valid [a, b]")
    case True
    show ?thesis
    proof (cases "u8_from_str_radix16 [a, b]")
      case (Some v)
      show ?thesis
        using True Some "3.IH" [of v "Suc i" "arr[i := v]"]
        by (cases "parse_hex_pairs r") (auto simp: take_Suc_conv_app_nth)
    qed (use True in simp)
  qed simp
qed simp

lemma compute_pubkey_key:
  assumes "parse_hex_key hex = Inr k"
  shows "compute_pubkey K (Some hex) = Ret (hex_encode (kx_public K k))"
proof -
  have p: "length hex = 64" "parse_hex_pairs hex = Inr k"
    using assms by (auto simp: parse_hex_key_def split: if_splits)
  then have "length k = 32" using parse_hex_pairs_length [OF p(2)] by simp
  then show ?thesis using p by (simp add: compute_pubkey_def fill_secret_spec)
qed

section \<open>Start-up: lemmas\<close>

lemma key_arg_Inr: "key_arg test fixed hex = Inr k \<longleftrightarrow> (if test then k = fixed else decode_hex32 hex = Ret (Some k))"
  by (auto simp: key_arg_def parse_hex_key_decode [symmetric] split: sum.split)

lemma psk_arg_Inr:
  "psk_arg test given = Inr k \<longleftrightarrow>
     (if test then k = TEST_MODE_CLIENT_PSK else \<exists>hex. given = Some hex \<and> decode_hex32 hex = Ret (Some k))"
  by (auto simp: psk_arg_def key_arg_Inr split: option.split)

lemma case_sum_Inr: "(case x of Inl e \<Rightarrow> Inl e | Inr y \<Rightarrow> f y) = Inr z \<longleftrightarrow> (\<exists>y. x = Inr y \<and> f y = Inr z)"
  by (cases x) auto

lemma case_os_Inr: "(case x of Inl e \<Rightarrow> Inl (OsError e) | Inr _ \<Rightarrow> Inr d) = Inr c \<longleftrightarrow> x = Inr () \<and> d = c"
  for x :: "io_error + unit"
  by (cases x) auto

lemma gateway_startup_keys:
  assumes "gateway_startup L a = Inr c" and "\<not> ga_test_mode a"
  shows "decode_hex32 (ga_server_private_key a) = Ret (Some (gc_server_key c))"
    and "ga_client_psk a = Some hex \<Longrightarrow> decode_hex32 hex = Ret (Some (gc_client_psk c))"
  using assms unfolding gateway_startup_def Let_def case_sum_Inr case_os_Inr key_arg_Inr psk_arg_Inr
  by auto

lemma gateway_startup_test_keys:
  assumes "gateway_startup L a = Inr c"
  shows "gc_test_mode c = ga_test_mode a"
    and "ga_test_mode a \<Longrightarrow> gc_server_key c = TEST_MODE_SERVER_SECRET \<and> gc_client_psk c = TEST_MODE_CLIENT_PSK"
  using assms unfolding gateway_startup_def Let_def case_sum_Inr case_os_Inr key_arg_Inr psk_arg_Inr
  by auto

text \<open>
  A client's endpoint that was written for a gateway: its server key is what the helper program prints
  for the gateway's private key, its pre-shared key is the text passed to the gateway. In test mode
  the gateway has fixed keys in the place of both.
\<close>

definition client_configured :: "kex \<Rightarrow> gateway_args \<Rightarrow> endpoint_config \<Rightarrow> bool" where
  "client_configured K a e \<longleftrightarrow>
     (if ga_test_mode a
      then compute_pubkey K (Some (hex_encode TEST_MODE_SERVER_SECRET)) = Ret (server_pub e) \<and> psk e = hex_encode TEST_MODE_CLIENT_PSK
      else compute_pubkey K (Some (ga_server_private_key a)) = Ret (server_pub e) \<and> ga_client_psk a = Some (psk e))"

lemma decode_hex_encode: "length k = 32 \<Longrightarrow> decode_hex32 (hex_encode k) = Ret (Some k)"
  using decode_hex32_encode [of hex_lower k] to_digit16_hex by simp

lemma client_configured_keys:
  assumes "kex_correct K" and "gateway_startup L a = Inr c" and "client_configured K a e"
  shows "decode_hex32 (server_pub e) = Ret (Some (kx_public K (gc_server_key c)))"
    and "decode_hex32 (psk e) = Ret (Some (gc_client_psk c))"
proof -
  let ?priv = "if ga_test_mode a then hex_encode TEST_MODE_SERVER_SECRET else ga_server_private_key a"
  have fixed: "length TEST_MODE_SERVER_SECRET = 32" "length TEST_MODE_CLIENT_PSK = 32" by code_simp+
  have "decode_hex32 ?priv = Ret (Some (gc_server_key c))"
    using gateway_startup_keys(1) [OF assms(2)] gateway_startup_test_keys(2) [OF assms(2)] decode_hex_encode [OF fixed(1)] by simp
  then have "compute_pubkey K (Some ?priv) = Ret (hex_encode (kx_public K (gc_server_key c)))"
    by (intro compute_pubkey_key) (simp add: parse_hex_key_decode)
  then have "server_pub e = hex_encode (kx_public K (gc_server_key c))"
    using assms(3) by (simp add: client_configured_def split: if_splits)
  then show "decode_hex32 (server_pub e) = Ret (Some (kx_public K (gc_server_key c)))"
    using decode_hex_encode kex_correctD(2) [OF assms(1)] by simp
  show "decode_hex32 (psk e) = Ret (Some (gc_client_psk c))"
    using assms(3) gateway_startup_keys(2) [OF assms(2)] gateway_startup_test_keys(2) [OF assms(2)] decode_hex_encode [OF fixed(2)]
    by (auto simp: client_configured_def split: if_splits)
qed

section \<open>The accept loop: lemmas\<close>

lemma handle_tcp_keeps_gauges:
  fixes m :: "'f metrics"
  assumes "handle_tcp_connection first K es G m = Ret (m', v)"
  shows "connections_active m' = connections_active m \<and> connections_total m' = connections_total m"
proof -
  have "connections_active (fst (accept_and_serve K es G found hello m)) = connections_active m
      \<and> connections_total (fst (accept_and_serve K es G found hello m)) = connections_total m" for found hello
    by (auto simp: accept_and_serve_def gateway_session_def inc_auth_failure_def Let_def
        split: sum.split prod.split option.split)
  then show ?thesis using assms
    by (auto simp: handle_tcp_connection_def split: sum.splits if_splits outcome.splits option.splits)
      (metis fst_conv)+
qed

lemma length_filter_key:
  "distinct (map fst xs) \<Longrightarrow> i \<in> fst ` set xs \<Longrightarrow> Suc (length (filter (\<lambda>t. fst t \<noteq> i) xs)) = length xs"
proof (induction xs)
  case (Cons x xs)
  show ?case
  proof (cases "fst x = i")
    case True
    then have "i \<notin> fst ` set xs" using Cons.prems(1) by auto
    then have "\<forall>t \<in> set xs. fst t \<noteq> i" by (metis image_eqI)
    then show ?thesis using True by (simp add: filter_True)
  qed (use Cons in auto)
qed simp

definition loop_inv :: "'f accept_loop \<Rightarrow> bool" where
  "loop_inv s \<longleftrightarrow>
     al_permits s + length (al_tasks s) = MAX_CONCURRENT_CONNECTIONS
     \<and> distinct (map fst (al_tasks s)) \<and> set (al_tasks s) \<subseteq> set (al_spawned s)
     \<and> map fst (al_spawned s) = [0..<length (al_spawned s)] \<and> ip_wf (al_ips s)
     \<and> connections_total (al_metrics s) = of_nat (length (al_spawned s))
     \<and> (loop_error s = None \<longrightarrow>
          connections_active (al_metrics s) = of_nat (length (al_tasks s) + length (al_panicked s)))"

lemma loop_inv_fresh:
  assumes "loop_inv s"
  shows "length (al_spawned s) \<notin> fst ` set (al_tasks s)"
proof -
  have "fst ` set (al_spawned s) = {..<length (al_spawned s)}"
    using assms by (metis loop_inv_def atLeast_upt set_map)
  moreover have "fst ` set (al_tasks s) \<subseteq> fst ` set (al_spawned s)"
    using assms by (auto simp: loop_inv_def)
  ultimately show ?thesis by auto
qed

lemma rate_check_wf: "ip_wf ips \<Longrightarrow> ip_wf (fst (rate_check test now ip ips))"
  by (simp add: rate_check_def ip_check_wf)

lemma accept_connection_inv:
  assumes inv: "loop_inv s" and "loop_error s = None"
  shows "loop_inv (accept_connection test now ip s)"
proof -
  obtain ips ok where rc: "rate_check test now ip (al_ips s) = (ips, ok)" by fastforce
  have wf: "ip_wf ips" using rate_check_wf [of "al_ips s" test now ip] inv rc by (simp add: loop_inv_def)
  show ?thesis
  proof (cases "ok \<and> al_permits s \<noteq> 0")
    case True
    then show ?thesis using inv rc wf loop_inv_fresh [OF inv] assms(2)
      by (auto simp: accept_connection_def loop_inv_def Let_def inc_connections_total_def inc_connections_active_def)
  next
    case False
    then have "accept_connection test now ip s = s\<lparr>al_ips := ips\<rparr>"
      using rc by (cases ok) (auto simp: accept_connection_def)
    then show ?thesis using inv wf by (simp add: loop_inv_def)
  qed
qed

lemma end_task_inv:
  assumes inv: "loop_inv s" and run: "loop_error s = None"
  shows "loop_inv (end_task K i first es G s)"
proof (cases "i \<in> fst ` set (al_tasks s)")
  case True
  define rest where "rest = filter (\<lambda>t. fst t \<noteq> i) (al_tasks s)"
  have d: "distinct (map fst (al_tasks s))" using inv by (simp add: loop_inv_def)
  have len: "length (al_tasks s) = Suc (length rest)" using length_filter_key [OF d True] by (simp add: rest_def)
  have rest: "distinct (map fst rest)" "set rest \<subseteq> set (al_tasks s)"
    using d by (auto simp: rest_def intro: distinct_map_filter)
  show ?thesis
  proof (cases "handle_tcp_connection first K es G (al_metrics s)")
    case (Ret mv)
    obtain m v where mv: "mv = (m, v)" by fastforce
    have keeps: "connections_active m = connections_active (al_metrics s)"
        "connections_total m = connections_total (al_metrics s)"
      using handle_tcp_keeps_gauges [of first K es G "al_metrics s" m v] Ret mv by simp_all
    have "end_task K i first es G s =
        s\<lparr>al_tasks := rest, al_permits := al_permits s + 1, al_metrics := dec_connections_active m\<rparr>"
      using True Ret mv by (simp add: end_task_def rest_def)
    then show ?thesis using inv run keeps len rest
      by (auto simp: loop_inv_def dec_connections_active_def)
  next
    case Panic
    then have "end_task K i first es G s =
        s\<lparr>al_tasks := rest, al_permits := al_permits s + 1, al_panicked := al_panicked s @ [i]\<rparr>"
      using True by (simp add: end_task_def rest_def)
    then show ?thesis using inv run len rest by (auto simp: loop_inv_def)
  qed
qed (use inv in \<open>simp add: end_task_def\<close>)

interpretation accept_run: op_system "loop_exec K test" loop_inv for K test
proof
  fix s :: "'f accept_loop" and x
  assume inv: "loop_inv s"
  show "loop_inv (loop_exec K test s x)"
  proof (cases x)
    case (AcceptFailed e)
    then show ?thesis using inv by (auto simp: loop_inv_def stop_loop_def)
  next
    case (CleanupTick now)
    then show ?thesis using inv by (auto simp: loop_inv_def ip_cleanup_wf)
  qed (use inv in \<open>auto intro: accept_connection_inv end_task_inv\<close>)
qed

lemma loop_inv_new: "loop_inv (accept_loop_new metrics_new)"
  by (simp add: loop_inv_def accept_loop_new_def ip_wf_def metrics_new_def)

lemma loop_error_none:
  "loop_error s = None \<Longrightarrow> \<forall>e. AcceptFailed e \<notin> set xs \<Longrightarrow> loop_error (foldl (loop_exec K test) s xs) = None"
proof (induction xs arbitrary: s)
  case (Cons x xs)
  then have "loop_error (loop_exec K test s x) = None"
    by (cases x) (auto simp: accept_connection_def end_task_def Let_def split: prod.split bool.split outcome.split)
  with Cons show ?case by simp
qed simp

text \<open>The address checks a run performs, and the instants at which an address got a task.\<close>

fun event_ops :: "bool \<Rightarrow> loop_event \<Rightarrow> ip_op list" where
  "event_ops test (Incoming now ip) = (if \<not> test \<or> \<not> is_loopback ip then [IpCheck now ip] else [])"
| "event_ops test (CleanupTick now) = [IpCleanup now]"
| "event_ops test x = []"

definition loop_ops :: "bool \<Rightarrow> loop_event list \<Rightarrow> ip_op list" where
  "loop_ops test xs = concat (map (event_ops test) xs)"

definition spawn_times :: "ip_addr \<Rightarrow> 'f accept_loop \<Rightarrow> nat list" where
  "spawn_times ip s = map (\<lambda>t. snd (snd t)) (filter (\<lambda>t. fst (snd t) = ip) (al_spawned s))"

lemma in_window_append_list: "in_window t (A @ B) = in_window t A + in_window t B"
  by (simp add: in_window_def)

lemma spawn_times_stopped:
  "loop_error s \<noteq> None \<Longrightarrow> foldl (loop_exec K test) s xs = s"
proof (induction xs)
  case (Cons x xs)
  then have "loop_exec K test s x = s" by (cases x) auto
  with Cons show ?case by simp
qed simp

lemma spawn_times_step:
  assumes "\<not> test \<or> \<not> is_loopback ip" and "loop_error s = None"
  obtains B where "spawn_times ip (loop_exec K test s x) = spawn_times ip s @ B"
    and "in_window t B \<le> in_window t (ip_accepted (al_ips s) ip (event_ops test x))"
    and "loop_error (loop_exec K test s x) = None \<Longrightarrow>
         al_ips (loop_exec K test s x) = foldl ip_exec (al_ips s) (event_ops test x)"
proof (cases x)
  case (Incoming now ip')
  show ?thesis
    by (rule that [of "if ip' = ip \<and> snd (rate_check test now ip' (al_ips s)) \<and> al_permits s \<noteq> 0 then [now] else []"])
      (use Incoming assms in \<open>auto simp: accept_connection_def spawn_times_def rate_check_def Let_def in_window_def
        split: prod.splits bool.splits\<close>)
next
  case (TaskEnds i first es G)
  have "al_spawned (end_task K i first es G s) = al_spawned s" "al_ips (end_task K i first es G s) = al_ips s"
    by (auto simp: end_task_def Let_def split: outcome.split)
  then show ?thesis by (intro that [of "[]"]) (use TaskEnds assms in \<open>auto simp: spawn_times_def in_window_def\<close>)
qed (use that [of "[]"] assms in \<open>auto simp: spawn_times_def stop_loop_def in_window_def\<close>)

lemma ip_accepted_append:
  "ip_accepted conns ip (xs @ ys) = ip_accepted conns ip xs @ ip_accepted (foldl ip_exec conns xs) ip ys"
  by (induction xs arbitrary: conns) auto

lemma spawn_times_run:
  assumes "\<not> test \<or> \<not> is_loopback ip"
  shows "\<exists>B. spawn_times ip (foldl (loop_exec K test) s xs) = spawn_times ip s @ B
    \<and> in_window t B \<le> in_window t (ip_accepted (al_ips s) ip (loop_ops test xs))"
proof (induction xs arbitrary: s)
  case (Cons x xs)
  show ?case
  proof (cases "loop_error s = None")
    case False
    then show ?thesis using spawn_times_stopped [OF False, of K test "x # xs"] by (simp add: in_window_def)
  next
    case True
    obtain B where B: "spawn_times ip (loop_exec K test s x) = spawn_times ip s @ B"
      "in_window t B \<le> in_window t (ip_accepted (al_ips s) ip (event_ops test x))"
      "loop_error (loop_exec K test s x) = None \<Longrightarrow>
         al_ips (loop_exec K test s x) = foldl ip_exec (al_ips s) (event_ops test x)"
      using spawn_times_step [OF assms True] by blast
    have ops: "ip_accepted (al_ips s) ip (loop_ops test (x # xs)) =
        ip_accepted (al_ips s) ip (event_ops test x)
        @ ip_accepted (foldl ip_exec (al_ips s) (event_ops test x)) ip (loop_ops test xs)"
      by (simp add: loop_ops_def ip_accepted_append)
    show ?thesis
    proof (cases "loop_error (loop_exec K test s x) = None")
      case False
      then show ?thesis using spawn_times_stopped [OF False, of K test xs] B(1,2)
        by (intro exI [of _ B]) (simp add: ops in_window_append_list)
    next
      case True
      obtain C where "spawn_times ip (foldl (loop_exec K test) (loop_exec K test s x) xs) = spawn_times ip (loop_exec K test s x) @ C"
        "in_window t C \<le> in_window t (ip_accepted (al_ips (loop_exec K test s x)) ip (loop_ops test xs))"
        using Cons.IH by blast
      then show ?thesis using B True
        by (intro exI [of _ "B @ C"]) (simp add: ops in_window_append_list add_mono)
    qed
  qed
qed (simp add: in_window_def)

section \<open>Properties\<close>

text \<open>
  C18. The three hexadecimal decoders agree: the gateway's key parser accepts a text exactly when the
  client's decoder returns a key for it, with the same key, also for texts on which the client's
  decoder panics; and for such a text the helper program prints the public key of that key.
\<close>

theorem hex_key_decoders_agree:
  "(parse_hex_key hex = Inr k \<longleftrightarrow> decode_hex32 hex = Ret (Some k))
   \<and> (parse_hex_key hex = Inr k \<longrightarrow> compute_pubkey K (Some hex) = Ret (hex_encode (kx_public K k)))"
  using parse_hex_key_decode [of hex k] compute_pubkey_key [of hex k K] by blast

theorem hex_key_decoders_agree_witness:
  "compute_pubkey toy_kex (Some (replicate 64 0x61)) = Ret (hex_encode (kx_public toy_kex (replicate 32 0xAA)))"
proof -
  have "parse_hex_key (replicate 64 0x61) = Inr (replicate 32 0xAA)" by code_simp
  with hex_key_decoders_agree [of "replicate 64 0x61" "replicate 32 0xAA" toy_kex] show ?thesis by blast
qed

text \<open>
  C17. A gateway starts exactly when its configuration is sound: outside test mode the secret, the server
  key and a given pre-shared key must decode, and the configuration holds the decoded keys; in test
  mode these arguments are ignored, whatever they are, and the keys are the ones published in the
  source. In both modes the HMAC key must decode, the certificate must load and the port must bind.
\<close>

theorem gateway_starts_iff:
  "gateway_startup L a = Inr c \<longleftrightarrow>
     (if ga_test_mode a then gc_server_key c = TEST_MODE_SERVER_SECRET \<and> gc_client_psk c = TEST_MODE_CLIENT_PSK
      else (\<exists>k. decode_hex32 (ga_secret a) = Ret (Some k))
        \<and> decode_hex32 (ga_server_private_key a) = Ret (Some (gc_server_key c))
        \<and> (\<exists>hex. ga_client_psk a = Some hex \<and> decode_hex32 hex = Ret (Some (gc_client_psk c))))
     \<and> (\<exists>hk. decode_hex32 (ga_hmac_key a) = Ret (Some hk) \<and> gc_auth c = auth_new (ga_jwt_secret a) hk)
     \<and> load_tls_config L (ga_cert a) (ga_key a) = Inr (gc_tls c) \<and> tcp_bind L (ga_bind a) = Inr ()
     \<and> gc_fallback c = ga_fallback_cdn a \<and> gc_test_mode c = ga_test_mode a"
  unfolding gateway_startup_def Let_def case_sum_Inr case_os_Inr key_arg_Inr psk_arg_Inr
  by (cases c; cases "ga_test_mode a") auto

text \<open>
  C15. The bookkeeping of the accept loop: after any sequence of connections, task ends (normal or by a
  panic), cleanup ticks and a failing accept, at most 5000 tasks are alive and the semaphore has the
  rest of its permits, the address table is bounded, the total counts every task ever spawned, and
  while the loop runs the gauge of active connections is the number of living tasks plus the number
  of tasks that panicked.
\<close>

theorem accept_loop_bounded:
  "let s = foldl (loop_exec K test) (accept_loop_new (metrics_new :: 'f metrics)) xs in
     length (al_tasks s) \<le> MAX_CONCURRENT_CONNECTIONS
     \<and> al_permits s = MAX_CONCURRENT_CONNECTIONS - length (al_tasks s)
     \<and> length (al_ips s) \<le> Suc IP_RATE_LIMIT_MAX_ENTRIES
     \<and> connections_total (al_metrics s) = of_nat (length (al_spawned s))
     \<and> (loop_error s = None \<longrightarrow>
          connections_active (al_metrics s) = of_nat (length (al_tasks s) + length (al_panicked s)))"
proof -
  have "loop_inv (foldl (loop_exec K test) (accept_loop_new (metrics_new :: 'f metrics)) xs)"
    by (rule accept_run.run_inv [OF loop_inv_new])
  then show ?thesis by (auto simp: Let_def loop_inv_def ip_wf_def)
qed

text \<open>Three connections; the first closes at once, the second sends bytes on which the parser panics.\<close>

definition sample_events :: "loop_event list" where
  "sample_events = [Incoming 0 (V4 5), Incoming 1 (V4 5), Incoming 2 (V4 6),
     TaskEnds 0 (Inr []) [5] (sample_gateway False []), CleanupTick second,
     TaskEnds 1 (Inr [0x16, 3, 1, 0, 0]) [5] (sample_gateway False [])]"

theorem accept_loop_bounded_witness:
  "connections_active (al_metrics (foldl (loop_exec toy_kex False) (accept_loop_new (metrics_new :: nat metrics)) sample_events)) =
     of_nat (length (al_tasks (foldl (loop_exec toy_kex False) (accept_loop_new (metrics_new :: nat metrics)) sample_events))
       + length (al_panicked (foldl (loop_exec toy_kex False) (accept_loop_new (metrics_new :: nat metrics)) sample_events)))"
proof -
  have "loop_error (foldl (loop_exec toy_kex False) (accept_loop_new (metrics_new :: nat metrics)) sample_events) = None"
    by (rule loop_error_none) (auto simp: sample_events_def accept_loop_new_def)
  with accept_loop_bounded [of toy_kex False sample_events, where ?'f = nat] show ?thesis
    unfolding Let_def by blast
qed

text \<open>
  C16. The handshake limit reaches the tasks: for any run of the accept loop whose connections and ticks
  are in the order of time, with at most 10000 different addresses, no address gets more than
  twenty tasks within any window of sixty seconds, except the loopback addresses of a gateway in
  test mode.
\<close>

theorem spawned_tasks_per_window:
  assumes "sorted (map op_time (loop_ops test xs))"
    and "card (\<Union> (op_ips ` set (loop_ops test xs))) \<le> IP_RATE_LIMIT_MAX_ENTRIES"
    and "\<not> test \<or> \<not> is_loopback ip"
  shows "in_window t (spawn_times ip (foldl (loop_exec K test) (accept_loop_new m) xs)) \<le> IP_RATE_LIMIT_MAX_CONNS"
proof -
  obtain B where B: "spawn_times ip (foldl (loop_exec K test) (accept_loop_new m) xs) = spawn_times ip (accept_loop_new m) @ B"
      "in_window t B \<le> in_window t (ip_accepted (al_ips (accept_loop_new m)) ip (loop_ops test xs))"
    using spawn_times_run [OF assms(3)] by blast
  have "in_window t (ip_accepted [] ip (loop_ops test xs)) \<le> IP_RATE_LIMIT_MAX_CONNS"
    by (rule ip_window_from_empty [OF assms(1,2)])
  with B show ?thesis by (simp add: accept_loop_new_def spawn_times_def)
qed

theorem spawned_tasks_per_window_witness:
  "in_window 7 (spawn_times (V4 5) (foldl (loop_exec toy_kex False) (accept_loop_new (metrics_new :: nat metrics))
     [Incoming 0 (V4 5), Incoming 3 (V4 5), CleanupTick 4, Incoming 7 (V4 5), Incoming 7 (V4 6)])) \<le> IP_RATE_LIMIT_MAX_CONNS"
proof (rule spawned_tasks_per_window)
  have ops: "loop_ops False [Incoming 0 (V4 5), Incoming 3 (V4 5), CleanupTick 4, Incoming 7 (V4 5), Incoming 7 (V4 6)]
      = [IpCheck 0 (V4 5), IpCheck 3 (V4 5), IpCleanup 4, IpCheck 7 (V4 5), IpCheck 7 (V4 6)]"
    by (simp add: loop_ops_def)
  show "sorted (map op_time (loop_ops False [Incoming 0 (V4 5), Incoming 3 (V4 5), CleanupTick 4, Incoming 7 (V4 5), Incoming 7 (V4 6)]))"
    by (simp add: ops)
  show "card (\<Union> (op_ips ` set (loop_ops False [Incoming 0 (V4 5), Incoming 3 (V4 5), CleanupTick 4, Incoming 7 (V4 5), Incoming 7 (V4 6)])))
      \<le> IP_RATE_LIMIT_MAX_ENTRIES"
    by (simp add: ops IP_RATE_LIMIT_MAX_ENTRIES_def)
qed simp

text \<open>
  One failing accept ends the gateway: after it no connection is served any more, whatever arrives,
  and the tasks that were alive are gone.
\<close>

theorem accept_error_ends_gateway:
  assumes "loop_error s = None"
  shows "foldl (loop_exec K test) s (AcceptFailed e # xs) = stop_loop e s \<and> al_tasks (stop_loop e s) = []"
  using spawn_times_stopped [of "stop_loop e s" K test xs] assms by (simp add: stop_loop_def)

end
