(* ===== verification/Gateway_Tasks.thy ===== *)
theory Gateway_Tasks
  imports Gateway_Main
begin

text \<open>
  The tasks of the gateway's \<open>main\<close> side by side: the accept loop, the periodic cleanup of the address
  table and the metrics endpoint, which share the table and the counters. The last section is about
  connections whose clients stay silent.
\<close>

section \<open>The process\<close>

text \<open>
  \<open>gp_metrics_up\<close> says that the metrics listener is bound: when binding fails, \<open>expect\<close> panics in the
  spawned task and nothing else notices. \<open>gp_next_tick\<close> is the next deadline of the cleanup interval, whose
  first tick is due at once. An error of the accept loop ends \<open>main\<close>, and with it every task.
\<close>

record gateway_proc =
  gp_loop :: "f64 accept_loop"
  gp_metrics_up :: bool
  gp_next_tick :: nat

definition CLEANUP_INTERVAL :: nat where
  "CLEANUP_INTERVAL = 60 * second"

definition gateway_spawn :: "io_error + unit \<Rightarrow> nat \<Rightarrow> gateway_proc" where
  "gateway_spawn metrics_bound now =
     \<lparr>gp_loop = accept_loop_new metrics_new, gp_metrics_up = \<not> isl metrics_bound, gp_next_tick = now\<rparr>"

datatype proc_event =
    ProcIncoming nat ip_addr
  | ProcAcceptFailed io_error
  | ProcTaskEnds nat "io_error + bytes" bytes gateway_env
  | CleanupPoll nat
  | MetricsPoll "io_error + nat \<times> conn"

definition cleanup_poll :: "kex \<Rightarrow> bool \<Rightarrow> nat \<Rightarrow> gateway_proc \<Rightarrow> gateway_proc" where
  "cleanup_poll K test now s =
     (if now < gp_next_tick s then s
      else s\<lparr>gp_loop := loop_exec K test (gp_loop s) (CleanupTick now),
             gp_next_tick := gp_next_tick s + CLEANUP_INTERVAL\<rparr>)"

text \<open>What the metrics task does with the result of an accept, and what the new connection gets.\<close>

definition metrics_poll ::
  "(f64 \<Rightarrow> string) \<Rightarrow> io_error + nat \<times> conn \<Rightarrow> gateway_proc \<Rightarrow> gateway_proc \<times> conn outcome option" where
  "metrics_poll show_f64 res s =
     (if \<not> gp_metrics_up s \<or> loop_error (gp_loop s) \<noteq> None then (s, None)
      else
        case res of
          Inl e \<Rightarrow> (s, None)
        | Inr (k, c) \<Rightarrow>
            (case serve_metrics show_f64 k (al_metrics (gp_loop s)) c of
               (m, r) \<Rightarrow> (s\<lparr>gp_loop := (gp_loop s)\<lparr>al_metrics := m\<rparr>\<rparr>, Some r)))"

fun proc_exec :: "(f64 \<Rightarrow> string) \<Rightarrow> kex \<Rightarrow> bool \<Rightarrow> gateway_proc \<Rightarrow> proc_event \<Rightarrow> gateway_proc" where
  "proc_exec show_f64 K test s (ProcIncoming now ip) = s\<lparr>gp_loop := loop_exec K test (gp_loop s) (Incoming now ip)\<rparr>"
| "proc_exec show_f64 K test s (ProcAcceptFailed e) = s\<lparr>gp_loop := loop_exec K test (gp_loop s) (AcceptFailed e)\<rparr>"
| "proc_exec show_f64 K test s (ProcTaskEnds i first es G) =
     s\<lparr>gp_loop := loop_exec K test (gp_loop s) (TaskEnds i first es G)\<rparr>"
| "proc_exec show_f64 K test s (CleanupPoll now) = cleanup_poll K test now s"
| "proc_exec show_f64 K test s (MetricsPoll res) = fst (metrics_poll show_f64 res s)"

fun is_metrics_poll :: "proc_event \<Rightarrow> bool" where
  "is_metrics_poll (MetricsPoll res) \<longleftrightarrow> True"
| "is_metrics_poll _ \<longleftrightarrow> False"

section \<open>The metrics endpoint only reads\<close>

text \<open>The process without the flag that a panic of the rendering sets, and which nothing else reads.\<close>

definition unpoisoned :: "'f metrics \<Rightarrow> 'f metrics" where
  "unpoisoned m = m\<lparr>samples_poisoned := False\<rparr>"

definition loop_view :: "'f accept_loop \<Rightarrow> 'f accept_loop" where
  "loop_view s = s\<lparr>al_metrics := unpoisoned (al_metrics s)\<rparr>"

lemma handle_tcp_unpoisoned:
  "handle_tcp_connection first K es G (unpoisoned m) =
     (case handle_tcp_connection first K es G m of Panic \<Rightarrow> Panic | Ret (m', v) \<Rightarrow> Ret (unpoisoned m', v))"
proof -
  have "accept_and_serve K es G found hello (unpoisoned m) =
      (unpoisoned (fst (accept_and_serve K es G found hello m)), snd (accept_and_serve K es G found hello m))" for found hello
    by (auto simp: accept_and_serve_def gateway_session_def inc_auth_failure_def Let_def unpoisoned_def
        split: sum.split prod.split option.split)
  then show ?thesis
    by (auto simp: handle_tcp_connection_def split: sum.split outcome.split option.split prod.split)
qed

lemma loop_exec_view: "loop_exec K test (loop_view s) x = loop_view (loop_exec K test s x)"
proof (cases x)
  case (Incoming now ip)
  then show ?thesis
    by (auto simp: loop_view_def accept_connection_def unpoisoned_def inc_connections_total_def inc_connections_active_def Let_def
        split: prod.split bool.split)
next
  case (TaskEnds i first es G)
  then show ?thesis
    using handle_tcp_unpoisoned [of first K es G "al_metrics s"]
    by (auto simp: loop_view_def end_task_def dec_connections_active_def unpoisoned_def Let_def split: prod.split outcome.split)
qed (simp_all add: loop_view_def stop_loop_def)

lemma serve_metrics_view: "unpoisoned (fst (serve_metrics show_f64 k m c)) = unpoisoned m"
  by (auto simp: serve_metrics_def render_def unpoisoned_def Let_def split: outcome.split prod.split)

definition proc_view :: "gateway_proc \<Rightarrow> f64 accept_loop \<times> nat" where
  "proc_view s = (loop_view (gp_loop s), gp_next_tick s)"

lemma metrics_poll_view: "proc_view (fst (metrics_poll show_f64 res s)) = proc_view s"
  using serve_metrics_view [of show_f64 _ "al_metrics (gp_loop s)"]
  by (auto simp: proc_view_def metrics_poll_def loop_view_def split: sum.split prod.split) (metis fst_conv)

lemma proc_exec_view:
  assumes "proc_view s = proc_view t" and "\<not> is_metrics_poll x"
  shows "proc_view (proc_exec show_f64 K test s x) = proc_view (proc_exec show_f64 K test t x)"
proof -
  have "loop_view (loop_exec K test (gp_loop s) y) = loop_view (loop_exec K test (gp_loop t) y)" for y
    using assms(1) loop_exec_view [of K test "gp_loop s" y] loop_exec_view [of K test "gp_loop t" y] by (simp add: proc_view_def)
  then show ?thesis using assms by (cases x) (simp_all add: proc_view_def cleanup_poll_def del: loop_exec.simps)
qed

lemma metrics_polls_skipped:
  "proc_view s = proc_view t \<Longrightarrow>
   proc_view (foldl (proc_exec show_f64 K test) s xs) =
   proc_view (foldl (proc_exec show_f64 K test) t (filter (\<lambda>x. \<not> is_metrics_poll x) xs))"
proof (induction xs arbitrary: s t)
  case (Cons x xs)
  show ?case
  proof (cases "is_metrics_poll x")
    case True
    then obtain res where "x = MetricsPoll res" by (cases x) auto
    with Cons.IH [of "fst (metrics_poll show_f64 res s)" t] Cons.prems metrics_poll_view show ?thesis by simp
  next
    case False
    with Cons.IH [OF proc_exec_view [OF Cons.prems False]] show ?thesis by simp
  qed
qed simp

section \<open>Silent clients\<close>

text \<open>The table after connections of one instant: every address with its number of connections.\<close>

definition counted :: "nat \<Rightarrow> ip_addr list \<Rightarrow> ip_table \<Rightarrow> bool" where
  "counted now ips conns \<longleftrightarrow> (\<forall>ip. entry conns ip = replicate (count_list ips ip) now) \<and> length conns \<le> length ips"

lemma length_alist_update: "length (AList.update k v al) \<le> Suc (length al)"
  by (induction al) auto

lemma ip_check_counted:
  assumes "counted now ips conns" and "count_list ips ip < IP_RATE_LIMIT_MAX_CONNS" and "length ips \<le> IP_RATE_LIMIT_MAX_ENTRIES"
  shows "snd (ip_check now ip conns)" and "counted now (ips @ [ip]) (fst (ip_check now ip conns))"
proof -
  have ev: "evict conns = conns" using assms(1,3) evict_small by (auto simp: counted_def)
  have "recent now (entry conns ip) = replicate (count_list ips ip) now"
    using assms(1) by (simp add: counted_def recent_def IP_RATE_LIMIT_WINDOW_def second_def)
  then have c: "ip_check now ip conns = (AList.update ip (replicate (Suc (count_list ips ip)) now) conns, True)"
    using ev assms(2) by (simp add: ip_check_def Let_def replicate_append_same)
  show "snd (ip_check now ip conns)" by (simp add: c)
  show "counted now (ips @ [ip]) (fst (ip_check now ip conns))"
    using assms(1) length_alist_update [of ip "replicate (Suc (count_list ips ip)) now" conns]
    by (auto simp: c counted_def entry_update)
qed

definition arrivals :: "kex \<Rightarrow> 'f metrics \<Rightarrow> nat \<Rightarrow> ip_addr list \<Rightarrow> 'f accept_loop" where
  "arrivals K m now ips = foldl (loop_exec K False) (accept_loop_new m) (map (Incoming now) ips)"

lemma silent_arrivals:
  assumes "length ips \<le> MAX_CONCURRENT_CONNECTIONS" and "\<forall>ip. count_list ips ip \<le> IP_RATE_LIMIT_MAX_CONNS"
  shows "counted now ips (al_ips (arrivals K m now ips)) \<and> loop_error (arrivals K m now ips) = None
    \<and> al_permits (arrivals K m now ips) = MAX_CONCURRENT_CONNECTIONS - length ips
    \<and> length (al_spawned (arrivals K m now ips)) = length ips"
  using assms
proof (induction ips rule: rev_induct)
  case Nil
  then show ?case by (simp add: arrivals_def accept_loop_new_def counted_def entry_def)
next
  case (snoc ip ips)
  let ?s = "arrivals K m now ips"
  have "count_list ips a \<le> count_list (ips @ [ip]) a" for a by simp
  with snoc.prems(2) have cnt: "\<forall>ip. count_list ips ip \<le> IP_RATE_LIMIT_MAX_CONNS" using le_trans by blast
  have room: "count_list ips ip < IP_RATE_LIMIT_MAX_CONNS" using spec [OF snoc.prems(2), of ip] by simp
  have s: "counted now ips (al_ips ?s)" "al_permits ?s = MAX_CONCURRENT_CONNECTIONS - length ips" "loop_error ?s = None"
      "length (al_spawned ?s) = length ips"
    using snoc.IH [OF _ cnt] snoc.prems(1) by auto
  have len: "length ips < MAX_CONCURRENT_CONNECTIONS" "length ips \<le> IP_RATE_LIMIT_MAX_ENTRIES"
    using snoc.prems(1) by (simp_all add: MAX_CONCURRENT_CONNECTIONS_def IP_RATE_LIMIT_MAX_ENTRIES_def)
  note c = ip_check_counted [OF s(1) room len(2)]
  have rc: "rate_check False now ip (al_ips ?s) = (fst (ip_check now ip (al_ips ?s)), True)"
    using c(1) by (cases "ip_check now ip (al_ips ?s)") (simp add: rate_check_def)
  have "arrivals K m now (ips @ [ip]) = loop_exec K False ?s (Incoming now ip)" by (simp add: arrivals_def)
  then show ?case using c(2) s len rc by (simp add: accept_connection_def Let_def)
qed

text \<open>With no permit left, nothing but the end of a task lets a connection in.\<close>

lemma full_house:
  assumes "al_permits s = 0" and "\<forall>x \<in> set ys. \<forall>i first es G. x \<noteq> TaskEnds i first es G"
  shows "al_spawned (foldl (loop_exec K test) s ys) = al_spawned s"
proof -
  have "al_spawned (foldl (loop_exec K test) s ys) = al_spawned s \<and>
      (al_permits (foldl (loop_exec K test) s ys) = 0 \<or> loop_error (foldl (loop_exec K test) s ys) \<noteq> None)"
    using assms(2)
  proof (induction ys rule: rev_induct)
    case (snoc y ys)
    then show ?case
      by (cases y) (auto simp: accept_connection_def stop_loop_def split: prod.split bool.split)
  qed (use assms(1) in simp)
  then show ?thesis ..
qed

section \<open>Properties\<close>

text \<open>
  The metrics endpoint is passive: in every run of the gateway's tasks, leaving out what the metrics endpoint
  does (its connections, its failing accepts, a rendering that panics) gives the same accept loop, the same
  tasks, permits, addresses and counters, and the same schedule of the cleanup.
\<close>

theorem metrics_endpoint_is_passive:
  "proc_view (foldl (proc_exec show_f64 K test) (gateway_spawn bound now) xs) =
   proc_view (foldl (proc_exec show_f64 K test) (gateway_spawn bound now) (filter (\<lambda>x. \<not> is_metrics_poll x) xs))"
  by (rule metrics_polls_skipped) (rule refl)

text \<open>
  A metrics address that cannot be bound goes unnoticed: the gateway runs without its metrics endpoint, which
  never answers, and serves exactly as it would with it.
\<close>

theorem metrics_bind_failure_is_silent:
  "snd (metrics_poll show_f64 res (foldl (proc_exec show_f64 K test) (gateway_spawn (Inl e) now) xs)) = None
   \<and> proc_view (foldl (proc_exec show_f64 K test) (gateway_spawn (Inl e) now) xs) =
     proc_view (foldl (proc_exec show_f64 K test) (gateway_spawn (Inr ()) now) xs)"
proof -
  have "\<not> gp_metrics_up (foldl (proc_exec show_f64 K test) (gateway_spawn (Inl e) now) xs)"
  proof (induction xs rule: rev_induct)
    case (snoc x xs)
    then show ?case by (cases x) (auto simp: cleanup_poll_def metrics_poll_def)
  qed (simp add: gateway_spawn_def)
  moreover have "proc_view (gateway_spawn (Inl e) now) = proc_view (gateway_spawn (Inr ()) now)"
    by (simp add: proc_view_def gateway_spawn_def)
  then have "proc_view (foldl (proc_exec show_f64 K test) (gateway_spawn (Inl e) now) xs) =
      proc_view (foldl (proc_exec show_f64 K test) (gateway_spawn (Inr ()) now) (filter (\<lambda>x. \<not> is_metrics_poll x) xs))"
    by (rule metrics_polls_skipped)
  moreover have "proc_view (foldl (proc_exec show_f64 K test) (gateway_spawn (Inr ()) now) (filter (\<lambda>x. \<not> is_metrics_poll x) xs)) =
      proc_view (foldl (proc_exec show_f64 K test) (gateway_spawn (Inr ()) now) xs)"
    by (rule metrics_polls_skipped [OF refl, symmetric])
  ultimately show ?thesis by (simp only: metrics_poll_def if_True simp_thms snd_conv)
qed

text \<open>
  C13. Clients that stay connected lock everybody out. From the start of the gateway in production, after
  five thousand connections of one instant, none of whose addresses opens more than the twenty it may (250
  addresses are enough), each of them has a task, and as long as none of these tasks ends, no other
  connection gets one, whatever arrives and however much time passes; nothing in the accept loop or its
  cleanup takes a permit back.
\<close>

theorem silent_clients_lock_everybody_out:
  assumes "length ips = MAX_CONCURRENT_CONNECTIONS" and "\<forall>ip. count_list ips ip \<le> IP_RATE_LIMIT_MAX_CONNS"
    and "\<forall>x \<in> set ys. \<forall>i first es G. x \<noteq> TaskEnds i first es G"
  shows "al_spawned (foldl (loop_exec K False) (accept_loop_new m) (map (Incoming now) ips @ ys)) =
      al_spawned (foldl (loop_exec K False) (accept_loop_new m) (map (Incoming now) ips))
    \<and> length (al_spawned (foldl (loop_exec K False) (accept_loop_new m) (map (Incoming now) ips))) = length ips"
  using silent_arrivals [OF _ assms(2), where K = K and m = m and now = now]
    full_house [OF _ assms(3), of "arrivals K m now ips" K False] assms(1) by (simp add: arrivals_def)

definition quiet_addresses :: "ip_addr list" where
  "quiet_addresses = concat (map (\<lambda>a. replicate 20 (V4 (of_nat a))) [0..<250])"

lemma count_list_blocks: "inj_on f (set xs) \<Longrightarrow> distinct xs \<Longrightarrow> count_list (concat (map (\<lambda>a. replicate n (f a)) xs)) y \<le> n"
proof (induction xs)
  case (Cons x xs)
  have "count_list (replicate n (f x)) y = (if f x = y then n else 0)" by (induction n) auto
  moreover have "count_list (concat (map (\<lambda>a. replicate n (f a)) xs)) y = 0" if "f x = y"
    using Cons.prems that by (intro count_notin) (auto simp: inj_on_def)
  ultimately show ?case using Cons by (auto simp: inj_on_def)
qed simp

theorem silent_clients_lock_everybody_out_witness:
  "al_spawned (foldl (loop_exec toy_kex False) (accept_loop_new (metrics_new :: nat metrics))
       (map (Incoming 0) quiet_addresses @ [CleanupTick (600 * second), Incoming (600 * second) (V4 9)])) =
     al_spawned (foldl (loop_exec toy_kex False) (accept_loop_new (metrics_new :: nat metrics)) (map (Incoming 0) quiet_addresses))
   \<and> length (al_spawned (foldl (loop_exec toy_kex False) (accept_loop_new (metrics_new :: nat metrics)) (map (Incoming 0) quiet_addresses)))
       = length quiet_addresses"
proof (rule silent_clients_lock_everybody_out)
  show "length quiet_addresses = MAX_CONCURRENT_CONNECTIONS"
    by (simp add: quiet_addresses_def length_concat o_def sum_list_triv MAX_CONCURRENT_CONNECTIONS_def del: upt_Suc)
  have "inj_on (\<lambda>a. V4 (of_nat a)) (set [0..<250])"
    by (rule inj_onI) (simp add: word_unat_eq_iff unat_of_nat)
  then show "\<forall>ip. count_list quiet_addresses ip \<le> IP_RATE_LIMIT_MAX_CONNS"
    using count_list_blocks [of "\<lambda>a. V4 (of_nat a)" "[0..<250]" 20] by (simp add: quiet_addresses_def IP_RATE_LIMIT_MAX_CONNS_def)
qed simp

end
