(* ===== verification/Gateway_Promo.thy ===== *)
theory Gateway_Promo
  imports Prelude
begin

text \<open>
  \<open>gateway/src/promo.rs\<close>: promo codes and the signed tokens they are exchanged for. Text is its
  UTF-8 bytes, since it is signed. HMAC-SHA256, the hex codec and the calendar arithmetic are
  parameters. \<open>use_code\<close> takes the lock twice, once to validate and once to count, so it is two
  steps that other calls may come between; the 32-bit count wraps.
\<close>

datatype promo_error = InvalidCode | Expired | AlreadyUsed | BadSignature

record promo_code =
  pc_code :: bytes
  pc_tier :: bytes
  pc_months :: int
  max_uses :: int
  used_count :: int
  expires_at :: "int option"
  created_at :: int

record promo_token =
  pt_code :: bytes
  pt_user_id :: bytes
  pt_tier :: bytes
  pt_months :: int
  pt_exp :: int
  pt_iat :: int
  pt_signature :: bytes

record promo_manager =
  promo_codes :: "bytes \<rightharpoonup> promo_code"
  used_tokens :: "bytes \<rightharpoonup> bytes list"
  promo_hmac_key :: bytes

record promo_lib =
  lib_hmac :: "bytes \<Rightarrow> bytes \<Rightarrow> bytes"
  lib_hex_encode :: "bytes \<Rightarrow> bytes"
  lib_hex_decode :: "bytes \<Rightarrow> bytes option"
  lib_plus_days :: "int \<Rightarrow> int \<Rightarrow> int option"

text \<open>
  What the code relies on: hex decoding inverts encoding, a MAC has 32 bytes, and adding days
  within the years the calendar represents moves the timestamp by their seconds.
\<close>

definition promo_lib_correct :: "promo_lib \<Rightarrow> bool" where
  "promo_lib_correct L \<longleftrightarrow> (\<forall>b. lib_hex_decode L (lib_hex_encode L b) = Some b)
     \<and> (\<forall>k d. length (lib_hmac L k d) = 32)
     \<and> (\<forall>t d. \<bar>t + 86400 * d\<bar> \<le> 8 * 10 ^ 12 \<longrightarrow> lib_plus_days L t d = Some (t + 86400 * d))"

definition wrap32 :: "int \<Rightarrow> int" where
  "wrap32 x = (x + 2 ^ 31) mod 2 ^ 32 - 2 ^ 31"

definition show_int :: "int \<Rightarrow> bytes" where
  "show_int i = bytes_of ((if i < 0 then ''-'' else []) @ show_nat (nat \<bar>i\<bar>))"

section \<open>Operations\<close>

definition preloaded :: "string \<Rightarrow> int \<Rightarrow> int \<Rightarrow> int \<Rightarrow> promo_code" where
  "preloaded c months uses now =
     \<lparr>pc_code = bytes_of c, pc_tier = bytes_of ''pro'', pc_months = months, max_uses = uses,
      used_count = 0, expires_at = None, created_at = now\<rparr>"

definition promo_new :: "int \<Rightarrow> bytes \<Rightarrow> promo_manager" where
  "promo_new now hmac_key =
     \<lparr>promo_codes = Map.empty
        (bytes_of ''PRO3M'' \<mapsto> preloaded ''PRO3M'' 3 1000 now,
         bytes_of ''PRO6M'' \<mapsto> preloaded ''PRO6M'' 6 500 now,
         bytes_of ''PRO12M'' \<mapsto> preloaded ''PRO12M'' 12 100 now),
      used_tokens = Map.empty, promo_hmac_key = hmac_key\<rparr>"

definition validate_code :: "int \<Rightarrow> promo_manager \<Rightarrow> bytes \<Rightarrow> promo_error + promo_code" where
  "validate_code now m code =
     (case promo_codes m code of
        None \<Rightarrow> Inl InvalidCode
      | Some promo \<Rightarrow>
          if (case expires_at promo of Some e \<Rightarrow> now > e | None \<Rightarrow> False) then Inl Expired
          else if used_count promo \<ge> max_uses promo then Inl AlreadyUsed
          else Inr promo)"

definition signed_data :: "promo_token \<Rightarrow> bytes" where
  "signed_data t = pt_code t @ bytes_of '':'' @ pt_user_id t @ bytes_of '':'' @ pt_tier t
     @ bytes_of '':'' @ show_int (pt_months t) @ bytes_of '':'' @ show_int (pt_exp t)"

definition generate_signature :: "promo_lib \<Rightarrow> promo_manager \<Rightarrow> promo_token \<Rightarrow> bytes" where
  "generate_signature L m t = lib_hex_encode L (lib_hmac L (promo_hmac_key m) (signed_data t))"

text \<open>The first step of \<open>use_code\<close>: validation and the token; the second: the bookkeeping.\<close>

definition use_code_prepare ::
  "promo_lib \<Rightarrow> int \<Rightarrow> int \<Rightarrow> promo_manager \<Rightarrow> bytes \<Rightarrow> bytes \<Rightarrow> (promo_error + promo_token) outcome" where
  "use_code_prepare L now1 now2 m code user =
     (case validate_code now1 m code of
        Inl e \<Rightarrow> Ret (Inl e)
      | Inr promo \<Rightarrow>
          (case lib_plus_days L now2 (30 * pc_months promo) of
             None \<Rightarrow> Panic
           | Some e \<Rightarrow>
               let t = \<lparr>pt_code = code, pt_user_id = user, pt_tier = pc_tier promo, pt_months = pc_months promo,
                        pt_exp = e, pt_iat = now2, pt_signature = []\<rparr>
               in Ret (Inr (t\<lparr>pt_signature := generate_signature L m t\<rparr>))))"

definition use_code_commit :: "promo_manager \<Rightarrow> bytes \<Rightarrow> bytes \<Rightarrow> promo_manager" where
  "use_code_commit m code user =
     (let m1 = (case promo_codes m code of
                  Some promo \<Rightarrow> m\<lparr>promo_codes := (promo_codes m)
                     (code \<mapsto> promo\<lparr>used_count := wrap32 (used_count promo + 1)\<rparr>)\<rparr>
                | None \<Rightarrow> m);
          codes = (case used_tokens m1 user of Some cs \<Rightarrow> cs | None \<Rightarrow> [])
      in m1\<lparr>used_tokens := (used_tokens m1)(user \<mapsto> codes @ [code])\<rparr>)"

definition use_code ::
  "promo_lib \<Rightarrow> int \<Rightarrow> int \<Rightarrow> promo_manager \<Rightarrow> bytes \<Rightarrow> bytes \<Rightarrow> promo_manager \<times> (promo_error + promo_token) outcome" where
  "use_code L now1 now2 m code user =
     (case use_code_prepare L now1 now2 m code user of
        Panic \<Rightarrow> (m, Panic)
      | Ret (Inl e) \<Rightarrow> (m, Ret (Inl e))
      | Ret (Inr t) \<Rightarrow> (use_code_commit m code user, Ret (Inr t)))"

definition unwrap_or_default :: "bytes option \<Rightarrow> bytes" where
  "unwrap_or_default x = (case x of Some b \<Rightarrow> b | None \<Rightarrow> [])"

definition verify_token :: "promo_lib \<Rightarrow> int \<Rightarrow> promo_manager \<Rightarrow> promo_token \<Rightarrow> promo_error + unit" where
  "verify_token L now m t =
     (let expected_bytes = unwrap_or_default (lib_hex_decode L (generate_signature L m t));
          token_bytes = unwrap_or_default (lib_hex_decode L (pt_signature t)) in
      if length expected_bytes \<noteq> length token_bytes then Inl BadSignature
      else if expected_bytes \<noteq> token_bytes then Inl BadSignature
      else if now > pt_exp t then Inl Expired
      else Inr ())"

definition add_promo_code :: "promo_manager \<Rightarrow> promo_code \<Rightarrow> promo_manager" where
  "add_promo_code m c = m\<lparr>promo_codes := (promo_codes m)(pc_code c \<mapsto> c)\<rparr>"

section \<open>Lemmas\<close>

lemma wrap32_id: "- (2 ^ 31) \<le> x \<Longrightarrow> x < 2 ^ 31 \<Longrightarrow> wrap32 x = x"
  by (simp add: wrap32_def)

text \<open>A code in the range of its 32-bit fields, not over its limit.\<close>

definition promo_code_ok :: "promo_code \<Rightarrow> bool" where
  "promo_code_ok c \<longleftrightarrow> - (2 ^ 31) \<le> used_count c \<and> used_count c \<le> max_uses c \<and> max_uses c < 2 ^ 31"

definition promo_ok :: "promo_manager \<Rightarrow> bool" where
  "promo_ok m \<longleftrightarrow> (\<forall>code c. promo_codes m code = Some c \<longrightarrow> promo_code_ok c)"

lemma promo_ok_new: "promo_ok (promo_new now k)"
  by (auto simp: promo_ok_def promo_new_def preloaded_def promo_code_ok_def split: if_splits)

lemma validate_code_InrD:
  "validate_code now m code = Inr c \<Longrightarrow> promo_codes m code = Some c \<and> used_count c < max_uses c"
  by (auto simp: validate_code_def split: option.splits if_splits)

lemma use_code_prepare_InrD:
  "use_code_prepare L now1 now2 m code user = Ret (Inr t) \<Longrightarrow>
   \<exists>c. validate_code now1 m code = Inr c \<and> pt_code t = code \<and> pt_user_id t = user \<and> pt_tier t = pc_tier c
     \<and> pt_months t = pc_months c \<and> pt_iat t = now2 \<and> lib_plus_days L now2 (30 * pc_months c) = Some (pt_exp t)
     \<and> pt_signature t = generate_signature L m t"
  by (auto simp: use_code_prepare_def Let_def generate_signature_def signed_data_def
      split: sum.splits option.splits)

lemma use_code_ok:
  assumes "promo_ok m"
  shows "promo_ok (fst (use_code L now1 now2 m code user))"
proof (cases "use_code_prepare L now1 now2 m code user")
  case (Ret r)
  show ?thesis
  proof (cases r)
    case (Inr t)
    with Ret obtain c where "validate_code now1 m code = Inr c"
      using use_code_prepare_InrD [of L now1 now2 m code user t] by blast
    then have c: "promo_codes m code = Some c" "used_count c < max_uses c" by (auto dest: validate_code_InrD)
    then have "promo_code_ok c" using assms by (simp add: promo_ok_def)
    then have "promo_code_ok (c\<lparr>used_count := wrap32 (used_count c + 1)\<rparr>)"
      using c(2) by (simp add: promo_code_ok_def wrap32_id)
    with assms c Ret Inr show ?thesis by (simp add: use_code_def use_code_commit_def promo_ok_def Let_def)
  qed (use assms Ret in \<open>simp add: use_code_def\<close>)
qed (use assms in \<open>simp add: use_code_def\<close>)

lemma add_promo_code_ok: "promo_ok m \<Longrightarrow> promo_code_ok c \<Longrightarrow> promo_ok (add_promo_code m c)"
  by (simp add: promo_ok_def add_promo_code_def)

text \<open>Sequences of uses, one after the other, and the tokens issued for a code.\<close>

type_synonym promo_use = "int \<times> int \<times> bytes \<times> bytes"

fun promo_exec :: "promo_lib \<Rightarrow> promo_manager \<Rightarrow> promo_use \<Rightarrow> promo_manager" where
  "promo_exec L m (now1, now2, code, user) = fst (use_code L now1 now2 m code user)"

fun issues :: "promo_lib \<Rightarrow> promo_manager \<Rightarrow> bytes \<Rightarrow> promo_use \<Rightarrow> bool" where
  "issues L m c (now1, now2, code, user) \<longleftrightarrow> code = c \<and>
     (case snd (use_code L now1 now2 m code user) of Ret (Inr t) \<Rightarrow> True | _ \<Rightarrow> False)"

fun issued :: "promo_lib \<Rightarrow> promo_manager \<Rightarrow> bytes \<Rightarrow> promo_use list \<Rightarrow> nat" where
  "issued L m c [] = 0"
| "issued L m c (x # xs) = (if issues L m c x then 1 else 0) + issued L (promo_exec L m x) c xs"

interpretation promo_run: op_system "promo_exec L" promo_ok for L
proof
  fix m x assume "promo_ok m"
  then show "promo_ok (promo_exec L m x)" by (cases x) (simp add: use_code_ok)
qed

lemma promo_exec_count:
  assumes "promo_ok m" and "promo_codes m code = Some c"
  shows "\<exists>c'. promo_codes (promo_exec L m x) code = Some c' \<and> max_uses c' = max_uses c
    \<and> used_count c' = used_count c + (if issues L m code x then 1 else 0)"
proof -
  obtain now1 now2 code' user where x: "x = (now1, now2, code', user)" by (cases x)
  show ?thesis
  proof (cases "use_code_prepare L now1 now2 m code' user")
    case (Ret r)
    show ?thesis
    proof (cases r)
      case (Inl e)
      with x Ret assms show ?thesis by (simp add: use_code_def)
    next
      case (Inr t)
      with Ret obtain c0 where "validate_code now1 m code' = Inr c0"
        using use_code_prepare_InrD [of L now1 now2 m code' user t] by blast
      then have c0: "promo_codes m code' = Some c0" "used_count c0 < max_uses c0" by (auto dest: validate_code_InrD)
      then have "wrap32 (used_count c0 + 1) = used_count c0 + 1"
        using assms(1) unfolding promo_ok_def promo_code_ok_def by (intro wrap32_id) force+
      with x Ret Inr assms c0 show ?thesis by (auto simp: use_code_def use_code_commit_def Let_def)
    qed
  qed (use x assms in \<open>simp add: use_code_def\<close>)
qed

lemma issued_count:
  assumes "promo_ok m" and "promo_codes m code = Some c"
  shows "\<exists>c'. promo_codes (foldl (promo_exec L) m xs) code = Some c' \<and> max_uses c' = max_uses c
    \<and> used_count c' = used_count c + int (issued L m code xs)"
  using assms
proof (induction xs arbitrary: m c)
  case (Cons x xs)
  obtain c1 where c1: "promo_codes (promo_exec L m x) code = Some c1" "max_uses c1 = max_uses c"
      "used_count c1 = used_count c + (if issues L m code x then 1 else 0)"
    using promo_exec_count [OF Cons.prems] by blast
  from Cons.IH [OF promo_run.exec_inv [OF Cons.prems(1)] c1(1)] c1 show ?case by auto
qed simp

section \<open>Properties\<close>

text \<open>
  C36. Uses one after the other respect the limit of a code: from any manager whose codes are within
  their limits, the tokens issued for a code by any sequence of uses are counted exactly and are
  never more than what was left of its limit.
\<close>

theorem promo_uses_bounded:
  assumes "promo_ok m" and "promo_codes m code = Some c"
  shows "int (issued L m code xs) \<le> max_uses c - used_count c
    \<and> (\<exists>c'. promo_codes (foldl (promo_exec L) m xs) code = Some c'
         \<and> used_count c' = used_count c + int (issued L m code xs))"
proof -
  obtain c' where c': "promo_codes (foldl (promo_exec L) m xs) code = Some c'" "max_uses c' = max_uses c"
      "used_count c' = used_count c + int (issued L m code xs)"
    using issued_count [OF assms] by blast
  moreover have "promo_ok (foldl (promo_exec L) m xs)" by (rule promo_run.run_inv [OF assms(1)])
  ultimately have "used_count c' \<le> max_uses c'" unfolding promo_ok_def promo_code_ok_def by blast
  with c' show ?thesis by auto
qed

definition toy_promo_lib :: promo_lib where
  "toy_promo_lib = \<lparr>lib_hmac = (\<lambda>k d. take 32 (k @ d @ replicate 32 0)), lib_hex_encode = (\<lambda>b. b),
     lib_hex_decode = Some, lib_plus_days = (\<lambda>t d. Some (t + 86400 * d))\<rparr>"

lemma toy_promo_lib_correct: "promo_lib_correct toy_promo_lib"
  by (auto simp: promo_lib_correct_def toy_promo_lib_def min_def)

theorem promo_uses_bounded_witness:
  "int (issued toy_promo_lib (promo_new 0 [1]) (bytes_of ''PRO12M'')
      (replicate 150 (0, 0, bytes_of ''PRO12M'', [7]))) \<le> 100"
proof -
  have "promo_codes (promo_new 0 [1]) (bytes_of ''PRO12M'') = Some (preloaded ''PRO12M'' 12 100 0)"
    by (simp add: promo_new_def)
  from promo_uses_bounded [OF promo_ok_new this, THEN conjunct1] show ?thesis by (simp add: preloaded_def)
qed

text \<open>
  C37. Concurrent uses can exceed the limit: when one use of a code is left, two calls that both
  validate before either counts both obtain a token, and the count ends above the limit.
\<close>

theorem promo_race_exceeds_limit:
  assumes L: "promo_lib_correct L" and ok: "promo_ok m" and c: "promo_codes m code = Some c"
    and left: "used_count c = max_uses c - 1" and "max_uses c < 2 ^ 31 - 1" and "expires_at c = None"
    and "\<bar>now + 86400 * (30 * pc_months c)\<bar> \<le> 8 * 10 ^ 12"
  shows "\<exists>t1 t2. use_code_prepare L now now m code u1 = Ret (Inr t1) \<and> use_code_prepare L now now m code u2 = Ret (Inr t2)
    \<and> (\<exists>c'. promo_codes (use_code_commit (use_code_commit m code u1) code u2) code = Some c' \<and> used_count c' > max_uses c')"
proof -
  have "validate_code now m code = Inr c" using c left assms(6) by (simp add: validate_code_def)
  moreover have "lib_plus_days L now (30 * pc_months c) = Some (now + 86400 * (30 * pc_months c))"
    using L assms(7) unfolding promo_lib_correct_def by blast
  ultimately have "\<exists>t. use_code_prepare L now now m code u = Ret (Inr t)" for u
    by (simp add: use_code_prepare_def Let_def)
  moreover have "promo_code_ok c" using ok c by (simp add: promo_ok_def)
  then have "wrap32 (used_count c + 1) = max_uses c" "wrap32 (max_uses c + 1) = max_uses c + 1"
    using left assms(5) by (simp_all add: promo_code_ok_def wrap32_id)
  ultimately show ?thesis using c by (simp add: use_code_commit_def Let_def)
qed

definition last_use :: promo_manager where
  "last_use = add_promo_code (promo_new 0 [1]) ((preloaded ''ONCE'' 1 1 0))"

theorem promo_race_exceeds_limit_witness:
  "\<exists>t1 t2. use_code_prepare toy_promo_lib 0 0 last_use (bytes_of ''ONCE'') [1] = Ret (Inr t1)
    \<and> use_code_prepare toy_promo_lib 0 0 last_use (bytes_of ''ONCE'') [2] = Ret (Inr t2)
    \<and> (\<exists>c'. promo_codes (use_code_commit (use_code_commit last_use (bytes_of ''ONCE'') [1]) (bytes_of ''ONCE'') [2])
          (bytes_of ''ONCE'') = Some c' \<and> used_count c' > max_uses c')"
proof -
  have "promo_ok last_use"
    unfolding last_use_def by (intro add_promo_code_ok promo_ok_new) (simp add: preloaded_def promo_code_ok_def)
  moreover have "promo_codes last_use (bytes_of ''ONCE'') = Some (preloaded ''ONCE'' 1 1 0)"
    by (simp add: last_use_def add_promo_code_def preloaded_def)
  ultimately show ?thesis
    using promo_race_exceeds_limit [OF toy_promo_lib_correct, of last_use "bytes_of ''ONCE''" "preloaded ''ONCE'' 1 1 0" 0 "[1]" "[2]"]
    by (simp add: preloaded_def)
qed

text \<open>
  A token verifies until it expires: a token that \<open>use_code\<close> returned is accepted by the same
  manager, after any further uses, exactly up to its expiry, which lies thirty days per month
  after its issue; and any token is accepted only if its signature decodes to the MAC of its own
  fields.
\<close>

theorem promo_token_verifies:
  assumes L: "promo_lib_correct L" and use: "snd (use_code L now1 now2 m code user) = Ret (Inr t)"
    and "\<bar>now2 + 86400 * (30 * pt_months t)\<bar> \<le> 8 * 10 ^ 12"
  shows "verify_token L now (foldl (promo_exec L) m xs) t = (if now \<le> pt_exp t then Inr () else Inl Expired)
    \<and> pt_exp t = pt_iat t + 86400 * 30 * pt_months t
    \<and> (verify_token L now m t' = Inr () \<longrightarrow>
         unwrap_or_default (lib_hex_decode L (pt_signature t')) = lib_hmac L (promo_hmac_key m) (signed_data t'))"
proof -
  have dec: "lib_hex_decode L (lib_hex_encode L b) = Some b" for b
    using L unfolding promo_lib_correct_def by blast
  have prep: "use_code_prepare L now1 now2 m code user = Ret (Inr t)"
    using use by (auto simp: use_code_def split: outcome.splits sum.splits)
  note t = use_code_prepare_InrD [OF prep]
  have "promo_hmac_key (promo_exec L m x) = promo_hmac_key m" for m x
    by (cases x) (auto simp: use_code_def use_code_commit_def Let_def split: outcome.splits sum.splits option.splits)
  then have key: "promo_hmac_key (foldl (promo_exec L) m xs) = promo_hmac_key m"
    by (induction xs arbitrary: m) auto
  have "lib_plus_days L now2 (30 * pt_months t) = Some (now2 + 86400 * (30 * pt_months t))"
    using L assms(3) unfolding promo_lib_correct_def by blast
  then have "pt_exp t = pt_iat t + 86400 * 30 * pt_months t" using t by auto
  moreover have "pt_signature t = generate_signature L m t" using t by blast
  ultimately show ?thesis using key
    by (auto simp: verify_token_def generate_signature_def dec unwrap_or_default_def Let_def split: if_splits)
qed

theorem promo_token_verifies_witness:
  "\<exists>t. snd (use_code toy_promo_lib 0 0 (promo_new 0 [1]) (bytes_of ''PRO3M'') [7]) = Ret (Inr t)
    \<and> verify_token toy_promo_lib (90 * 86400) (promo_new 0 [1]) t = Inr ()
    \<and> verify_token toy_promo_lib (90 * 86400 + 1) (promo_new 0 [1]) t = Inl Expired"
proof -
  obtain t where t: "snd (use_code toy_promo_lib 0 0 (promo_new 0 [1]) (bytes_of ''PRO3M'') [7]) = Ret (Inr t)"
      "pt_exp t = 90 * 86400" "pt_months t = 3"
    by (simp add: use_code_def use_code_prepare_def validate_code_def promo_new_def preloaded_def
        toy_promo_lib_def Let_def)
  with promo_token_verifies [OF toy_promo_lib_correct t(1), of "90 * 86400" "[]" t]
    promo_token_verifies [OF toy_promo_lib_correct t(1), of "90 * 86400 + 1" "[]" t]
  show ?thesis by simp
qed

end
