(* ===== verification/Ffi.thy ===== *)
theory Ffi
  imports Failover
begin

text \<open>
  The lifecycle that \<open>transport-core/src/lib.rs\<close> offers to the application: start, status, stop.
  A start is not atomic: it checks the slot, spawns a worker that binds the port, waits for the
  worker's report, and only then fills the slot; other calls may come in between. The state keeps
  the slot, the worker threads that are alive (with the port each has bound), and the calls that
  wait for a report (with their worker, and whether its report of success is in the channel). The JSON deserializer is a parameter. The status text is its content.
\<close>

section \<open>State and calls\<close>

record running_transport =
  rt_failover :: failover_manager
  rt_worker :: nat

record worker =
  wk_port :: u16
  wk_bound :: bool

record lib_state =
  active :: "running_transport option"
  live :: "nat \<rightharpoonup> worker"
  waiting :: "nat \<rightharpoonup> nat \<times> endpoint_config list \<times> bool"

record start_args =
  arg_port :: u16
  arg_json :: "bytes option"
  arg_key :: "bytes option"

text \<open>The checks of \<open>transport_start\<close> before it spawns a worker: \<open>None\<close> is a return of -1.\<close>

definition start_check ::
  "(bytes \<Rightarrow> string + endpoint_config list) \<Rightarrow> start_args \<Rightarrow> lib_state \<Rightarrow> endpoint_config list option" where
  "start_check from_json a s =
     (case (arg_json a, arg_key a) of
        (Some json, Some key) \<Rightarrow>
          if active s \<noteq> None then None
          else if \<not> utf8_valid json then None
          else (case parse_endpoints from_json json of
                  Inl e \<Rightarrow> None
                | Inr eps \<Rightarrow> if arg_port a = 0 then None else Some eps)
      | _ \<Rightarrow> None)"

text \<open>\<open>guarded\<close> turns a panic into the fail-closed value.\<close>

definition guarded :: "'a outcome \<Rightarrow> 'a \<Rightarrow> 'a" where
  "guarded r on_panic = (case r of Ret v \<Rightarrow> v | Panic \<Rightarrow> on_panic)"

datatype status = NotRunning | RunningAt bytes u16 u32 u64

text \<open>The status call; \<open>None\<close> is the null pointer.\<close>

definition transport_get_status :: "lib_state \<Rightarrow> status option" where
  "transport_get_status s =
     guarded
       (case active s of
          None \<Rightarrow> Ret (Some NotRunning)
        | Some rt \<Rightarrow>
            (case (current_endpoint (rt_failover rt), failure_count (rt_failover rt)) of
               (Ret ep, Ret n) \<Rightarrow>
                 Ret (Some (RunningAt (host ep) (port ep) n (last_switch_unix_ms (rt_failover rt))))
             | _ \<Rightarrow> Panic))
       None"

text \<open>
  The end of \<open>transport_start\<close>: what the channel to the worker yields, the new slot and the code
  returned to the application. \<open>transport_stop\<close> takes the transport out of the slot, tells the worker
  to end and joins it; it returns 0 also when nothing runs.
\<close>

datatype bind_result = Bound | BindFailed string

datatype recv_result = Received bind_result | RecvTimeout | RecvDisconnected

definition start_finish ::
  "nat \<Rightarrow> nat \<Rightarrow> endpoint_config list \<Rightarrow> recv_result \<Rightarrow> lib_state \<Rightarrow> lib_state \<times> int" where
  "start_finish c w eps x s =
     (let returned = (waiting s)(c := None) in
      case x of
        Received Bound \<Rightarrow>
          (s\<lparr>active := Some \<lparr>rt_failover = failover_new eps, rt_worker = w\<rparr>, waiting := returned\<rparr>, 0)
      | Received (BindFailed msg) \<Rightarrow> (s\<lparr>waiting := returned\<rparr>, -1)
      | RecvTimeout \<Rightarrow> (s\<lparr>waiting := returned\<rparr>, -1)
      | RecvDisconnected \<Rightarrow> (s\<lparr>waiting := returned\<rparr>, -1))"

text \<open>
  A start that no other call disturbs: \<open>w\<close> is the new worker, \<open>taken\<close> the ports that the binding finds
  in use.
\<close>

definition transport_start ::
  "(bytes \<Rightarrow> string + endpoint_config list) \<Rightarrow> (u16 \<Rightarrow> bool) \<Rightarrow> nat \<Rightarrow> start_args \<Rightarrow> lib_state \<Rightarrow> lib_state \<times> int" where
  "transport_start from_json taken w a s =
     (case start_check from_json a s of
        None \<Rightarrow> (s, -1)
      | Some eps \<Rightarrow>
          if taken (arg_port a) then start_finish w w eps (Received (BindFailed ''bind failed'')) s
          else start_finish w w eps (Received Bound) (s\<lparr>live := (live s)(w \<mapsto> \<lparr>wk_port = arg_port a, wk_bound = True\<rparr>)\<rparr>))"

definition transport_stop :: "lib_state \<Rightarrow> lib_state \<times> int" where
  "transport_stop s =
     guarded
       (case active s of
          Some rt \<Rightarrow> Ret (s\<lparr>active := None, live := (live s)(rt_worker rt := None)\<rparr>, 0)
        | None \<Rightarrow> Ret (s, 0))
       (s, -1)"

text \<open>
  The steps of the library: a call to start that is refused leaves no trace; one that passes
  spawns a new worker and waits; the worker binds its port and reports it, or fails and ends; the waiting
  call commits on a report of success, also of a worker that has ended since, gives up when the worker is
  gone without one, and gives up on a timeout without ending the worker. Stop empties the slot and
  joins the worker. The proxy loop of a worker may end by itself. Connections report to the manager.
\<close>

definition new_worker :: "lib_state \<Rightarrow> nat \<Rightarrow> bool" where
  "new_worker s w \<longleftrightarrow> live s w = None \<and> (\<forall>c v eps b. waiting s c = Some (v, eps, b) \<longrightarrow> v \<noteq> w)"

definition port_free :: "lib_state \<Rightarrow> u16 \<Rightarrow> bool" where
  "port_free s p \<longleftrightarrow> (\<forall>w k. live s w = Some k \<and> wk_bound k \<longrightarrow> wk_port k \<noteq> p)"

inductive lib_step :: "(bytes \<Rightarrow> string + endpoint_config list) \<Rightarrow> lib_state \<Rightarrow> lib_state \<Rightarrow> bool"
  for from_json where
  start_begin: "start_check from_json a s = Some eps \<Longrightarrow> waiting s c = None \<Longrightarrow> new_worker s w \<Longrightarrow>
    lib_step from_json s (s\<lparr>live := (live s)(w \<mapsto> \<lparr>wk_port = arg_port a, wk_bound = False\<rparr>),
                            waiting := (waiting s)(c \<mapsto> (w, eps, False))\<rparr>)"
| worker_bind: "live s w = Some k \<Longrightarrow> \<not> wk_bound k \<Longrightarrow> port_free s (wk_port k) \<Longrightarrow>
    lib_step from_json s (s\<lparr>live := (live s)(w \<mapsto> k\<lparr>wk_bound := True\<rparr>)\<rparr>)"
| worker_report: "waiting s c = Some (w, eps, False) \<Longrightarrow> live s w = Some k \<Longrightarrow> wk_bound k \<Longrightarrow>
    lib_step from_json s (s\<lparr>waiting := (waiting s)(c \<mapsto> (w, eps, True))\<rparr>)"
| worker_end: "live s w = Some k \<Longrightarrow> lib_step from_json s (s\<lparr>live := (live s)(w := None)\<rparr>)"
| start_commit: "waiting s c = Some (w, eps, True) \<Longrightarrow>
    lib_step from_json s (s\<lparr>active := Some \<lparr>rt_failover = failover_new eps, rt_worker = w\<rparr>,
                            waiting := (waiting s)(c := None)\<rparr>)"
| start_fail: "waiting s c = Some (w, eps, False) \<Longrightarrow> live s w = None \<Longrightarrow>
    lib_step from_json s (s\<lparr>waiting := (waiting s)(c := None)\<rparr>)"
| start_timeout: "waiting s c = Some (w, eps, False) \<Longrightarrow> live s w = Some k \<Longrightarrow>
    lib_step from_json s (s\<lparr>waiting := (waiting s)(c := None)\<rparr>)"
| stop: "active s = Some rt \<Longrightarrow>
    lib_step from_json s (s\<lparr>active := None, live := (live s)(rt_worker rt := None)\<rparr>)"
| connection: "active s = Some rt \<Longrightarrow> failover_exec (Ret (rt_failover rt)) x = Ret fo \<Longrightarrow>
    lib_step from_json s (s\<lparr>active := Some (rt\<lparr>rt_failover := fo\<rparr>)\<rparr>)"

definition lib_init :: "lib_state \<Rightarrow> bool" where
  "lib_init s \<longleftrightarrow> s = \<lparr>active = None, live = Map.empty, waiting = Map.empty\<rparr>"

section \<open>Invariant\<close>

definition lib_inv :: "lib_state \<Rightarrow> bool" where
  "lib_inv s \<longleftrightarrow>
     (\<forall>rt. active s = Some rt \<longrightarrow> failover_wf (rt_failover rt) \<and> endpoints_ok (endpoints (rt_failover rt)))
     \<and> (\<forall>c w eps b. waiting s c = Some (w, eps, b) \<longrightarrow> endpoints_ok eps)
     \<and> (\<forall>c c' w eps eps' b b'. waiting s c = Some (w, eps, b) \<and> waiting s c' = Some (w, eps', b') \<longrightarrow> c = c')
     \<and> (\<forall>rt c eps b. active s = Some rt \<longrightarrow> waiting s c \<noteq> Some (rt_worker rt, eps, b))
     \<and> (\<forall>v w j k. live s v = Some j \<and> live s w = Some k \<and> wk_bound j \<and> wk_bound k \<and> wk_port j = wk_port k \<longrightarrow> v = w)"

lemma start_check_ok: "start_check from_json a s = Some eps \<Longrightarrow> endpoints_ok eps \<and> active s = None \<and> arg_port a \<noteq> 0"
  by (auto simp: start_check_def parse_endpoints_Inr split: option.splits if_splits sum.splits)

lemma failover_new_inv:
  "endpoints_ok eps \<Longrightarrow> failover_wf (failover_new eps) \<and> endpoints_ok (endpoints (failover_new eps))"
  by (auto simp: endpoints_ok_def failover_wf_def failover_new_def)

lemma failover_exec_inv:
  assumes "failover_wf fo" and "failover_exec (Ret fo) x = Ret fo'"
  shows "failover_wf fo' \<and> endpoints fo' = endpoints fo"
proof -
  have "failover_good (endpoints fo) (failover_exec (Ret fo) x)"
    by (rule failover_run.exec_inv) (simp add: failover_good_def assms(1))
  with assms(2) show ?thesis by (simp add: failover_good_def)
qed

lemma lib_inv_step:
  assumes inv: "lib_inv s" and "lib_step from_json s t"
  shows "lib_inv t"
  using assms(2)
proof (cases rule: lib_step.cases)
  case (start_begin a eps c w)
  with inv start_check_ok [of from_json a s eps] show ?thesis
    unfolding lib_inv_def new_worker_def by (auto split: if_splits) blast+
next
  case (worker_bind w k)
  then have "wk_port j \<noteq> wk_port k" if "live s v = Some j" "wk_bound j" for v j
    using that by (auto simp: port_free_def)
  with inv worker_bind show ?thesis unfolding lib_inv_def by (auto split: if_splits) metis+
next
  case (worker_report c w eps k)
  with inv show ?thesis
    unfolding lib_inv_def by (auto split: if_splits) blast+
next
  case (start_commit c w eps)
  then have "endpoints_ok eps" using inv unfolding lib_inv_def by blast
  with inv start_commit failover_new_inv [of eps] show ?thesis
    unfolding lib_inv_def by (auto split: if_splits) blast
next
  case (connection rt x fo)
  then have "failover_wf (rt_failover rt)" "endpoints_ok (endpoints (rt_failover rt))"
    using inv by (auto simp: lib_inv_def)
  with failover_exec_inv [OF _ connection(3)] inv connection show ?thesis
    unfolding lib_inv_def by auto
qed (use inv in \<open>auto simp: lib_inv_def split: if_splits\<close>)

interpretation lib: step_system lib_init "lib_step from_json" lib_inv for from_json
  by unfold_locales (auto simp: lib_init_def lib_inv_def [of "\<lparr>active = _, live = _, waiting = _\<rparr>"] intro: lib_inv_step)

text \<open>The steps are those of the functions: a start's end, with the report its worker gives, and a stop.\<close>

lemma start_finish_step:
  assumes "waiting s c = Some (w, eps, x = Received Bound)"
    and "case x of Received Bound \<Rightarrow> True | RecvTimeout \<Rightarrow> \<exists>k. live s w = Some k | _ \<Rightarrow> live s w = None"
  shows "lib_step from_json s (fst (start_finish c w eps x s))"
  using assms start_commit [of s c w eps] start_fail [of s c w eps] start_timeout [of s c w eps]
  by (auto simp: start_finish_def Let_def split: recv_result.splits bind_result.splits)

text \<open>An undisturbed start is a run of the library, for any new worker and any honest set of taken ports.\<close>

lemma transport_start_run:
  assumes "new_worker s w" and "waiting s w = None" and "\<And>p. \<not> taken p \<Longrightarrow> port_free s p"
  shows "(lib_step from_json)\<^sup>*\<^sup>* s (fst (transport_start from_json taken w a s))"
proof (cases "start_check from_json a s")
  case (Some eps)
  let ?k = "\<lparr>wk_port = arg_port a, wk_bound = False\<rparr>"
  let ?v = "s\<lparr>live := (live s)(w \<mapsto> ?k), waiting := (waiting s)(w \<mapsto> (w, eps, False))\<rparr>"
  have v: "lib_step from_json s ?v" by (rule start_begin [OF Some assms(2,1)])
  have dead: "live s w = None" using assms(1) by (simp add: new_worker_def)
  have keep: "(live s)(w := None) = live s" "(waiting s)(w := None) = waiting s" using dead assms(2) by auto
  show ?thesis
  proof (cases "taken (arg_port a)")
    case True
    let ?u = "s\<lparr>live := live s, waiting := (waiting s)(w \<mapsto> (w, eps, False))\<rparr>"
    have "lib_step from_json ?v ?u" using worker_end [of ?v w ?k] keep(1) by simp
    moreover have "lib_step from_json ?u (s\<lparr>live := live s, waiting := waiting s\<rparr>)"
      using start_fail [of ?u w w eps] keep dead by simp
    ultimately have "(lib_step from_json)\<^sup>*\<^sup>* s (s\<lparr>live := live s, waiting := waiting s\<rparr>)"
      using v by (meson converse_rtranclp_into_rtranclp r_into_rtranclp)
    then show ?thesis using True Some keep by (simp add: transport_start_def start_finish_def)
  next
    case False
    let ?l = "(live s)(w \<mapsto> ?k\<lparr>wk_bound := True\<rparr>)"
    let ?b = "s\<lparr>waiting := (waiting s)(w \<mapsto> (w, eps, False)), live := ?l\<rparr>"
    let ?u = "s\<lparr>live := ?l, waiting := (waiting s)(w \<mapsto> (w, eps, True))\<rparr>"
    have "port_free ?v (arg_port a)" using assms(3) [OF False] by (auto simp: port_free_def split: if_splits)
    then have "lib_step from_json ?v ?b" using worker_bind [of ?v w ?k from_json] by simp
    moreover have "lib_step from_json ?b ?u" using worker_report [of ?b w w eps "?k\<lparr>wk_bound := True\<rparr>" from_json] by simp
    moreover have "lib_step from_json ?u (fst (start_finish w w eps (Received Bound) ?u))"
      by (rule start_finish_step) simp_all
    moreover have "fst (start_finish w w eps (Received Bound) ?u) = fst (transport_start from_json taken w a s)"
      using False Some keep by (cases s) (simp add: transport_start_def start_finish_def)
    ultimately show ?thesis using v by (metis (no_types) converse_rtranclp_into_rtranclp r_into_rtranclp)
  qed
qed (simp add: transport_start_def)

lemma transport_stop_step:
  "fst (transport_stop s) = s \<or> lib_step from_json s (fst (transport_stop s))"
  using lib_step.stop [of s _ from_json] by (auto simp: transport_stop_def guarded_def split: option.split)

lemma stop_frees_port:
  assumes "lib_inv s" and "active s = Some rt" and "live s (rt_worker rt) = Some k" and "wk_bound k"
  shows "port_free (fst (transport_stop s)) (wk_port k)"
proof -
  have "v = rt_worker rt" if "live s v = Some j" "wk_bound j" "wk_port j = wk_port k" for v j
    using assms that by (auto simp: lib_inv_def)
  with assms(2) show ?thesis by (auto simp: port_free_def transport_stop_def guarded_def split: if_splits)
qed

lemma status_of_inv:
  assumes inv: "lib_inv s"
  shows "\<exists>st. transport_get_status s = Some st \<and>
      (\<forall>h p n t. st = RunningAt h p n t \<longrightarrow> (\<exists>rt ep. active s = Some rt \<and> ep \<in> set (endpoints (rt_failover rt))
         \<and> host ep = h \<and> port ep = p \<and> endpoint_ok ep))"
proof (cases "active s")
  case None
  then show ?thesis by (simp add: transport_get_status_def guarded_def)
next
  case (Some rt)
  let ?fo = "rt_failover rt"
  have wf: "failover_wf ?fo" and ok: "endpoints_ok (endpoints ?fo)" using inv Some by (auto simp: lib_inv_def)
  let ?ep = "endpoints ?fo ! current_idx ?fo"
  have mem: "?ep \<in> set (endpoints ?fo)" using wf by (simp add: failover_wf_def)
  have "failure_count ?fo = Ret (consecutive_failures (states ?fo ! current_idx ?fo))"
    using wf by (simp add: failover_wf_def failure_count_def)
  then have "transport_get_status s = Some (RunningAt (host ?ep) (port ?ep)
      (consecutive_failures (states ?fo ! current_idx ?fo)) (last_switch_unix_ms ?fo))"
    using Some current_endpoint_wf [OF wf] by (simp add: transport_get_status_def guarded_def)
  moreover have "endpoint_ok ?ep" using ok mem by (auto simp: endpoints_ok_def list_all_iff)
  ultimately show ?thesis using Some mem by auto
qed

section \<open>Properties\<close>

text \<open>
  C28. The status call never fails: in every state that starts, stops, worker threads and
  connections can reach in any interleaving, it returns a status, never the null pointer; a
  running status names one of the validated endpoints; and no two workers hold the same port.
\<close>

theorem status_never_fails:
  assumes "reach lib_init (lib_step from_json) s"
  shows "(\<exists>st. transport_get_status s = Some st \<and>
      (\<forall>h p n t. st = RunningAt h p n t \<longrightarrow> (\<exists>rt ep. active s = Some rt \<and> ep \<in> set (endpoints (rt_failover rt))
         \<and> host ep = h \<and> port ep = p \<and> endpoint_ok ep)))
    \<and> (\<forall>v w j k. live s v = Some j \<and> live s w = Some k \<and> wk_bound j \<and> wk_bound k \<and> wk_port j = wk_port k \<longrightarrow> v = w)"
proof -
  have inv: "lib_inv s" by (rule lib.reach_sinv [OF assms])
  show ?thesis using status_of_inv [OF inv] inv by (auto simp: lib_inv_def)
qed

text \<open>
  A start that times out can leave its worker behind: whenever a start would pass its checks,
  there is an interleaving in which the call gives up (and returns -1) before the worker has bound
  its port and the worker binds it afterwards. The slot is then empty, so the status says that
  nothing runs and a stop finds nothing to stop, while the port stays taken and no start on it can
  bind.
\<close>

theorem timed_out_start_leaves_worker:
  fixes a :: start_args
  defines "s0 \<equiv> \<lparr>active = None, live = Map.empty, waiting = Map.empty\<rparr>"
  assumes "start_check from_json a s0 = Some eps"
  shows "\<exists>s. reach lib_init (lib_step from_json) s \<and> transport_get_status s = Some NotRunning \<and> waiting s = Map.empty
    \<and> (\<nexists>rt. active s = Some rt) \<and> \<not> port_free s (arg_port a)"
proof -
  let ?k = "\<lparr>wk_port = arg_port a, wk_bound = False\<rparr>"
  let ?s1 = "\<lparr>active = None, live = [0 \<mapsto> ?k], waiting = [0 \<mapsto> (0, eps, False)]\<rparr>"
  let ?s2 = "\<lparr>active = None, live = [0 \<mapsto> ?k], waiting = Map.empty\<rparr>"
  let ?s3 = "\<lparr>active = None, live = [0 \<mapsto> ?k\<lparr>wk_bound := True\<rparr>], waiting = Map.empty\<rparr>"
  have "reach lib_init (lib_step from_json) s0" by (rule reach_init) (simp add: lib_init_def s0_def)
  then have "reach lib_init (lib_step from_json) ?s1"
    by (rule reach_step) (use start_begin [OF assms(2), of 0 0] in \<open>simp add: s0_def new_worker_def\<close>)
  then have "reach lib_init (lib_step from_json) ?s2"
    by (rule reach_step) (use start_timeout [of ?s1 0 0 eps ?k from_json] in simp)
  then have "reach lib_init (lib_step from_json) ?s3"
    by (rule reach_step) (use worker_bind [of ?s2 0 ?k from_json] in \<open>simp add: port_free_def\<close>)
  moreover have "transport_get_status ?s3 = Some NotRunning" by (simp add: transport_get_status_def guarded_def)
  moreover have "\<not> port_free ?s3 (arg_port a)" by (simp add: port_free_def)
  ultimately show ?thesis by (intro exI [of _ ?s3]) simp
qed

definition sample_args :: start_args where
  "sample_args = \<lparr>arg_port = 1080, arg_json = Some [], arg_key = Some []\<rparr>"

lemma sample_start: "start_check (\<lambda>j. Inr [sample_endpoint]) sample_args
    \<lparr>active = None, live = Map.empty, waiting = Map.empty\<rparr> = Some [sample_endpoint]"
proof -
  have "parse_endpoints (\<lambda>j. Inr [sample_endpoint]) [] = Inr [sample_endpoint]"
    by (simp add: parse_endpoints_Inr endpoints_ok_def sample_endpoint_ok)
  moreover have "utf8_valid []" by code_simp
  ultimately show ?thesis by (simp add: start_check_def sample_args_def)
qed

theorem timed_out_start_leaves_worker_witness:
  "\<exists>s. reach lib_init (lib_step (\<lambda>j. Inr [sample_endpoint])) s \<and> transport_get_status s = Some NotRunning
    \<and> waiting s = Map.empty \<and> (\<nexists>rt. active s = Some rt) \<and> \<not> port_free s (arg_port sample_args)"
  by (rule timed_out_start_leaves_worker [OF sample_start])

theorem status_never_fails_witness:
  "\<exists>st. transport_get_status \<lparr>active = None, live = Map.empty, waiting = Map.empty\<rparr> = Some st"
proof -
  have "reach lib_init (lib_step (\<lambda>j. Inl [])) \<lparr>active = None, live = Map.empty, waiting = Map.empty\<rparr>"
    by (rule reach_init) (simp add: lib_init_def)
  from status_never_fails [OF this] show ?thesis by blast
qed

text \<open>
  C29. A stop makes way for a start: in every reachable state in which the running transport holds
  its port, a stop returns 0, leaves a status of not running, and a second stop changes nothing;
  and whatever start passes its checks then, on the same port, can run to its end, where it
  returns 0 and the status names the first endpoint, with no failure.
\<close>

theorem stop_then_start_succeeds:
  fixes s c eps
  defines "t \<equiv> fst (transport_stop s)"
  assumes "reach lib_init (lib_step from_json) s" and run: "active s = Some rt" "live s (rt_worker rt) = Some k" "wk_bound k"
    and start: "start_check from_json a t = Some eps" "arg_port a = wk_port k" and c: "waiting s c = None"
  shows "snd (transport_stop s) = 0 \<and> transport_get_status t = Some NotRunning \<and> transport_stop t = (t, 0)
    \<and> (\<exists>u w. (lib_step from_json)\<^sup>*\<^sup>* t u \<and> waiting u c = Some (w, eps, True)
         \<and> lib_step from_json u (fst (start_finish c w eps (Received Bound) u))
         \<and> snd (start_finish c w eps (Received Bound) u) = 0
         \<and> transport_get_status (fst (start_finish c w eps (Received Bound) u)) = Some (RunningAt (host (hd eps)) (port (hd eps)) 0 0))"
proof -
  have inv: "lib_inv s" by (rule lib.reach_sinv [OF assms(2)])
  let ?w = "rt_worker rt" and ?k = "\<lparr>wk_port = wk_port k, wk_bound = False\<rparr>"
  have t: "t = s\<lparr>active := None, live := (live s)(?w := None)\<rparr>" "snd (transport_stop s) = 0"
    using run by (simp_all add: t_def transport_stop_def guarded_def)
  let ?v = "t\<lparr>live := (live t)(?w \<mapsto> ?k), waiting := (waiting t)(c \<mapsto> (?w, eps, False))\<rparr>"
  let ?b = "?v\<lparr>live := (live ?v)(?w \<mapsto> ?k\<lparr>wk_bound := True\<rparr>)\<rparr>"
  let ?u = "?b\<lparr>waiting := (waiting ?b)(c \<mapsto> (?w, eps, True))\<rparr>"
  have new: "new_worker t ?w" using inv run(1) by (auto simp: t new_worker_def lib_inv_def)
  have "lib_step from_json t ?v"
    using start_begin [OF start(1), of c ?w] c start(2) new by (simp add: t)
  moreover have "port_free ?v (wk_port k)"
    using stop_frees_port [OF inv run] by (auto simp: port_free_def t_def [symmetric] split: if_splits)
  then have "lib_step from_json ?v ?b" by (intro worker_bind) simp_all
  moreover have "lib_step from_json ?b ?u" by (rule worker_report [where k = "?k\<lparr>wk_bound := True\<rparr>"]) simp_all
  ultimately have tu: "(lib_step from_json)\<^sup>*\<^sup>* t ?u" by (meson converse_rtranclp_into_rtranclp r_into_rtranclp)
  have step: "lib_step from_json ?u (fst (start_finish c ?w eps (Received Bound) ?u))"
    by (rule start_finish_step) (simp_all add: t)
  have "eps \<noteq> []" using start_check_ok [OF start(1)] by (auto simp: endpoints_ok_def)
  then have "transport_get_status (fst (start_finish c ?w eps (Received Bound) ?u)) = Some (RunningAt (host (hd eps)) (port (hd eps)) 0 0)"
    by (simp add: start_finish_def transport_get_status_def guarded_def failover_new_def current_endpoint_def failure_count_def
        last_switch_unix_ms_def endpoint_state_fresh_def hd_conv_nth)
  moreover have "snd (start_finish c ?w eps (Received Bound) ?u) = 0" by (simp add: start_finish_def)
  moreover have "transport_get_status t = Some NotRunning \<and> transport_stop t = (t, 0)"
    by (simp add: t transport_get_status_def transport_stop_def guarded_def)
  ultimately show ?thesis using tu step t(2) by (intro conjI exI [of _ ?u] exI [of _ ?w]) simp_all
qed

definition sample_worker :: worker where
  "sample_worker = \<lparr>wk_port = 1080, wk_bound = True\<rparr>"

definition sample_running :: lib_state where
  "sample_running = \<lparr>active = Some \<lparr>rt_failover = failover_new [sample_endpoint], rt_worker = 0\<rparr>,
     live = [0 \<mapsto> sample_worker], waiting = Map.empty\<rparr>"

theorem stop_then_start_succeeds_witness:
  "snd (transport_stop sample_running) = 0 \<and> transport_get_status (fst (transport_stop sample_running)) = Some NotRunning"
proof -
  let ?J = "\<lambda>j. Inr [sample_endpoint] :: string + endpoint_config list"
  let ?e = "\<lparr>active = None, live = Map.empty, waiting = Map.empty\<rparr> :: lib_state"
  let ?s1 = "\<lparr>active = None, live = [0 \<mapsto> sample_worker\<lparr>wk_bound := False\<rparr>], waiting = [0 \<mapsto> (0, [sample_endpoint], False)]\<rparr> :: lib_state"
  let ?s2 = "\<lparr>active = None, live = [0 \<mapsto> sample_worker], waiting = [0 \<mapsto> (0, [sample_endpoint], False)]\<rparr> :: lib_state"
  let ?s3 = "\<lparr>active = None, live = [0 \<mapsto> sample_worker], waiting = [0 \<mapsto> (0, [sample_endpoint], True)]\<rparr> :: lib_state"
  have "reach lib_init (lib_step ?J) ?e" by (rule reach_init) (simp add: lib_init_def)
  then have "reach lib_init (lib_step ?J) ?s1"
    by (rule reach_step) (use start_begin [OF sample_start, of 0 0] in \<open>simp add: sample_args_def sample_worker_def new_worker_def\<close>)
  then have "reach lib_init (lib_step ?J) ?s2"
    by (rule reach_step) (use worker_bind [of ?s1 0 "sample_worker\<lparr>wk_bound := False\<rparr>" ?J] in \<open>simp add: port_free_def sample_worker_def\<close>)
  then have "reach lib_init (lib_step ?J) ?s3"
    by (rule reach_step) (use worker_report [of ?s2 0 0 "[sample_endpoint]" sample_worker ?J] in \<open>simp add: sample_worker_def\<close>)
  then have "reach lib_init (lib_step ?J) sample_running"
    by (rule reach_step) (use start_commit [of ?s3 0 0 "[sample_endpoint]" ?J] in \<open>simp add: sample_worker_def sample_running_def\<close>)
  moreover have "start_check ?J sample_args (fst (transport_stop sample_running)) = Some [sample_endpoint]"
    using sample_start by (simp add: sample_running_def transport_stop_def guarded_def)
  ultimately show ?thesis
    using stop_then_start_succeeds [of ?J sample_running _ sample_worker sample_args "[sample_endpoint]" 0] by (simp add: sample_running_def sample_worker_def sample_args_def)
qed

end
