(* ===== verification/Ffi_Memory.thy ===== *)
theory Ffi_Memory
  imports Ffi Proxy_Server
begin

text \<open>
  The memory side of \<open>transport-core/src/lib.rs\<close>: the C strings that \<open>transport_get_status\<close> hands
  out and \<open>transport_free_string\<close> takes back, the static version string, and the worker's proxy; and
  the two ways in which the slot and the worker threads can disagree. The memory maps the address
  of each allocated C string to its bytes with the terminator; the allocator's choice of an address
  and the JSON printer (serde_json) are parameters. An invalid free is undefined behaviour.
\<close>

section \<open>C strings\<close>

datatype 'a memory = Fine 'a | Undefined

type_synonym c_heap = "u64 \<rightharpoonup> bytes"

definition cstring_new :: "bytes \<Rightarrow> bytes option" where
  "cstring_new bs = (if 0 \<in> set bs then None else Some (bs @ [0]))"

definition c_str :: "bytes \<Rightarrow> bytes" where
  "c_str bs = takeWhile (\<lambda>b. b \<noteq> 0) bs"

definition get_status_string ::
  "(status \<Rightarrow> bytes) \<Rightarrow> u64 \<Rightarrow> lib_state \<Rightarrow> c_heap \<Rightarrow> c_heap \<times> u64" where
  "get_status_string to_json fresh s h =
     (case transport_get_status s of
        None \<Rightarrow> (h, 0)
      | Some st \<Rightarrow>
          (case cstring_new (to_json st) of
             None \<Rightarrow> (h, 0)
           | Some cs \<Rightarrow> (h(fresh \<mapsto> cs), fresh)))"

definition transport_free_string :: "u64 \<Rightarrow> c_heap \<Rightarrow> c_heap memory" where
  "transport_free_string p h =
     (if p = 0 then Fine h
      else case h p of Some _ \<Rightarrow> Fine (h(p := None)) | None \<Rightarrow> Undefined)"

definition transport_version :: bytes where
  "transport_version = bytes_of ''0.2.0'' @ [0]"

text \<open>The calls of an application, with the pointers it holds.\<close>

datatype c_call = GetStatus lib_state u64 | FreeString u64

fun c_run :: "(status \<Rightarrow> bytes) \<Rightarrow> c_call list \<Rightarrow> c_heap \<Rightarrow> u64 list \<Rightarrow> (c_heap \<times> u64 list) memory" where
  "c_run to_json [] h got = Fine (h, got)"
| "c_run to_json (GetStatus s fresh # cs) h got =
     (case get_status_string to_json fresh s h of
        (h, p) \<Rightarrow> c_run to_json cs h (if p = 0 then got else p # got))"
| "c_run to_json (FreeString p # cs) h got =
     (case transport_free_string p h of
        Undefined \<Rightarrow> Undefined
      | Fine h \<Rightarrow> c_run to_json cs h (remove1 p got))"

text \<open>The contract: the allocator returns addresses that are not in use, and a pointer is freed at most once.\<close>

fun obeys :: "(status \<Rightarrow> bytes) \<Rightarrow> c_call list \<Rightarrow> c_heap \<Rightarrow> u64 list \<Rightarrow> bool" where
  "obeys to_json [] h got \<longleftrightarrow> True"
| "obeys to_json (GetStatus s fresh # cs) h got \<longleftrightarrow>
     fresh \<noteq> 0 \<and> h fresh = None
     \<and> (case get_status_string to_json fresh s h of (h, p) \<Rightarrow> obeys to_json cs h (if p = 0 then got else p # got))"
| "obeys to_json (FreeString p # cs) h got \<longleftrightarrow>
     (p = 0 \<or> p \<in> set got)
     \<and> (case transport_free_string p h of Undefined \<Rightarrow> True | Fine h \<Rightarrow> obeys to_json cs h (remove1 p got))"

definition owned :: "c_heap \<Rightarrow> u64 list \<Rightarrow> bool" where
  "owned h got \<longleftrightarrow> dom h = set got \<and> distinct got \<and> 0 \<notin> set got"

lemma owned_get:
  assumes "owned h got" and "fresh \<noteq> 0" and "h fresh = None"
  shows "case get_status_string to_json fresh s h of (h', p) \<Rightarrow> owned h' (if p = 0 then got else p # got)"
  using assms by (auto simp: get_status_string_def owned_def domIff split: option.split)

lemma owned_free:
  assumes "owned h got" and "p = 0 \<or> p \<in> set got"
  shows "\<exists>h'. transport_free_string p h = Fine h' \<and> owned h' (remove1 p got)"
proof (cases "p = 0")
  case True
  then have "remove1 p got = got" using assms(1) by (simp add: owned_def remove1_idem)
  then show ?thesis using True assms(1) by (simp add: transport_free_string_def)
next
  case False
  then obtain bs where "h p = Some bs" using assms by (auto simp: owned_def)
  then show ?thesis using False assms(1) by (auto simp: transport_free_string_def owned_def)
qed

lemma c_run_owned:
  assumes "owned h got" and "obeys to_json cs h got"
  shows "\<exists>h' got'. c_run to_json cs h got = Fine (h', got') \<and> owned h' got'"
  using assms
proof (induction cs arbitrary: h got)
  case (Cons x cs)
  show ?case
  proof (cases x)
    case (GetStatus s fresh)
    obtain h' p where g: "get_status_string to_json fresh s h = (h', p)" by fastforce
    show ?thesis
      using Cons.IH [of h' "if p = 0 then got else p # got"] Cons.prems GetStatus g
        owned_get [OF Cons.prems(1), of fresh to_json s] by auto
  next
    case (FreeString p)
    then obtain h' where h': "transport_free_string p h = Fine h'" "owned h' (remove1 p got)"
      using owned_free [OF Cons.prems(1), of p] Cons.prems(2) by auto
    show ?thesis
      using Cons.IH [OF h'(2)] Cons.prems(2) FreeString h'(1) by auto
  qed
qed simp

lemma c_str_new: "cstring_new bs = Some cs \<Longrightarrow> c_str cs = bs"
proof -
  have "takeWhile (\<lambda>b. b \<noteq> 0) (bs @ [0]) = bs" if "0 \<notin> set bs"
    using that by (induction bs) auto
  then show "cstring_new bs = Some cs \<Longrightarrow> c_str cs = bs" by (auto simp: cstring_new_def c_str_def split: if_splits)
qed

text \<open>What is allocated is what a status call has put there, until it is freed.\<close>

definition reads_back :: "(status \<Rightarrow> bytes) \<Rightarrow> c_call set \<Rightarrow> c_heap \<Rightarrow> bool" where
  "reads_back to_json C h \<longleftrightarrow>
     (\<forall>p bs. h p = Some bs \<longrightarrow> (\<exists>s st. GetStatus s p \<in> C \<and> transport_get_status s = Some st \<and> c_str bs = to_json st))"

lemma get_status_reads_back:
  assumes "reads_back to_json C h" and "GetStatus s fresh \<in> C"
  shows "reads_back to_json C (fst (get_status_string to_json fresh s h))"
proof (cases "transport_get_status s")
  case (Some st)
  with assms show ?thesis
    by (cases "cstring_new (to_json st)") (auto simp: get_status_string_def reads_back_def dest!: c_str_new)
qed (use assms in \<open>simp add: get_status_string_def\<close>)

lemma c_run_reads_back:
  "c_run to_json cs h0 got0 = Fine (h, got) \<Longrightarrow> set cs \<subseteq> C \<Longrightarrow> reads_back to_json C h0 \<Longrightarrow> reads_back to_json C h"
proof (induction cs arbitrary: h0 got0)
  case (Cons x cs)
  show ?case
  proof (cases x)
    case (GetStatus s fresh)
    obtain h1 p where g: "get_status_string to_json fresh s h0 = (h1, p)" by fastforce
    have "reads_back to_json C h1" using get_status_reads_back [OF Cons.prems(3), of s fresh] g GetStatus Cons.prems(2) by simp
    then show ?thesis using Cons.IH [of h1] Cons.prems(1,2) GetStatus g by auto
  next
    case (FreeString p)
    then obtain h1 where h1: "transport_free_string p h0 = Fine h1" "c_run to_json cs h1 (remove1 p got0) = Fine (h, got)"
      using Cons.prems(1) by (auto split: memory.splits)
    then have "reads_back to_json C h1"
      using Cons.prems(3) by (auto simp: transport_free_string_def reads_back_def split: if_splits option.splits)
    then show ?thesis using Cons.IH [OF h1(2)] Cons.prems(2) by simp
  qed
qed simp

section \<open>The worker's proxy\<close>

definition worker_proxy :: "u16 \<Rightarrow> failover_manager \<Rightarrow> bytes \<Rightarrow> u64 \<Rightarrow> nat \<Rightarrow> socks5_proxy" where
  "worker_proxy bind_addr failover key rate_limit_bps now =
     (let proxy = proxy_new bind_addr failover key in
      if rate_limit_bps > 0 then with_rate_limit rate_limit_bps now proxy else proxy)"

text \<open>A worker ends its life when its accept loop does.\<close>

definition worker_exit :: "nat \<Rightarrow> lib_state \<Rightarrow> lib_state" where
  "worker_exit w s = s\<lparr>live := (live s)(w := None)\<rparr>"

section \<open>Properties\<close>

text \<open>
  C30. The ownership contract of the status strings suffices. For an application that passes to
  \<open>transport_free_string\<close> only null and pointers it got from the status call and has not freed yet, with
  a JSON printer that escapes the zero byte and an allocator that returns unused addresses: no
  free is ever undefined, whatever the library's states in between; at any moment exactly the
  pointers it holds are allocated, so nothing is left once all are freed; each pointer it holds
  still reads, as a C string, as the whole JSON text of the status of the call that returned it; and in
  every state that the library can reach the status call returns a string, never null.
\<close>

theorem status_strings_owned:
  assumes "obeys to_json cs Map.empty []" and "\<And>st. 0 \<notin> set (to_json st)"
  shows "\<exists>h got. c_run to_json cs Map.empty [] = Fine (h, got) \<and> dom h = set got \<and> distinct got
      \<and> (\<forall>p \<in> set got. \<exists>s st. GetStatus s p \<in> set cs \<and> transport_get_status s = Some st
           \<and> map_option c_str (h p) = Some (to_json st))
      \<and> (\<forall>s p h0. GetStatus s p \<in> set cs \<and> reach lib_init (lib_step from_json) s \<longrightarrow>
           snd (get_status_string to_json p s h0) = p)"
proof -
  have "owned Map.empty []" by (simp add: owned_def)
  from c_run_owned [OF this assms(1)] obtain h got where run: "c_run to_json cs Map.empty [] = Fine (h, got)" "owned h got"
    by blast
  have "snd (get_status_string to_json p s h0) = p" if r: "reach lib_init (lib_step from_json) s" for s p h0
  proof -
    obtain st where "transport_get_status s = Some st" using status_of_inv [OF lib.reach_sinv [OF r]] by blast
    then show ?thesis using assms(2) by (simp add: get_status_string_def cstring_new_def)
  qed
  moreover have "reads_back to_json (set cs) h" using c_run_reads_back [OF run(1)] by (simp add: reads_back_def)
  then have "\<exists>s st. GetStatus s p \<in> set cs \<and> transport_get_status s = Some st \<and> map_option c_str (h p) = Some (to_json st)"
    if "p \<in> set got" for p
  proof -
    obtain bs where "h p = Some bs" using \<open>p \<in> set got\<close> run(2) by (auto simp: owned_def)
    then show ?thesis using \<open>reads_back to_json (set cs) h\<close> by (auto simp: reads_back_def)
  qed
  ultimately show ?thesis using run by (auto simp: owned_def)
qed

theorem status_strings_owned_witness:
  "\<exists>h got. c_run (\<lambda>_. [0x7B, 0x7D])
     [GetStatus \<lparr>active = None, live = Map.empty, waiting = Map.empty\<rparr> 64, FreeString 0,
      GetStatus \<lparr>active = None, live = Map.empty, waiting = Map.empty\<rparr> 72, FreeString 64] Map.empty [] = Fine (h, got)
     \<and> dom h = set got \<and> got = [72]"
proof -
  let ?s = "\<lparr>active = None, live = Map.empty, waiting = Map.empty\<rparr> :: lib_state"
  let ?cs = "[GetStatus ?s 64, FreeString 0, GetStatus ?s 72, FreeString 64]"
  note calls = get_status_string_def transport_get_status_def guarded_def cstring_new_def transport_free_string_def
  have "obeys (\<lambda>_. [0x7B, 0x7D]) ?cs Map.empty []" by (simp add: calls)
  then obtain h got where run: "c_run (\<lambda>_. [0x7B, 0x7D]) ?cs Map.empty [] = Fine (h, got)" "dom h = set got"
    using status_strings_owned [of "\<lambda>_. [0x7B, 0x7D]" ?cs "\<lambda>_. Inl []"] by auto
  moreover have "got = [72]" using run(1) by (simp add: calls)
  ultimately show ?thesis by blast
qed

text \<open>
  A dead proxy is still reported as running: when the accept loop of the active worker fails, the
  worker is gone, its port is free and its connections are dropped, but the status is the same as
  before and every start is refused until a stop is called.
\<close>

theorem dead_worker_reported_running:
  assumes "reach lib_init (lib_step from_json) s" and "active s = Some rt" and "live s (rt_worker rt) = Some k"
    and "ps_error p = None"
  shows "proxy_exec F N A K p (PxAcceptFailed e) = p\<lparr>ps_error := Some e, ps_tasks := []\<rparr>
    \<and> reach lib_init (lib_step from_json) (worker_exit (rt_worker rt) s)
    \<and> transport_get_status (worker_exit (rt_worker rt) s) = transport_get_status s
    \<and> transport_get_status s \<noteq> Some NotRunning
    \<and> start_check from_json a (worker_exit (rt_worker rt) s) = None
    \<and> (wk_bound k \<longrightarrow> port_free (worker_exit (rt_worker rt) s) (wk_port k))"
proof -
  have inv: "lib_inv s" by (rule lib.reach_sinv [OF assms(1)])
  have "reach lib_init (lib_step from_json) (worker_exit (rt_worker rt) s)"
    unfolding worker_exit_def using assms(1) worker_end [OF assms(3)] by (rule reach_step)
  moreover have "start_check from_json a (worker_exit (rt_worker rt) s) = None"
    using assms(2) by (simp add: start_check_def worker_exit_def split: option.split)
  moreover have "transport_get_status s \<noteq> Some NotRunning"
    using assms(2) by (auto simp: transport_get_status_def guarded_def split: outcome.splits)
  moreover have "wk_port j \<noteq> wk_port k"
    if "wk_bound k" "live s v = Some j" "wk_bound j" "v \<noteq> rt_worker rt" for v j
    using inv that assms(3) unfolding lib_inv_def by metis
  ultimately show ?thesis using assms(4)
    by (auto simp: proxy_exec_def worker_exit_def transport_get_status_def port_free_def split: if_splits)
qed

text \<open>A start that succeeds, step by step.\<close>

definition running_state :: "start_args \<Rightarrow> endpoint_config list \<Rightarrow> lib_state" where
  "running_state a eps = \<lparr>active = Some \<lparr>rt_failover = failover_new eps, rt_worker = 0\<rparr>,
     live = [0 \<mapsto> \<lparr>wk_port = arg_port a, wk_bound = True\<rparr>], waiting = Map.empty\<rparr>"

lemma running_state_reach:
  assumes "start_check from_json a \<lparr>active = None, live = Map.empty, waiting = Map.empty\<rparr> = Some eps"
  shows "reach lib_init (lib_step from_json) (running_state a eps)"
proof -
  let ?empty = "\<lparr>active = None, live = Map.empty, waiting = Map.empty\<rparr>"
  let ?mid = "\<lambda>bound r. \<lparr>active = None, live = [0 \<mapsto> \<lparr>wk_port = arg_port a, wk_bound = bound\<rparr>], waiting = [0 \<mapsto> (0 :: nat, eps, r)]\<rparr>"
  have "reach lib_init (lib_step from_json) ?empty" by (rule reach_init) (simp add: lib_init_def)
  then have "reach lib_init (lib_step from_json) (?mid False False)"
    by (rule reach_step) (use start_begin [OF assms, of 0 0] in \<open>simp add: new_worker_def\<close>)
  then have "reach lib_init (lib_step from_json) (?mid True False)"
    by (rule reach_step) (use worker_bind [of "?mid False False" 0 _ from_json] in \<open>simp add: port_free_def\<close>)
  then have "reach lib_init (lib_step from_json) (?mid True True)"
    by (rule reach_step) (use worker_report [of "?mid True False" 0 0 eps _ from_json] in simp)
  then show ?thesis
    by (rule reach_step) (use start_commit [of "?mid True True" 0 0 eps from_json] in \<open>simp add: running_state_def\<close>)
qed

theorem dead_worker_reported_running_witness:
  "\<exists>s. reach lib_init (lib_step (\<lambda>j. Inr [sample_endpoint])) s \<and> live s = Map.empty
     \<and> transport_get_status s \<noteq> Some NotRunning \<and> start_check (\<lambda>j. Inr [sample_endpoint]) sample_args s = None"
proof -
  let ?s = "running_state sample_args [sample_endpoint]"
  let ?p = "run_with_listener (proxy_new 1080 sample_fo [])"
  have r: "reach lib_init (lib_step (\<lambda>j. Inr [sample_endpoint])) ?s" by (rule running_state_reach [OF sample_start])
  have a: "active ?s = Some \<lparr>rt_failover = failover_new [sample_endpoint], rt_worker = 0\<rparr>"
    and l: "live ?s (rt_worker \<lparr>rt_failover = failover_new [sample_endpoint], rt_worker = 0\<rparr>) = Some \<lparr>wk_port = 1080, wk_bound = True\<rparr>"
    by (simp_all add: running_state_def sample_args_def)
  have p: "ps_error ?p = None" by (simp add: run_with_listener_def)
  note d = dead_worker_reported_running [OF r a l p, of ascii_fmt refusing_net toy_aead toy_kex early_eof sample_args]
  show ?thesis
    by (intro exI [of _ "worker_exit 0 ?s"]) (use d in \<open>auto simp: worker_exit_def running_state_def\<close>)
qed

lemma start_check_active:
  "active s = active t \<Longrightarrow> start_check from_json a t = Some eps \<Longrightarrow> start_check from_json a s = Some eps"
  by (simp only: start_check_def)

text \<open>
  Two starts at once lose a worker: when two calls with different ports pass the check before either
  has filled the slot, both return success; the slot keeps the second, and after a stop the status
  says that nothing runs while the first proxy still holds its port and cannot be stopped.
\<close>

theorem concurrent_starts_orphan_worker:
  assumes "start_check from_json a \<lparr>active = None, live = Map.empty, waiting = Map.empty\<rparr> = Some eps"
    and "start_check from_json b \<lparr>active = None, live = Map.empty, waiting = Map.empty\<rparr> = Some eps'"
    and "arg_port a \<noteq> arg_port b"
  shows "\<exists>s. reach lib_init (lib_step from_json) s \<and> active s = None \<and> waiting s = Map.empty
    \<and> transport_get_status s = Some NotRunning \<and> live s = [0 \<mapsto> \<lparr>wk_port = arg_port a, wk_bound = True\<rparr>]"
proof -
  let ?k = "\<lambda>p b. \<lparr>wk_port = p, wk_bound = b\<rparr>"
  let ?both = "\<lambda>x y. [0 \<mapsto> ?k (arg_port a) x, 1 \<mapsto> ?k (arg_port b) y]"
  let ?w = "\<lambda>x y. [0 \<mapsto> (0 :: nat, eps, x), 1 \<mapsto> (1, eps', y)]"
  let ?rt = "\<lambda>w e. \<lparr>rt_failover = failover_new e, rt_worker = w\<rparr>"
  let ?s = "\<lambda>x y u v. \<lparr>active = None, live = ?both x y, waiting = ?w u v\<rparr>"
  let ?R = "reach lib_init (lib_step from_json)"
  have "?R \<lparr>active = None, live = Map.empty, waiting = Map.empty\<rparr>" by (rule reach_init) (simp add: lib_init_def)
  then have r1: "?R \<lparr>active = None, live = [0 \<mapsto> ?k (arg_port a) False], waiting = [0 \<mapsto> (0, eps, False)]\<rparr>"
    by (rule reach_step) (use start_begin [OF assms(1), of 0 0] in \<open>simp add: new_worker_def\<close>)
  have b: "start_check from_json b \<lparr>active = None, live = [0 \<mapsto> ?k (arg_port a) False], waiting = [0 \<mapsto> (0, eps, False)]\<rparr> = Some eps'"
    by (rule start_check_active [OF _ assms(2)]) simp
  have "?R (?s False False False False)"
    by (rule reach_step [OF r1]) (use start_begin [OF b, of 1 1] in \<open>simp add: new_worker_def\<close>)
  then have "?R (?s True False False False)"
    by (rule reach_step)
      (use worker_bind [of "?s False False False False" 0 "?k (arg_port a) False" from_json] in \<open>simp add: port_free_def fun_upd_twist\<close>)
  then have "?R (?s True True False False)"
    by (rule reach_step)
      (use worker_bind [of "?s True False False False" 1 "?k (arg_port b) False" from_json] assms(3) in \<open>simp add: port_free_def\<close>)
  then have "?R (?s True True True False)"
    by (rule reach_step)
      (use worker_report [of "?s True True False False" 0 0 eps "?k (arg_port a) True" from_json] in \<open>simp add: fun_upd_twist\<close>)
  then have "?R (?s True True True True)"
    by (rule reach_step)
      (use worker_report [of "?s True True True False" 1 1 eps' "?k (arg_port b) True" from_json] in simp)
  then have "?R \<lparr>active = Some (?rt 0 eps), live = ?both True True, waiting = [1 \<mapsto> (1, eps', True)]\<rparr>"
    by (rule reach_step)
      (use start_commit [of "?s True True True True" 0 0 eps from_json] in \<open>simp add: fun_upd_twist\<close>)
  then have "?R \<lparr>active = Some (?rt 1 eps'), live = ?both True True, waiting = Map.empty\<rparr>"
    by (rule reach_step)
      (use start_commit [of "\<lparr>active = Some (?rt 0 eps), live = ?both True True, waiting = [1 \<mapsto> (1, eps', True)]\<rparr>" 1 1 eps'
          from_json] in simp)
  then have "?R \<lparr>active = None, live = [0 \<mapsto> ?k (arg_port a) True], waiting = Map.empty\<rparr>"
    by (rule reach_step)
      (use stop [of "\<lparr>active = Some (?rt 1 eps'), live = ?both True True, waiting = Map.empty\<rparr>" "?rt 1 eps'" from_json] in simp)
  then show ?thesis
    by (intro exI [of _ "\<lparr>active = None, live = [0 \<mapsto> ?k (arg_port a) True], waiting = Map.empty\<rparr>"])
      (simp add: transport_get_status_def guarded_def)
qed

theorem concurrent_starts_orphan_worker_witness:
  "\<exists>s. reach lib_init (lib_step (\<lambda>j. Inr [sample_endpoint])) s \<and> active s = None \<and> waiting s = Map.empty
    \<and> transport_get_status s = Some NotRunning \<and> live s = [0 \<mapsto> \<lparr>wk_port = 1080, wk_bound = True\<rparr>]"
proof -
  have "parse_endpoints (\<lambda>j. Inr [sample_endpoint]) [] = Inr [sample_endpoint]"
    by (simp add: parse_endpoints_Inr endpoints_ok_def sample_endpoint_ok)
  then have b: "start_check (\<lambda>j. Inr [sample_endpoint]) (sample_args\<lparr>arg_port := 1081\<rparr>)
      \<lparr>active = None, live = Map.empty, waiting = Map.empty\<rparr> = Some [sample_endpoint]"
    using utf8_valid_ascii [of "[]"] by (simp add: start_check_def sample_args_def)
  have "arg_port sample_args \<noteq> arg_port (sample_args\<lparr>arg_port := 1081\<rparr>)" by (simp add: sample_args_def)
  from concurrent_starts_orphan_worker [OF sample_start b this] show ?thesis by (simp add: sample_args_def)
qed

end
