(* ===== verification/Os_Rng.thy ===== *)
theory Os_Rng
  imports Steal
begin

text \<open>
  The operating system's random generator as the code uses it. \<open>OsRng\<close> (crate \<open>rand\<close>) is a source of bytes,
  a parameter of the model; \<open>fill_bytes\<close> hands out its next bytes. The handshakes of \<open>steal.rs\<close> take their
  random values as arguments in the theory \<open>Steal\<close>; here they draw them, in the order of the code.
\<close>

record os_rng =
  rng_source :: "nat \<Rightarrow> u8"
  rng_pos :: nat

definition fill_bytes :: "nat \<Rightarrow> os_rng \<Rightarrow> os_rng \<times> bytes" where
  "fill_bytes n R = (R\<lparr>rng_pos := rng_pos R + n\<rparr>, map (rng_source R) [rng_pos R..<rng_pos R + n])"

definition generate_key :: "os_rng \<Rightarrow> os_rng \<times> bytes" where
  "generate_key R = fill_bytes 32 R"

definition generate_prefix :: "os_rng \<Rightarrow> os_rng \<times> bytes" where
  "generate_prefix R = fill_bytes PREFIX_SIZE R"

text \<open>\<open>StaticSecret::random_from_rng\<close> fills the 32 bytes of a secret.\<close>

definition random_secret :: "os_rng \<Rightarrow> os_rng \<times> bytes" where
  "random_secret R = fill_bytes 32 R"

definition client_handshake_rng ::
  "kex \<Rightarrow> os_rng \<Rightarrow> bytes \<Rightarrow> bytes \<Rightarrow> reader \<Rightarrow> writer \<Rightarrow> os_rng \<times> reader \<times> writer \<times> (transport_error + client_auth)" where
  "client_handshake_rng K R server_static_public client_psk r w =
     (case random_secret R of (R, client_secret) \<Rightarrow>
      case fill_bytes PREFIX_SIZE R of (R, c2s) \<Rightarrow>
      case fill_bytes PREFIX_SIZE R of (R, s2c) \<Rightarrow>
        (R, client_handshake K client_secret c2s s2c server_static_public client_psk r w))"

text \<open>The server draws its ephemeral secret only after the token was accepted.\<close>

definition server_derive_session_rng ::
  "kex \<Rightarrow> os_rng \<Rightarrow> bytes \<Rightarrow> bytes \<Rightarrow> bytes \<Rightarrow> bytes \<Rightarrow> os_rng \<times> (bytes \<times> bytes) option" where
  "server_derive_session_rng K R server_static_secret client_ephemeral_public received_auth_token client_psk =
     (case random_secret R of (R', server_ephemeral_secret) \<Rightarrow>
        case server_derive_session K server_ephemeral_secret server_static_secret client_ephemeral_public received_auth_token client_psk of
          None \<Rightarrow> (R, None)
        | Some s \<Rightarrow> (R', Some s))"

section \<open>Properties\<close>

text \<open>
  A handshake draws a secret of 32 bytes and two prefixes of 8 bytes from 48 consecutive bytes of the
  generator and runs on exactly these; no byte serves two purposes, and the next handshake starts after them.
\<close>

theorem client_handshake_draws:
  "client_handshake_rng K R spub k r w =
     (R\<lparr>rng_pos := rng_pos R + 48\<rparr>,
      client_handshake K (map (rng_source R) [rng_pos R..<rng_pos R + 32])
        (map (rng_source R) [rng_pos R + 32..<rng_pos R + 40]) (map (rng_source R) [rng_pos R + 40..<rng_pos R + 48]) spub k r w)"
  by (simp add: client_handshake_rng_def random_secret_def fill_bytes_def PREFIX_SIZE_def add.commute)

text \<open>A refused token costs the server no randomness; an accepted one exactly 32 bytes.\<close>

theorem server_draws_after_check:
  "rng_pos (fst (server_derive_session_rng K R sk eph token k)) =
     (if snd (server_derive_session_rng K R sk eph token k) = None then rng_pos R else rng_pos R + 32)"
  by (auto simp: server_derive_session_rng_def random_secret_def fill_bytes_def split: option.split)

lemma client_handshake_prefixes: "client_handshake K cs c2s s2c spub k r w = (r', w', Inr a) \<Longrightarrow> c2s_prefix a = c2s \<and> s2c_prefix a = s2c"
  by (auto simp: client_handshake_def Let_def split: prod.splits sum.splits)

lemma frame_nonce_prefix: "frame_nonce p m = frame_nonce q n \<Longrightarrow> length p = length q \<Longrightarrow> p = q"
  by (simp add: frame_nonce_def)

text \<open>
  C8. No nonce is used twice in a session, by either side, although both directions are encrypted under the
  same key: when the two blocks of eight bytes that the generator gave the client's handshake as prefixes
  differ, the nonces of everything the client's codec encrypts and of everything the gateway's codec
  encrypts, in any sequences of writes, reads (of bytes an adversary chooses) and rekeys, are pairwise
  distinct. The bound is the wrap of the counters' 64 bits.
\<close>

theorem session_nonces_never_repeat:
  assumes "client_handshake_rng K R spub k r w = (R', r', w', Inr a)"
    and "map (rng_source R) [rng_pos R + 32..<rng_pos R + 40] \<noteq> map (rng_source R) [rng_pos R + 40..<rng_pos R + 48]"
    and "length xs < 2 ^ 64" and "length ys < 2 ^ 64"
  shows "distinct (map snd (nonce_trace A (codec_new (session_key a) (c2s_prefix a) (s2c_prefix a) 0) xs)
    @ map snd (nonce_trace A (codec_new (session_key a) (s2c_prefix a) (c2s_prefix a) 0) ys))"
proof -
  let ?c = "codec_new (session_key a) (c2s_prefix a) (s2c_prefix a) 0"
  let ?s = "codec_new (session_key a) (s2c_prefix a) (c2s_prefix a) 0"
  have b: "unat (send_counter ?c) + length xs < 2 ^ 64" "unat (send_counter ?s) + length ys < 2 ^ 64"
    using assms(3,4) by (simp_all add: codec_new_def)
  have "c2s_prefix a \<noteq> s2c_prefix a" "length (c2s_prefix a) = length (s2c_prefix a)"
    using assms(1,2) client_handshake_prefixes by (auto simp: client_handshake_draws)
  then have "frame_nonce (c2s_prefix a) m \<noteq> frame_nonce (s2c_prefix a) n" for m n using frame_nonce_prefix by blast
  then have "n1 \<noteq> n2" if "(k1, n1) \<in> set (nonce_trace A ?c xs)" "(k2, n2) \<in> set (nonce_trace A ?s ys)" for k1 n1 k2 n2
    using nonce_trace_bounds [OF b(1) that(1)] nonce_trace_bounds [OF b(2) that(2)] by (auto simp: codec_new_def)
  then show ?thesis using nonce_trace_distinct [OF b(1)] nonce_trace_distinct [OF b(2)] by fastforce
qed

definition counting_rng :: os_rng where
  "counting_rng = \<lparr>rng_source = of_nat, rng_pos = 0\<rparr>"

theorem session_nonces_never_repeat_witness:
  "\<exists>R' r' w' a. client_handshake_rng toy_kex counting_rng [6] [8] (cursor (replicate 32 0)) vec_writer = (R', r', w', Inr a)
    \<and> distinct (map snd (nonce_trace toy_aead (codec_new (session_key a) (c2s_prefix a) (s2c_prefix a) 0) [WriteOp [1] vec_writer])
        @ map snd (nonce_trace toy_aead (codec_new (session_key a) (s2c_prefix a) (c2s_prefix a) 0) [WriteOp [] vec_writer]))"
proof -
  have "(case client_handshake_rng toy_kex counting_rng [6] [8] (cursor (replicate 32 0)) vec_writer of
      (R', r', w', Inr a) \<Rightarrow> True | _ \<Rightarrow> False)" by code_simp
  then obtain R' r' w' a where h: "client_handshake_rng toy_kex counting_rng [6] [8] (cursor (replicate 32 0)) vec_writer = (R', r', w', Inr a)"
    by (auto split: prod.splits sum.splits)
  have "map (rng_source counting_rng) [rng_pos counting_rng + 32..<rng_pos counting_rng + 40]
      \<noteq> map (rng_source counting_rng) [rng_pos counting_rng + 40..<rng_pos counting_rng + 48]"
    by code_simp
  from session_nonces_never_repeat [OF h this, of "[WriteOp [1] vec_writer]" "[WriteOp [] vec_writer]" toy_aead] h show ?thesis
    by auto
qed

end
