(* ===== verification/Tests_Core.thy ===== *)
theory Tests_Core
  imports Replay Rate_Limiter Tcp_Handler Os_Rng
begin

text \<open>
  The unit tests of \<open>replay.rs\<close>, \<open>rate_limiter.rs\<close>, \<open>tcp_handler.rs\<close>, \<open>auth.rs\<close> and \<open>steal.rs\<close>
  (\<open>transport-core/src\<close>) replayed on the model. Random draws and the instants of the calls are
  parameters, so the theorems say for which draws and which timing a test passes.
\<close>

section \<open>Replay window\<close>

text \<open>A test is a list of counters with the answers its assertions expect.\<close>

fun checks :: "replay_window \<Rightarrow> (u64 \<times> bool) list \<Rightarrow> bool" where
  "checks w [] \<longleftrightarrow> True"
| "checks w ((c, answer) # cs) \<longleftrightarrow> (case replay_check w c of (w, ok) \<Rightarrow> ok = answer \<and> checks w cs)"

definition test_accept_new_counters :: bool where
  "test_accept_new_counters \<longleftrightarrow> checks (replay_new 64) [(0, True), (1, True), (2, True), (100, True)]"

definition test_reject_replay :: bool where
  "test_reject_replay \<longleftrightarrow> checks (replay_new 64) [(5, True), (5, False)]"

definition test_reject_old_counter :: bool where
  "test_reject_old_counter \<longleftrightarrow> checks (replay_new 64) [(100, True), (50, True), (30, False)]"

definition test_window_advance_clears_old :: bool where
  "test_window_advance_clears_old \<longleftrightarrow>
     checks (replay_new 64) (map (\<lambda>i. (of_nat i, True)) [0..<200] @ [(0, False)])"

definition test_out_of_order_within_window :: bool where
  "test_out_of_order_within_window \<longleftrightarrow>
     checks (replay_new 64) [(100, True), (95, True), (95, False), (99, True)]"

definition test_large_jump_clears_window :: bool where
  "test_large_jump_clears_window \<longleftrightarrow>
     checks (replay_new 64) [(0, True), (1, True), (2, True), (1000, True), (1, False)]"

definition test_zero_counter :: bool where
  "test_zero_counter \<longleftrightarrow> checks (replay_new 64) [(0, True), (0, False)]"

section \<open>Rate limiter\<close>

text \<open>Calls of \<open>try_consume\<close> at their instants, with the answers expected.\<close>

fun consumes :: "token_bucket \<Rightarrow> (nat \<times> u64 \<times> bool) list \<Rightarrow> bool" where
  "consumes b [] \<longleftrightarrow> True"
| "consumes b ((now, amount, answer) # cs) \<longleftrightarrow>
     (case try_consume now amount b of (b, ok) \<Rightarrow> ok = answer \<and> consumes b cs)"

definition test_token_bucket_basic :: "nat \<Rightarrow> nat \<Rightarrow> nat \<Rightarrow> nat \<Rightarrow> bool" where
  "test_token_bucket_basic t0 t1 t2 t3 \<longleftrightarrow>
     consumes (bucket_new 1000 1000 t0) [(t1, 500, True), (t2, 500, True), (t3, 100, False)]"

definition test_rate_limiter :: "nat \<Rightarrow> nat \<Rightarrow> nat \<Rightarrow> nat \<Rightarrow> bool" where
  "test_rate_limiter t0 t1 t2 t3 \<longleftrightarrow>
     consumes (rate_limiter_new 1000 t0) [(t1, 500, True), (t2, 500, True), (t3, 100, False)]"

definition test_update_limit :: "nat \<Rightarrow> nat \<Rightarrow> nat \<Rightarrow> bool" where
  "test_update_limit t0 t1 t2 \<longleftrightarrow>
     (case try_consume t1 1500 (rate_limiter_new 1000 t0) of
        (limiter, ok) \<Rightarrow> \<not> ok \<and> snd (try_consume t2 1500 (update_limit 2000 limiter)))"

section \<open>ClientHello parser\<close>

definition test_extract_auth_from_invalid_data :: bool where
  "test_extract_auth_from_invalid_data \<longleftrightarrow> extract_auth_from_clienthello (replicate 10 0) = Ret None"

definition test_extract_auth_from_non_handshake :: bool where
  "test_extract_auth_from_non_handshake \<longleftrightarrow>
     extract_auth_from_clienthello ((replicate 100 0)[0 := 0x17]) = Ret None"

section \<open>Key exchange\<close>

definition test_key_exchange :: "kex \<Rightarrow> bytes \<Rightarrow> bytes \<Rightarrow> bool" where
  "test_key_exchange K c s \<longleftrightarrow>
     (let client = key_pair_generate K c; server = key_pair_generate K s in
      derive_shared_key K client (kp_public server) = derive_shared_key K server (kp_public client))"

definition test_auth_token :: "kex \<Rightarrow> bytes \<Rightarrow> bytes \<Rightarrow> bool" where
  "test_auth_token K c s \<longleftrightarrow>
     (let client = key_pair_generate K c; server = key_pair_generate K s;
          token = generate_auth_token K (kp_secret client) (kp_public server)
      in verify_auth_token K (kp_public client) (kp_secret server) token)"

section \<open>Handshake\<close>

definition test_auth_frame_size :: bool where
  "test_auth_frame_size \<longleftrightarrow> AUTH_FRAME_SIZE = 80 \<and> AUTH_RESPONSE_SIZE = 32"

text \<open>The token a test computes for itself, and the session the server derives from it.\<close>

definition client_token :: "kex \<Rightarrow> bytes \<Rightarrow> bytes \<Rightarrow> bytes \<Rightarrow> bytes" where
  "client_token K client_secret server_public k =
     kx_hkdf K (kx_dh K client_secret server_public @ k) AUTH_INFO"

definition derive_from :: "kex \<Rightarrow> bytes \<Rightarrow> bytes \<Rightarrow> bytes \<Rightarrow> bytes \<Rightarrow> bytes \<Rightarrow> (bytes \<times> bytes) option" where
  "derive_from K ss cs es token_psk server_psk =
     (let server_keypair = key_pair_generate K ss in
      server_derive_session K es (kp_secret server_keypair) (kx_public K cs)
        (client_token K cs (kp_public server_keypair) token_psk) server_psk)"

definition test_ecdhe_session_key_match :: "kex \<Rightarrow> bytes \<Rightarrow> bytes \<Rightarrow> bytes \<Rightarrow> bool" where
  "test_ecdhe_session_key_match K ss cs es \<longleftrightarrow>
     (case derive_from K ss cs es (replicate 32 0) (replicate 32 0) of
        None \<Rightarrow> False
      | Some (eph, server_key) \<Rightarrow> kx_hkdf K (kx_dh K cs eph) SESSION_INFO = server_key)"

definition test_different_sessions_different_keys :: "kex \<Rightarrow> bytes \<Rightarrow> (bytes \<times> bytes) list \<Rightarrow> bool" where
  "test_different_sessions_different_keys K ss draws \<longleftrightarrow>
     (let results = map (\<lambda>(cs, es). derive_from K ss cs es (replicate 32 0) (replicate 32 0)) draws in
      None \<notin> set results \<and> distinct (map (map_option snd) results))"

definition test_invalid_auth_token_rejected :: "kex \<Rightarrow> bytes \<Rightarrow> bytes \<Rightarrow> bytes \<Rightarrow> bool" where
  "test_invalid_auth_token_rejected K ss cs es \<longleftrightarrow>
     server_derive_session K es (kp_secret (key_pair_generate K ss)) (kx_public K cs)
       (replicate 32 0xFF) (replicate 32 0) = None"

definition test_session_key_differs_from_auth_token :: "kex \<Rightarrow> bytes \<Rightarrow> bytes \<Rightarrow> bytes \<Rightarrow> bool" where
  "test_session_key_differs_from_auth_token K ss cs es \<longleftrightarrow>
     (case derive_from K ss cs es (replicate 32 0) (replicate 32 0) of
        None \<Rightarrow> False
      | Some (_, server_key) \<Rightarrow>
          client_token K cs (kp_public (key_pair_generate K ss)) (replicate 32 0) \<noteq> server_key)"

definition test_prefixes_are_random :: "os_rng \<Rightarrow> bool" where
  "test_prefixes_are_random R \<longleftrightarrow>
     (case fill_bytes PREFIX_SIZE R of (R, c2s_1) \<Rightarrow> case fill_bytes PREFIX_SIZE R of (R, c2s_2) \<Rightarrow> c2s_1 \<noteq> c2s_2)"

text \<open>
  The two tasks of the round trip: the server reads what the client has sent when it waits for the
  answer, and the client then reads the server's answer.
\<close>

definition test_client_handshake_roundtrip :: "kex \<Rightarrow> bytes \<Rightarrow> bytes \<Rightarrow> bytes \<Rightarrow> bytes \<Rightarrow> bytes \<Rightarrow> bool" where
  "test_client_handshake_roundtrip K ss cs es c2s s2c \<longleftrightarrow>
     (let server_keypair = key_pair_generate K ss;
          test_psk = replicate 32 0;
          client = (\<lambda>answer. client_handshake K cs c2s s2c (kp_public server_keypair) test_psk (cursor answer) vec_writer);
          request = wbuf (fst (snd (client [])))
      in case read_auth_frame (cursor request) of
           (_, Inl e) \<Rightarrow> False
         | (_, Inr (ephemeral, token, _, _)) \<Rightarrow>
             (case server_derive_session K es (kp_secret server_keypair) ephemeral token test_psk of
                None \<Rightarrow> False
              | Some (eph, server_key) \<Rightarrow>
                  (case write_all eph vec_writer of
                     (_, Inl e) \<Rightarrow> False
                   | (w, Inr _) \<Rightarrow>
                       (case flush w of
                          (_, Inl e) \<Rightarrow> False
                        | (w, Inr _) \<Rightarrow>
                            (case client (wbuf w) of
                               (_, _, Inl e) \<Rightarrow> False
                             | (_, _, Inr a) \<Rightarrow> session_key a = server_key)))))"

definition test_wrong_psk_rejected :: "kex \<Rightarrow> bytes \<Rightarrow> bytes \<Rightarrow> bytes \<Rightarrow> bool" where
  "test_wrong_psk_rejected K ss cs es \<longleftrightarrow> derive_from K ss cs es (replicate 32 1) (replicate 32 2) = None"

section \<open>Lemmas\<close>

text \<open>Counters that increase one by one are accepted, and lead to a well-formed window.\<close>

lemma checks_increasing:
  assumes "replay_wf w" and "max_counter w = Some (of_nat m)" and "m + n < 2 ^ 64"
    and "\<And>w'. replay_wf w' \<Longrightarrow> window_size w' = window_size w \<Longrightarrow> max_counter w' = Some (of_nat (m + n)) \<Longrightarrow> checks w' cs"
  shows "checks w (map (\<lambda>i. (of_nat i, True)) [Suc m..<Suc (m + n)] @ cs)"
  using assms
proof (induction n arbitrary: w m)
  case 0
  then show ?case by simp
next
  case (Suc n)
  obtain w1 where w1: "replay_check w (of_nat (Suc m)) = (w1, True)" "max_counter w1 = Some (of_nat (Suc m))"
  proof -
    have "(of_nat m :: u64) < of_nat (Suc m)"
      using Suc.prems(3)
      by (simp only: word_of_nat_less_iff) (simp add: take_bit_nat_eq_self del: of_nat_Suc)
    from that [OF replay_check_advance [OF Suc.prems(1,2) this]] show ?thesis by simp
  qed
  have "w1 = fst (replay_check w (of_nat (Suc m)))" using w1(1) by simp
  then have "replay_wf w1" "window_size w1 = window_size w" using replay_check_wf [OF Suc.prems(1)] by simp_all
  then have "checks w1 (map (\<lambda>i. (of_nat i, True)) [Suc (Suc m)..<Suc (Suc m + n)] @ cs)"
    using Suc.prems(3,4) w1(2) by (intro Suc.IH) simp_all
  then show ?case using w1(1) by (simp add: upt_conv_Cons del: upt_Suc)
qed

lemma window_advance: test_window_advance_clears_old
proof -
  have "checks w [(0, False)]"
    if "replay_wf w" "window_size w = 64" "max_counter w = Some (of_nat (0 + 199))" for w
  proof -
    have "window_base w = saturating_sub (of_nat 199) 64" using that by (simp add: replay_wf_def)
    then have "0 < window_base w" by (simp add: saturating_sub_def)
    with that(3) show ?thesis by (simp add: replay_check_reject [of w "of_nat 199"])
  qed
  then have "checks (fst (replay_check (replay_new 64) 0))
      (map (\<lambda>i. (of_nat i, True)) [Suc 0..<Suc (0 + 199)] @ [(0, False)])"
    by (intro checks_increasing) (simp_all add: replay_check_wf, simp_all add: replay_check_def replay_new_def)
  moreover have "[0..<200] = 0 # [Suc 0..<Suc (0 + 199)]" by (simp add: upt_conv_Cons del: upt_Suc)
  moreover have "replay_check (replay_new 64) 0 = (fst (replay_check (replay_new 64) 0), True)"
    by (simp add: replay_check_def replay_new_def)
  ultimately show ?thesis by (auto simp: test_window_advance_clears_old_def split: prod.split)
qed

text \<open>Within one second of its creation a bucket is only drawn from.\<close>

lemma try_consume_early:
  "now - last_refill b < second \<Longrightarrow>
   try_consume now a b = (if tokens b < a then (b, False) else (b\<lparr>tokens := tokens b - a\<rparr>, True))"
  by (simp add: try_consume_def refill_def Let_def)

lemma derive_from_eq:
  assumes "kex_correct K"
  shows "derive_from K ss cs es k k' =
    (if client_token K cs (kx_public K ss) k = client_token K cs (kx_public K ss) k'
     then Some (kx_public K es, kx_hkdf K (kx_dh K es (kx_public K cs)) SESSION_INFO) else None)"
  using kex_correctD(1) [OF assms, of ss cs]
  by (auto simp: derive_from_def key_pair_generate_def client_token_def server_derive_session_def Let_def auth_token_for_def)

lemma different_sessions:
  assumes "kex_correct K"
  shows "test_different_sessions_different_keys K ss draws \<longleftrightarrow>
    distinct (map (\<lambda>(c, e). kx_hkdf K (kx_dh K e (kx_public K c)) SESSION_INFO) draws)"
proof -
  let ?key = "\<lambda>(c, e). kx_hkdf K (kx_dh K e (kx_public K c)) SESSION_INFO"
  let ?run = "\<lambda>(c, e). derive_from K ss c e (replicate 32 0) (replicate 32 0)"
  have run: "?run d = Some (kx_public K (snd d), ?key d)" for d
    by (cases d) (simp add: derive_from_eq [OF assms])
  then have "None \<notin> set (map ?run draws)" "map (map_option snd) (map ?run draws) = map Some (map ?key draws)"
    by (simp_all add: image_iff)
  then show ?thesis
    unfolding test_different_sessions_different_keys_def Let_def by (simp only: distinct_map inj_Some) simp
qed

lemma handshake_roundtrip:
  assumes "kex_correct K" and "length c2s = 8" and "length s2c = 8"
  shows "test_client_handshake_roundtrip K ss cs es c2s s2c"
proof -
  note kx = kex_correctD [OF assms(1)]
  let ?req = "auth_frame K cs c2s s2c (kx_public K ss) (replicate 32 0)"
  have frame: "wbuf (fst (snd (client_handshake K cs c2s s2c (kx_public K ss) (replicate 32 0) (cursor []) vec_writer))) = ?req"
    by (simp add: client_handshake_def auth_frame_def Let_def stream_simps)
       (simp add: read_exact_def cursor_def vec_writer_def AUTH_RESPONSE_SIZE_def)
  have read: "read_auth_frame (cursor ?req) =
      (cursor [], Inr (kx_public K cs, auth_token_for K (kx_dh K cs (kx_public K ss)) (replicate 32 0), c2s, s2c))"
    using assms(2,3) by (subst read_auth_frame_parts) (simp_all add: kx auth_frame_def auth_token_for_def cursor_def)
  have srv: "server_derive_session K es ss (kx_public K cs)
      (auth_token_for K (kx_dh K cs (kx_public K ss)) (replicate 32 0)) (replicate 32 0)
      = Some (kx_public K es, kx_hkdf K (kx_dh K es (kx_public K cs)) SESSION_INFO)"
    by (simp add: server_derive_session_def Let_def kx(1) [of ss cs])
  show ?thesis
    using client_handshake_ok [of vec_writer "kx_public K es" "cursor (kx_public K es)" "[]" K cs c2s s2c "kx_public K ss" "replicate 32 0"]
    by (simp add: test_client_handshake_roundtrip_def Let_def key_pair_generate_def frame read srv stream_simps kx(2))
       (simp add: cursor_def vec_writer_def stream_simps kx(1) [of cs es])
qed

section \<open>Outcomes\<close>

text \<open>
  Every unit test of the replay window and of the ClientHello parser passes.
\<close>

theorem replay_and_hello_unit_tests_pass:
  "test_accept_new_counters \<and> test_reject_replay \<and> test_reject_old_counter \<and> test_window_advance_clears_old
   \<and> test_out_of_order_within_window \<and> test_large_jump_clears_window \<and> test_zero_counter
   \<and> test_extract_auth_from_invalid_data \<and> test_extract_auth_from_non_handshake"
proof -
  have "test_accept_new_counters \<and> test_reject_replay \<and> test_reject_old_counter
      \<and> test_out_of_order_within_window \<and> test_large_jump_clears_window \<and> test_zero_counter"
    by code_simp
  moreover have "test_extract_auth_from_invalid_data \<and> test_extract_auth_from_non_handshake" by code_simp
  ultimately show ?thesis using window_advance by blast
qed

text \<open>
  The tests of the token bucket depend on the clock: they pass when all their calls fall within
  one second of the creation of the bucket, and the two that expect the third call to be refused
  fail when that call comes a second or more after the creation, since the bucket has been
  refilled by then.
\<close>

theorem limiter_unit_tests_timing:
  assumes "t0 \<le> t1" and "t1 \<le> t2" and "t2 < t0 + second" and "t2 \<le> t3" and "t3 < t0 + 1000 * second"
  shows "test_update_limit t0 t1 t2
    \<and> (test_token_bucket_basic t0 t1 t2 t3 \<longleftrightarrow> t3 < t0 + second)
    \<and> (test_rate_limiter t0 t1 t2 t3 \<longleftrightarrow> t3 < t0 + second)"
proof -
  let ?b = "bucket_new 1000 1000 t0"
  have early: "t1 - t0 < second" "t2 - t0 < second" using assms by linarith+
  have upd: "test_update_limit t0 t1 t2"
    using early by (simp add: test_update_limit_def rate_limiter_new_def bucket_new_def try_consume_early
        update_limit_def update_limits_def)
  have two: "consumes ?b [(t1, 500, True), (t2, 500, True), (t3, 100, False)] \<longleftrightarrow>
      \<not> snd (try_consume t3 100 (?b\<lparr>tokens := 0\<rparr>))"
    using early by (simp add: bucket_new_def try_consume_early split: prod.split)
  have "\<not> snd (try_consume t3 100 (?b\<lparr>tokens := 0\<rparr>)) \<longleftrightarrow> t3 < t0 + second"
  proof (cases "t3 < t0 + second")
    case True
    then have "t3 - t0 < second" using assms by linarith
    with True show ?thesis by (simp add: try_consume_early bucket_new_def)
  next
    case False
    let ?n = "(t3 - t0) div second"
    have s: "0 < second" by (simp add: second_def)
    have "second \<le> t3 - t0" "t3 - t0 < 1000 * second" using False assms by linarith+
    then have n: "1 \<le> ?n" "?n < 1000" using s by (simp_all add: less_mult_imp_div_less Suc_le_eq div_greater_zero_iff)
    have "unat ((1000 :: u64) * of_nat ?n) = 1000 * ?n" using n by (simp add: unat_word_ariths(2) unat_of_nat)
    then have "\<not> min ((1000 :: u64) * of_nat ?n) 1000 < 100"
      using n(1) by (simp add: word_less_nat_alt min_def)
    then show ?thesis using False \<open>second \<le> t3 - t0\<close>
      by (simp add: try_consume_def refill_def bucket_new_def Let_def)
  qed
  with two upd show ?thesis by (simp add: test_token_bucket_basic_def test_rate_limiter_def rate_limiter_new_def)
qed

theorem limiter_unit_tests_timing_witness:
  "test_token_bucket_basic 0 1 2 3 \<and> \<not> test_token_bucket_basic 0 1 2 second"
  using limiter_unit_tests_timing [of 0 1 2 3] limiter_unit_tests_timing [of 0 1 2 second]
  by (simp add: second_def)

text \<open>
  The unit tests of the key exchange and of the handshake pass for every draw of the secrets where
  they test agreement; those that expect two derived values to differ pass exactly when the
  derivation gives different values, which no test can promise of random draws: a rejected
  token or pre-shared key is rejected exactly when its HKDF output differs from the server's.
\<close>

theorem handshake_unit_tests_outcomes:
  assumes K: "kex_correct K" and "length c2s = 8" and "length s2c = 8"
  shows "test_key_exchange K cs ss \<and> test_auth_token K cs ss \<and> test_auth_frame_size
    \<and> test_ecdhe_session_key_match K ss cs es \<and> test_client_handshake_roundtrip K ss cs es c2s s2c
    \<and> (test_different_sessions_different_keys K ss draws \<longleftrightarrow>
         distinct (map (\<lambda>(c, e). kx_hkdf K (kx_dh K e (kx_public K c)) SESSION_INFO) draws))
    \<and> (test_invalid_auth_token_rejected K ss cs es \<longleftrightarrow>
         kx_hkdf K (kx_dh K ss (kx_public K cs) @ replicate 32 0) AUTH_INFO \<noteq> replicate 32 0xFF)
    \<and> (test_session_key_differs_from_auth_token K ss cs es \<longleftrightarrow>
         kx_hkdf K (kx_dh K ss (kx_public K cs) @ replicate 32 0) AUTH_INFO
           \<noteq> kx_hkdf K (kx_dh K es (kx_public K cs)) SESSION_INFO)
    \<and> (test_wrong_psk_rejected K ss cs es \<longleftrightarrow>
         kx_hkdf K (kx_dh K ss (kx_public K cs) @ replicate 32 1) AUTH_INFO
           \<noteq> kx_hkdf K (kx_dh K ss (kx_public K cs) @ replicate 32 2) AUTH_INFO)"
proof (intro conjI)
  note kx = kex_correctD [OF K]
  show "test_key_exchange K cs ss" "test_auth_token K cs ss" test_auth_frame_size
    by (simp_all add: test_key_exchange_def test_auth_token_def test_auth_frame_size_def Let_def key_pair_generate_def
        derive_shared_key_def verify_auth_token_def generate_auth_token_def key_pair_from_bytes_def kx(1) [of cs ss]
        AUTH_FRAME_SIZE_def AUTH_RESPONSE_SIZE_def)
  show "test_ecdhe_session_key_match K ss cs es"
    by (simp add: test_ecdhe_session_key_match_def derive_from_eq [OF K] kx(1) [of cs es])
  show "test_client_handshake_roundtrip K ss cs es c2s s2c" by (rule handshake_roundtrip [OF assms])
  show "test_different_sessions_different_keys K ss draws \<longleftrightarrow>
      distinct (map (\<lambda>(c, e). kx_hkdf K (kx_dh K e (kx_public K c)) SESSION_INFO) draws)"
    by (rule different_sessions [OF K])
  show "test_invalid_auth_token_rejected K ss cs es \<longleftrightarrow>
      kx_hkdf K (kx_dh K ss (kx_public K cs) @ replicate 32 0) AUTH_INFO \<noteq> replicate 32 0xFF"
    by (simp add: test_invalid_auth_token_rejected_def server_derive_session_def Let_def key_pair_generate_def auth_token_for_def)
qed (simp_all add: test_session_key_differs_from_auth_token_def test_wrong_psk_rejected_def derive_from_eq [OF K]
      client_token_def key_pair_generate_def kex_correctD(1) [OF K, of cs ss])

theorem handshake_unit_tests_outcomes_witness:
  "test_client_handshake_roundtrip toy_kex [6] [7] [5] (replicate 8 1) (replicate 8 2) \<and> test_wrong_psk_rejected toy_kex [6] [7] [5]"
proof -
  have "kx_hkdf toy_kex (kx_dh toy_kex [6] (kx_public toy_kex [7]) @ replicate 32 1) AUTH_INFO
      \<noteq> kx_hkdf toy_kex (kx_dh toy_kex [6] (kx_public toy_kex [7]) @ replicate 32 2) AUTH_INFO"
    by code_simp
  with handshake_unit_tests_outcomes [OF toy_kex_correct, of "replicate 8 1" "replicate 8 2" "[7]" "[6]" "[5]" "[]"]
  show ?thesis by simp
qed

text \<open>
  The test of the prefixes passes exactly when the generator's next two blocks of eight bytes differ somewhere.
\<close>

theorem prefixes_unit_test_outcome:
  "test_prefixes_are_random R \<longleftrightarrow> (\<exists>i < 8. rng_source R (rng_pos R + i) \<noteq> rng_source R (rng_pos R + 8 + i))"
  by (auto simp: test_prefixes_are_random_def fill_bytes_def PREFIX_SIZE_def list_eq_iff_nth_eq)

end
