(* ===== verification/Tests_Endpoint.thy ===== *)
theory Tests_Endpoint
  imports Endpoint
begin

text \<open>
  The unit tests of \<open>transport-core/src/endpoint.rs\<close> replayed on the model. The deserializer is a
  parameter; what the tests rely on is its reading of the documents they pass to it, listed in
  \<open>readable_documents\<close> and \<open>unreadable_documents\<close>.
\<close>

section \<open>Fixtures\<close>

definition valid_key :: string where
  "valid_key = replicate 64 CHR ''a''"

definition make_endpoint_json :: "string \<Rightarrow> nat \<Rightarrow> string \<Rightarrow> string \<Rightarrow> string \<Rightarrow> string" where
  "make_endpoint_json h p s pub k =
     ''{\"host\":\"'' @ h @ ''\",\"port\":'' @ show_nat p @ '',\"sni\":\"'' @ s
     @ ''\",\"server_pub\":\"'' @ pub @ ''\",\"psk\":\"'' @ k @ ''\"}''"

definition gw_host :: "nat \<Rightarrow> string" where
  "gw_host i = ''gw'' @ show_nat i @ ''.example.com''"

fun join :: "string list \<Rightarrow> string" where
  "join [] = []"
| "join [x] = x"
| "join (x # xs) = x @ '','' @ join xs"

definition make_json :: "nat \<Rightarrow> string" where
  "make_json n = ''['' @ join (map (\<lambda>i. make_endpoint_json (gw_host i) 443 ''example.com'' valid_key valid_key) [0..<n]) @ '']''"

definition array_of_one :: "string \<Rightarrow> string" where
  "array_of_one item = ''['' @ item @ '']''"

definition array_of_two :: "string \<Rightarrow> string \<Rightarrow> string" where
  "array_of_two a b = ''['' @ a @ '','' @ b @ '']''"

definition bad_hex_json :: string where
  "bad_hex_json = ''[{\"host\":\"h\",\"port\":1,\"sni\":\"s\",\"server_pub\":\"abcd\",\"psk\":\"aaaa\"}]''"

definition missing_field_json :: string where
  "missing_field_json = ''[{\"host\":\"h\",\"port\":1,\"sni\":\"s\",\"psk\":\"aaaa\"}]''"

definition big_port_json :: string where
  "big_port_json = ''[{\"host\":\"h\",\"port\":70000,\"sni\":\"s\",\"server_pub\":\"aa\",\"psk\":\"bb\"}]''"

definition extra_field_json :: string where
  "extra_field_json = ''[{\"host\":\"h\",\"port\":1,\"sni\":\"s\",\"server_pub\":\"aa\",\"psk\":\"bb\",\"extra\":\"oo'' @ ''ps\"}]''"

definition object_json :: string where
  "object_json = make_endpoint_json ''h'' 1 ''s'' valid_key valid_key"

section \<open>What the deserializer is relied on for\<close>

definition cfg :: "string \<Rightarrow> nat \<Rightarrow> string \<Rightarrow> string \<Rightarrow> string \<Rightarrow> endpoint_config" where
  "cfg h p s pub k = \<lparr>host = bytes_of h, port = of_nat p, sni = bytes_of s, server_pub = bytes_of pub, psk = bytes_of k\<rparr>"

definition upper_key :: string where "upper_key = concat (replicate 32 ''AA'')"
definition z_key :: string where "z_key = replicate 64 CHR ''z''"
definition short_key :: string where "short_key = replicate 63 CHR ''a''"
definition long_key :: string where "long_key = replicate 65 CHR ''a''"

definition gw_list :: "nat \<Rightarrow> endpoint_config list" where
  "gw_list n = map (\<lambda>i. cfg (gw_host i) 443 ''example.com'' valid_key valid_key) [0..<n]"

section \<open>The tests\<close>

type_synonym deserializer = "bytes \<Rightarrow> string + endpoint_config list"

definition parsed :: "deserializer \<Rightarrow> string \<Rightarrow> endpoint_config_error + endpoint_config list" where
  "parsed from_json text = parse_endpoints from_json (bytes_of text)"

fun malformed :: "endpoint_config_error + endpoint_config list \<Rightarrow> bool" where
  "malformed (Inl (MalformedJson _)) \<longleftrightarrow> True"
| "malformed _ \<longleftrightarrow> False"

definition one_endpoint_json :: "string \<Rightarrow> nat \<Rightarrow> string \<Rightarrow> string \<Rightarrow> string \<Rightarrow> string" where
  "one_endpoint_json h p s pub k = array_of_one (make_endpoint_json h p s pub k)"

definition two_endpoint_json :: "nat \<Rightarrow> nat \<Rightarrow> string" where
  "two_endpoint_json p q =
     array_of_two (make_endpoint_json ''gw.example.com'' p ''s'' valid_key valid_key)
       (make_endpoint_json ''gw.example.com'' q ''s'' valid_key valid_key)"

definition valid_single_endpoint_parses :: "deserializer \<Rightarrow> bool" where
  "valid_single_endpoint_parses F \<longleftrightarrow>
     (case parsed F (make_json 1) of Inr r \<Rightarrow> length r = 1 \<and> port (r ! 0) = 443 | Inl e \<Rightarrow> False)"

definition parses_to_length :: "deserializer \<Rightarrow> nat \<Rightarrow> bool" where
  "parses_to_length F n \<longleftrightarrow> (case parsed F (make_json n) of Inr r \<Rightarrow> length r = n | Inl e \<Rightarrow> False)"

definition valid_multiple_endpoints_parses :: "deserializer \<Rightarrow> bool" where
  "valid_multiple_endpoints_parses F \<longleftrightarrow> parses_to_length F 5"

definition empty_list_is_error :: "deserializer \<Rightarrow> bool" where
  "empty_list_is_error F \<longleftrightarrow> parsed F ''[]'' = Inl EmptyList"

definition too_many_endpoints_is_error :: "deserializer \<Rightarrow> bool" where
  "too_many_endpoints_is_error F \<longleftrightarrow> parsed F (make_json 17) = Inl (TooManyEndpoints 17)"

definition exactly_max_endpoints_ok :: "deserializer \<Rightarrow> bool" where
  "exactly_max_endpoints_ok F \<longleftrightarrow> parses_to_length F 16"

definition bad_hex_length_is_error :: "deserializer \<Rightarrow> bool" where
  "bad_hex_length_is_error F \<longleftrightarrow> parsed F bad_hex_json = Inl (WrongHexLength ''server_pub'' 0 64 4)"

definition non_hex_chars_is_error :: "deserializer \<Rightarrow> bool" where
  "non_hex_chars_is_error F \<longleftrightarrow>
     parsed F (one_endpoint_json ''h'' 1 ''s'' z_key valid_key) = Inl (InvalidHex ''server_pub'' 0)"

definition malformed_json_is_error :: "deserializer \<Rightarrow> bool" where
  "malformed_json_is_error F \<longleftrightarrow> malformed (parsed F ''{not valid json'')"

definition missing_field_is_malformed_json :: "deserializer \<Rightarrow> bool" where
  "missing_field_is_malformed_json F \<longleftrightarrow> malformed (parsed F missing_field_json)"

definition zero_port_is_error :: "deserializer \<Rightarrow> bool" where
  "zero_port_is_error F \<longleftrightarrow> parsed F (one_endpoint_json ''h'' 0 ''s'' valid_key valid_key) = Inl (ZeroPort 0)"

definition port_over_u16_range_is_malformed_json :: "deserializer \<Rightarrow> bool" where
  "port_over_u16_range_is_malformed_json F \<longleftrightarrow> malformed (parsed F big_port_json)"

definition empty_host_is_error :: "deserializer \<Rightarrow> bool" where
  "empty_host_is_error F \<longleftrightarrow> parsed F (one_endpoint_json [] 443 ''s'' valid_key valid_key) = Inl (EmptyHost 0)"

definition empty_sni_is_error :: "deserializer \<Rightarrow> bool" where
  "empty_sni_is_error F \<longleftrightarrow> parsed F (one_endpoint_json ''h'' 443 [] valid_key valid_key) = Inl (EmptySni 0)"

definition uppercase_hex_is_accepted :: "deserializer \<Rightarrow> bool" where
  "uppercase_hex_is_accepted F \<longleftrightarrow> \<not> isl (parsed F (one_endpoint_json ''h'' 443 ''s'' upper_key upper_key))"

definition unknown_field_is_rejected :: "deserializer \<Rightarrow> bool" where
  "unknown_field_is_rejected F \<longleftrightarrow> malformed (parsed F extra_field_json)"

definition duplicate_endpoints_is_error :: "deserializer \<Rightarrow> bool" where
  "duplicate_endpoints_is_error F \<longleftrightarrow>
     (case parsed F (two_endpoint_json 443 443) of Inl (DuplicateEndpoint i _ _) \<Rightarrow> i = 1 | _ \<Rightarrow> False)"

definition same_host_different_port_is_not_duplicate :: "deserializer \<Rightarrow> bool" where
  "same_host_different_port_is_not_duplicate F \<longleftrightarrow> \<not> isl (parsed F (two_endpoint_json 443 8443))"

definition hex_length_boundaries_63_and_65 :: "deserializer \<Rightarrow> bool" where
  "hex_length_boundaries_63_and_65 F \<longleftrightarrow>
     parsed F (one_endpoint_json ''h'' 1 ''s'' short_key valid_key) = Inl (WrongHexLength ''server_pub'' 0 64 63)
     \<and> parsed F (one_endpoint_json ''h'' 1 ''s'' long_key valid_key) = Inl (WrongHexLength ''server_pub'' 0 64 65)"

definition json_object_instead_of_array_is_malformed :: "deserializer \<Rightarrow> bool" where
  "json_object_instead_of_array_is_malformed F \<longleftrightarrow> malformed (parsed F object_json)"

definition test_decode_hex32_roundtrip :: bool where
  "test_decode_hex32_roundtrip \<longleftrightarrow>
     (case decode_hex32 (bytes_of (concat (replicate 31 ''00'') @ ''ff'')) of
        Ret (Some decoded) \<Rightarrow> decoded ! 31 = 0xFF \<and> decoded ! 0 = 0
      | _ \<Rightarrow> False)"

definition decode_hex32_wrong_length_is_none :: bool where
  "decode_hex32_wrong_length_is_none \<longleftrightarrow>
     decode_hex32 (bytes_of short_key) = Ret None \<and> decode_hex32 (bytes_of long_key) = Ret None"

definition decode_hex32_invalid_char_is_none :: bool where
  "decode_hex32_invalid_char_is_none \<longleftrightarrow> decode_hex32 (bytes_of z_key) = Ret None"

section \<open>Outcomes\<close>

text \<open>Validation depends on the deserializer through its reading only.\<close>

definition validated :: "endpoint_config list \<Rightarrow> endpoint_config_error + endpoint_config list" where
  "validated eps = parse_endpoints (\<lambda>_. Inr eps) []"

lemma parsed_validated: "F (bytes_of t) = Inr eps \<Longrightarrow> parsed F t = validated eps"
  by (simp add: parsed_def validated_def parse_endpoints_def)

lemma parsed_malformed: "isl (F (bytes_of t)) \<Longrightarrow> malformed (parsed F t)"
  by (cases "F (bytes_of t)") (simp_all add: parsed_def parse_endpoints_def)

lemma gw_hosts: "distinct (map gw_host [0..<16]) \<and> list_all (\<lambda>i. str_trim (bytes_of (gw_host i)) \<noteq> []) [0..<16]"
  by code_simp

lemma valid_fields: "str_trim (bytes_of ''example.com'') \<noteq> []" "hex_key (bytes_of valid_key)"
  by code_simp+

lemma validated_gw:
  assumes "0 < n" and "n \<le> 16"
  shows "validated (gw_list n) = Inr (gw_list n)"
proof -
  have sub: "set [0..<n] \<subseteq> set [0..<16]" using assms(2) by simp
  have "inj_on gw_host (set [0..<n])"
    using gw_hosts inj_on_subset [OF _ sub] unfolding distinct_map by blast
  then have "distinct (map (\<lambda>ep. (host ep, port ep)) (gw_list n))"
    by (simp add: gw_list_def cfg_def distinct_map inj_on_def)
  moreover have "list_all endpoint_ok (gw_list n)"
    using gw_hosts valid_fields assms(2) by (simp add: gw_list_def cfg_def endpoint_ok_def list_all_iff)
  ultimately show ?thesis
    using assms by (simp add: validated_def parse_endpoints_Inr endpoints_ok_def gw_list_def)
qed

lemma validated_lists: "validated (gw_list 17) = Inl (TooManyEndpoints 17)" "validated [] = Inl EmptyList"
  by (simp_all add: validated_def parse_endpoints_def gw_list_def MAX_ENDPOINTS_def)

lemma validated_singles:
  "validated [cfg ''h'' 1 ''s'' ''abcd'' ''aaaa''] = Inl (WrongHexLength ''server_pub'' 0 64 4)"
  "validated [cfg ''h'' 1 ''s'' z_key valid_key] = Inl (InvalidHex ''server_pub'' 0)"
  "validated [cfg ''h'' 0 ''s'' valid_key valid_key] = Inl (ZeroPort 0)"
  "validated [cfg [] 443 ''s'' valid_key valid_key] = Inl (EmptyHost 0)"
  "validated [cfg ''h'' 443 [] valid_key valid_key] = Inl (EmptySni 0)"
  "validated [cfg ''h'' 443 ''s'' upper_key upper_key] = Inr [cfg ''h'' 443 ''s'' upper_key upper_key]"
  "validated [cfg ''h'' 1 ''s'' short_key valid_key] = Inl (WrongHexLength ''server_pub'' 0 64 63)"
  "validated [cfg ''h'' 1 ''s'' long_key valid_key] = Inl (WrongHexLength ''server_pub'' 0 64 65)"
  by code_simp+

definition gw_pair :: "nat \<Rightarrow> nat \<Rightarrow> endpoint_config list" where
  "gw_pair p q = [cfg ''gw.example.com'' p ''s'' valid_key valid_key, cfg ''gw.example.com'' q ''s'' valid_key valid_key]"

lemma validated_pairs:
  "case validated (gw_pair 443 443) of Inl (DuplicateEndpoint i _ _) \<Rightarrow> i = 1 | _ \<Rightarrow> False"
  "\<not> isl (validated (gw_pair 443 8443))"
  by code_simp+

lemma decode_tests: "test_decode_hex32_roundtrip \<and> decode_hex32_wrong_length_is_none \<and> decode_hex32_invalid_char_is_none"
  by code_simp

text \<open>
  Every unit test of the endpoint parser passes with a deserializer that reads the document of
  the test as serde does: the tests that expect endpoints or a validation error when the document
  is read as the endpoints it lists, the tests that expect malformed JSON when the document is
  refused (a missing or unknown field, a port above 65535, an object for an array).
\<close>

theorem endpoint_unit_tests_pass:
  "(F (bytes_of (make_json 1)) = Inr (gw_list 1) \<longrightarrow> valid_single_endpoint_parses F)
   \<and> (F (bytes_of (make_json 5)) = Inr (gw_list 5) \<longrightarrow> valid_multiple_endpoints_parses F)
   \<and> (F (bytes_of ''[]'') = Inr [] \<longrightarrow> empty_list_is_error F)
   \<and> (F (bytes_of (make_json 17)) = Inr (gw_list 17) \<longrightarrow> too_many_endpoints_is_error F)
   \<and> (F (bytes_of (make_json 16)) = Inr (gw_list 16) \<longrightarrow> exactly_max_endpoints_ok F)
   \<and> (F (bytes_of bad_hex_json) = Inr [cfg ''h'' 1 ''s'' ''abcd'' ''aaaa''] \<longrightarrow> bad_hex_length_is_error F)
   \<and> (F (bytes_of (one_endpoint_json ''h'' 1 ''s'' z_key valid_key)) = Inr [cfg ''h'' 1 ''s'' z_key valid_key]
        \<longrightarrow> non_hex_chars_is_error F)
   \<and> (isl (F (bytes_of ''{not valid json'')) \<longrightarrow> malformed_json_is_error F)
   \<and> (isl (F (bytes_of missing_field_json)) \<longrightarrow> missing_field_is_malformed_json F)
   \<and> (F (bytes_of (one_endpoint_json ''h'' 0 ''s'' valid_key valid_key)) = Inr [cfg ''h'' 0 ''s'' valid_key valid_key]
        \<longrightarrow> zero_port_is_error F)
   \<and> (isl (F (bytes_of big_port_json)) \<longrightarrow> port_over_u16_range_is_malformed_json F)
   \<and> (F (bytes_of (one_endpoint_json [] 443 ''s'' valid_key valid_key)) = Inr [cfg [] 443 ''s'' valid_key valid_key]
        \<longrightarrow> empty_host_is_error F)
   \<and> (F (bytes_of (one_endpoint_json ''h'' 443 [] valid_key valid_key)) = Inr [cfg ''h'' 443 [] valid_key valid_key]
        \<longrightarrow> empty_sni_is_error F)
   \<and> (F (bytes_of (one_endpoint_json ''h'' 443 ''s'' upper_key upper_key)) = Inr [cfg ''h'' 443 ''s'' upper_key upper_key]
        \<longrightarrow> uppercase_hex_is_accepted F)
   \<and> (isl (F (bytes_of extra_field_json)) \<longrightarrow> unknown_field_is_rejected F)
   \<and> (F (bytes_of (two_endpoint_json 443 443)) = Inr (gw_pair 443 443) \<longrightarrow> duplicate_endpoints_is_error F)
   \<and> (F (bytes_of (two_endpoint_json 443 8443)) = Inr (gw_pair 443 8443) \<longrightarrow> same_host_different_port_is_not_duplicate F)
   \<and> (F (bytes_of (one_endpoint_json ''h'' 1 ''s'' short_key valid_key)) = Inr [cfg ''h'' 1 ''s'' short_key valid_key]
      \<and> F (bytes_of (one_endpoint_json ''h'' 1 ''s'' long_key valid_key)) = Inr [cfg ''h'' 1 ''s'' long_key valid_key]
        \<longrightarrow> hex_length_boundaries_63_and_65 F)
   \<and> (isl (F (bytes_of object_json)) \<longrightarrow> json_object_instead_of_array_is_malformed F)
   \<and> test_decode_hex32_roundtrip \<and> decode_hex32_wrong_length_is_none \<and> decode_hex32_invalid_char_is_none"
proof (intro conjI impI; (elim conjE)?)
  assume "F (bytes_of (make_json 1)) = Inr (gw_list 1)"
  from parsed_validated [of F, OF this] validated_gw [of 1] show "valid_single_endpoint_parses F"
    by (simp add: valid_single_endpoint_parses_def gw_list_def cfg_def)
next
  assume "F (bytes_of (make_json 5)) = Inr (gw_list 5)"
  from parsed_validated [of F, OF this] validated_gw [of 5] show "valid_multiple_endpoints_parses F"
    by (simp add: valid_multiple_endpoints_parses_def parses_to_length_def gw_list_def)
next
  assume "F (bytes_of (make_json 16)) = Inr (gw_list 16)"
  from parsed_validated [of F, OF this] validated_gw [of 16] show "exactly_max_endpoints_ok F"
    by (simp add: exactly_max_endpoints_ok_def parses_to_length_def gw_list_def)
next
  assume "F (bytes_of (two_endpoint_json 443 443)) = Inr (gw_pair 443 443)"
  from parsed_validated [of F, OF this] validated_pairs(1) show "duplicate_endpoints_is_error F"
    by (simp only: duplicate_endpoints_is_error_def)
qed (simp_all add: parsed_validated parsed_malformed validated_lists validated_singles [unfolded One_nat_def] validated_pairs decode_tests
      empty_list_is_error_def too_many_endpoints_is_error_def bad_hex_length_is_error_def non_hex_chars_is_error_def
      malformed_json_is_error_def missing_field_is_malformed_json_def zero_port_is_error_def
      port_over_u16_range_is_malformed_json_def empty_host_is_error_def empty_sni_is_error_def
      uppercase_hex_is_accepted_def unknown_field_is_rejected_def same_host_different_port_is_not_duplicate_def
      hex_length_boundaries_63_and_65_def json_object_instead_of_array_is_malformed_def)

theorem endpoint_unit_tests_pass_witness:
  "exactly_max_endpoints_ok (\<lambda>_. Inr (gw_list 16)) \<and> too_many_endpoints_is_error (\<lambda>_. Inr (gw_list 17))
   \<and> duplicate_endpoints_is_error (\<lambda>_. Inr (gw_pair 443 443)) \<and> unknown_field_is_rejected (\<lambda>_. Inl ''unknown field'')"
  using endpoint_unit_tests_pass [of "\<lambda>_. Inr (gw_list 16)"] endpoint_unit_tests_pass [of "\<lambda>_. Inr (gw_list 17)"]
    endpoint_unit_tests_pass [of "\<lambda>_. Inr (gw_pair 443 443)"] endpoint_unit_tests_pass [of "\<lambda>_. Inl ''unknown field''"]
  by simp

end
