(* ===== verification/Tests_Failover.thy ===== *)
theory Tests_Failover
  imports Failover
begin

text \<open>
  The unit tests of \<open>transport-core/src/failover.rs\<close> replayed on the model, with the test clock
  \<open>FakeClock\<close>. A test on the system clock is run at one instant \<open>t\<close> and one wall-clock time \<open>w\<close>,
  which are parameters; the concurrent test is run on every sequence of reports, so on every
  interleaving of the threads.
\<close>

section \<open>Clock and fixtures\<close>

record fake_clock =
  fc_current :: instant

definition fake_clock_new :: "instant \<Rightarrow> fake_clock" where
  "fake_clock_new t = \<lparr>fc_current = t\<rparr>"

definition advance :: "fake_clock \<Rightarrow> nat \<Rightarrow> fake_clock" where
  "advance c d = c\<lparr>fc_current := fc_current c + d\<rparr>"

definition ep :: "char \<Rightarrow> endpoint_config" where
  "ep n = \<lparr>host = bytes_of (''gw'' @ [n] @ ''.example.com''), port = 443, sni = bytes_of ''cloudflare.com'',
     server_pub = bytes_of (concat (replicate 32 ''aa'')), psk = bytes_of (concat (replicate 32 ''bb''))\<rparr>"

definition three_endpoints :: "endpoint_config list" where
  "three_endpoints = [ep CHR ''1'', ep CHR ''2'', ep CHR ''3'']"

text \<open>Repeated reports, and what the assertions look at; a panic fails every assertion.\<close>

definition failures :: "nat \<Rightarrow> instant \<Rightarrow> int \<Rightarrow> failover_manager outcome \<Rightarrow> failover_manager outcome" where
  "failures n t w r = foldl failover_exec r (replicate n (ReportFailure t w))"

definition success :: "failover_manager outcome \<Rightarrow> failover_manager outcome" where
  "success r = failover_exec r ReportSuccess"

definition holds :: "(failover_manager \<Rightarrow> bool) \<Rightarrow> failover_manager outcome \<Rightarrow> bool" where
  "holds P r \<longleftrightarrow> (case r of Ret fo \<Rightarrow> P fo | Panic \<Rightarrow> False)"

definition at_index :: "nat \<Rightarrow> failover_manager outcome \<Rightarrow> bool" where
  "at_index i r \<longleftrightarrow> holds (\<lambda>fo. current_idx fo = i) r"

definition count_is :: "u32 \<Rightarrow> failover_manager outcome \<Rightarrow> bool" where
  "count_is n r \<longleftrightarrow> holds (\<lambda>fo. failure_count fo = Ret n) r"

definition cooling :: "char \<Rightarrow> instant \<Rightarrow> bool \<Rightarrow> failover_manager outcome \<Rightarrow> bool" where
  "cooling n t b r \<longleftrightarrow> holds (\<lambda>fo. is_in_cooldown fo (bytes_of (''gw'' @ [n] @ ''.example.com'')) 443 t = Ret b) r"

abbreviation mgr3 :: "failover_manager outcome" where
  "mgr3 \<equiv> Ret (failover_new three_endpoints)"

abbreviation mgr2 :: "failover_manager outcome" where
  "mgr2 \<equiv> Ret (failover_new [ep CHR ''1'', ep CHR ''2''])"

abbreviation threshold :: nat where
  "threshold \<equiv> unat FAILURE_THRESHOLD"

section \<open>The tests\<close>

definition current_endpoint_initial :: bool where
  "current_endpoint_initial \<longleftrightarrow>
     holds (\<lambda>fo. (case current_endpoint fo of Ret e \<Rightarrow> host e = bytes_of ''gw1.example.com'' | Panic \<Rightarrow> False)) mgr3
     \<and> at_index 0 mgr3"

definition no_switch_below_threshold :: "instant \<Rightarrow> int \<Rightarrow> bool" where
  "no_switch_below_threshold t w \<longleftrightarrow> list_all (\<lambda>n. at_index 0 (failures n t w mgr3)) [1..<threshold]"

definition switch_at_threshold :: "instant \<Rightarrow> int \<Rightarrow> bool" where
  "switch_at_threshold t w \<longleftrightarrow> at_index 1 (failures threshold t w mgr3)"

definition per_endpoint_cooldown_not_global :: "instant \<Rightarrow> int \<Rightarrow> bool" where
  "per_endpoint_cooldown_not_global t w \<longleftrightarrow>
     (let m = failures threshold t w mgr3 in
      at_index 1 m \<and> cooling CHR ''1'' t True m \<and> cooling CHR ''3'' t False m)"

definition report_success_resets_failure_count :: "instant \<Rightarrow> int \<Rightarrow> bool" where
  "report_success_resets_failure_count t w \<longleftrightarrow>
     (let m = failures 2 t w mgr3 in count_is 2 m \<and> count_is 0 (success m))"

definition all_in_cooldown_stays_put :: "instant \<Rightarrow> int \<Rightarrow> bool" where
  "all_in_cooldown_stays_put t w \<longleftrightarrow>
     (let m = failures threshold t w mgr2; m' = failures threshold t w m in
      at_index 1 m \<and> at_index 1 m' \<and> holds (\<lambda>fo. (case try_switch fo t w of Ret (_, b) \<Rightarrow> \<not> b | Panic \<Rightarrow> False)) m')"

definition len_reports_correctly :: bool where
  "len_reports_correctly \<longleftrightarrow> holds (\<lambda>fo. failover_len fo = 3) mgr3"

definition counter_resets_on_switch :: "instant \<Rightarrow> int \<Rightarrow> bool" where
  "counter_resets_on_switch t w \<longleftrightarrow>
     (let m = failures threshold t w mgr3;
          clock = fake_clock_new t;
          m0 = failures threshold (fc_current clock) w mgr3;
          clock = advance clock (FAILOVER_MIN_INTERVAL + secs 1);
          m1 = failures threshold (fc_current clock) w m0;
          m2 = failures threshold (fc_current clock) w m1;
          m3 = failures 1 (fc_current clock) w m2
      in at_index 1 m \<and> at_index 1 m0 \<and> at_index 2 m1 \<and> at_index 0 m2 \<and> at_index 0 m3)"

definition cooldown_expires_after_fake_clock_advance :: "instant \<Rightarrow> int \<Rightarrow> bool" where
  "cooldown_expires_after_fake_clock_advance t w \<longleftrightarrow>
     (let clock = fake_clock_new t;
          m = failures threshold (fc_current clock) w mgr2;
          clock1 = advance clock (FAILOVER_MIN_INTERVAL - secs 1);
          clock2 = advance clock1 (secs 2)
      in at_index 1 m \<and> cooling CHR ''1'' (fc_current clock) True m \<and> cooling CHR ''1'' (fc_current clock1) True m
         \<and> cooling CHR ''1'' (fc_current clock2) False m)"

definition report_success_clears_cooldown :: "instant \<Rightarrow> int \<Rightarrow> bool" where
  "report_success_clears_cooldown t w \<longleftrightarrow>
     (let m = failures 2 t w mgr3 in cooling CHR ''1'' t True m \<and> cooling CHR ''1'' t False (success m))"

definition switch_order_is_round_robin :: "instant \<Rightarrow> int \<Rightarrow> bool" where
  "switch_order_is_round_robin t w \<longleftrightarrow>
     (case try_switch (failover_new three_endpoints) t w of
        Ret (m, True) \<Rightarrow> current_idx m = 1 \<and>
          (case try_switch m t w of
             Ret (m, True) \<Rightarrow> current_idx m = 2 \<and>
               (case try_switch m t w of Ret (m, True) \<Rightarrow> current_idx m = 0 | _ \<Rightarrow> False)
           | _ \<Rightarrow> False)
      | _ \<Rightarrow> False)"

definition concurrent_reports_consistent_index :: "failover_op list \<Rightarrow> bool" where
  "concurrent_reports_consistent_index xs \<longleftrightarrow> holds (\<lambda>fo. current_idx fo < 3) (foldl failover_exec mgr3 xs)"

definition last_switch_zero_before_any_switch :: bool where
  "last_switch_zero_before_any_switch \<longleftrightarrow> holds (\<lambda>fo. last_switch_unix_ms fo = 0) mgr3"

definition last_switch_nonzero_after_switch :: "instant \<Rightarrow> int \<Rightarrow> bool" where
  "last_switch_nonzero_after_switch t w \<longleftrightarrow> holds (\<lambda>fo. last_switch_unix_ms fo > 0) (failures threshold t w mgr3)"

definition failure_count_tracks_current_endpoint_only :: "instant \<Rightarrow> int \<Rightarrow> bool" where
  "failure_count_tracks_current_endpoint_only t w \<longleftrightarrow>
     (let m = failures 1 t w mgr3 in count_is 1 m \<and> count_is 0 (failures threshold t w m))"

lemma threshold_3 [simp]: "threshold = 3"
  by (simp add: FAILURE_THRESHOLD_def)

lemma threshold_compare [simp]:
  "\<not> FAILURE_THRESHOLD \<le> 1" "\<not> FAILURE_THRESHOLD \<le> 2" "FAILURE_THRESHOLD \<le> 3"
  by (simp_all add: FAILURE_THRESHOLD_def word_le_nat_alt)

lemma scan_steps [simp]:
  "[Suc 0..<Suc (Suc (Suc (Suc 0)))] = [1, 2, 3]" "[Suc 0..<Suc (Suc (Suc 0))] = [1, 2]"
  by (simp_all add: upt_rec)

lemma failures_unfold [simp]:
  "failures (Suc 0) t w r = failover_exec r (ReportFailure t w)"
  "failures 2 t w r = failover_exec (failover_exec r (ReportFailure t w)) (ReportFailure t w)"
  "failures (Suc (Suc 0)) t w r = failures 2 t w r"
  "failures 3 t w r = failover_exec (failures 2 t w r) (ReportFailure t w)"
  by (simp_all add: failures_def numeral_3_eq_3 numeral_2_eq_2)

lemmas run_simps = success_def holds_def at_index_def count_is_def
  failover_new_def endpoint_state_fresh_def report_failure_def report_success_def try_switch_def try_switch_locked_def
  in_cooldown_def FAILOVER_MIN_INTERVAL_def secs_def failure_count_def Let_def three_endpoints_def

lemma cooling_three:
  "length (states fo) = 3 \<Longrightarrow> endpoints fo = three_endpoints \<Longrightarrow>
     cooling CHR ''1'' t b (Ret fo) \<longleftrightarrow> in_cooldown (states fo ! 0) t = b"
  "length (states fo) = 3 \<Longrightarrow> endpoints fo = three_endpoints \<Longrightarrow>
     cooling CHR ''3'' t b (Ret fo) \<longleftrightarrow> in_cooldown (states fo ! 2) t = b"
  by (simp_all add: cooling_def holds_def is_in_cooldown_def three_endpoints_def ep_def upt_rec numeral_2_eq_2)

lemma cooling_two:
  "length (states fo) = 2 \<Longrightarrow> endpoints fo = [ep CHR ''1'', ep CHR ''2''] \<Longrightarrow>
     cooling CHR ''1'' t b (Ret fo) \<longleftrightarrow> in_cooldown (states fo ! 0) t = b"
  by (simp add: cooling_def holds_def is_in_cooldown_def ep_def upt_rec)

lemma after_threshold:
  "failures 3 t w mgr3 = Ret \<lparr>endpoints = three_endpoints, current_idx = 1,
     states = [\<lparr>consecutive_failures = 0, last_failure = Some t\<rparr>, endpoint_state_fresh, endpoint_state_fresh],
     last_switch_system_time = Some w\<rparr>"
  "failures 3 t w mgr2 = Ret \<lparr>endpoints = [ep CHR ''1'', ep CHR ''2''], current_idx = 1,
     states = [\<lparr>consecutive_failures = 0, last_failure = Some t\<rparr>, endpoint_state_fresh],
     last_switch_system_time = Some w\<rparr>"
  by (simp_all add: run_simps)

lemma after_two:
  "failures 2 t w mgr3 = Ret \<lparr>endpoints = three_endpoints, current_idx = 0,
     states = [\<lparr>consecutive_failures = 2, last_failure = Some t\<rparr>, endpoint_state_fresh, endpoint_state_fresh],
     last_switch_system_time = None\<rparr>"
  by (simp add: run_simps)

lemma threshold_tests: "switch_at_threshold t w" "no_switch_below_threshold t w" "per_endpoint_cooldown_not_global t w"
  by (simp_all add: switch_at_threshold_def no_switch_below_threshold_def per_endpoint_cooldown_not_global_def after_threshold
      cooling_three upt_rec del: failures_unfold(4))
    (simp_all add: run_simps)

lemma success_tests: "report_success_resets_failure_count t w" "report_success_clears_cooldown t w"
  by (simp_all add: report_success_resets_failure_count_def report_success_clears_cooldown_def after_two
      del: failures_unfold)
    (simp_all add: run_simps cooling_three)

lemma fake_clock_tests: "counter_resets_on_switch t w" "cooldown_expires_after_fake_clock_advance t w"
proof -
  define t1 where "t1 = t + (FAILOVER_MIN_INTERVAL + secs 1)"
  have m1: "failures 3 t1 w (failures 3 t w mgr3) = Ret \<lparr>endpoints = three_endpoints, current_idx = 2,
      states = [\<lparr>consecutive_failures = 0, last_failure = Some t\<rparr>, \<lparr>consecutive_failures = 0, last_failure = Some t1\<rparr>,
        endpoint_state_fresh], last_switch_system_time = Some w\<rparr>"
    unfolding after_threshold by (simp add: run_simps)
  have m2: "failures 3 t1 w (failures 3 t1 w (failures 3 t w mgr3)) = Ret \<lparr>endpoints = three_endpoints, current_idx = 0,
      states = [\<lparr>consecutive_failures = 0, last_failure = Some t\<rparr>, \<lparr>consecutive_failures = 0, last_failure = Some t1\<rparr>,
        \<lparr>consecutive_failures = 0, last_failure = Some t1\<rparr>], last_switch_system_time = Some w\<rparr>"
    unfolding m1 by (simp add: run_simps t1_def)
  have "at_index 0 (failures (Suc 0) t1 w (failures 3 t1 w (failures 3 t1 w (failures 3 t w mgr3))))"
    unfolding m2 by (simp add: run_simps)
  moreover have "at_index 1 (failures 3 t w mgr3)" unfolding after_threshold by (simp add: at_index_def holds_def)
  moreover have "at_index 2 (failures 3 t1 w (failures 3 t w mgr3))" unfolding m1 by (simp add: at_index_def holds_def)
  moreover have "at_index 0 (failures 3 t1 w (failures 3 t1 w (failures 3 t w mgr3)))"
    unfolding m2 by (simp add: at_index_def holds_def)
  ultimately show "counter_resets_on_switch t w"
    unfolding counter_resets_on_switch_def Let_def fake_clock_new_def advance_def fake_clock.simps threshold_3 t1_def [symmetric]
    by (simp del: failures_unfold)
  show "cooldown_expires_after_fake_clock_advance t w"
    by (simp add: cooldown_expires_after_fake_clock_advance_def Let_def fake_clock_new_def advance_def after_threshold
        cooling_two at_index_def holds_def in_cooldown_def FAILOVER_MIN_INTERVAL_def secs_def del: failures_unfold)
qed

lemma stay_tests: "all_in_cooldown_stays_put t w" "switch_order_is_round_robin t w"
  by (simp_all add: all_in_cooldown_stays_put_def switch_order_is_round_robin_def run_simps mod_Suc)

lemma concurrent_passes: "concurrent_reports_consistent_index xs"
proof -
  have "failover_good three_endpoints (foldl failover_exec mgr3 xs)"
    by (rule failover_run.run_inv) (simp add: failover_good_def failover_wf_def failover_new_def three_endpoints_def)
  then show ?thesis
    by (auto simp: concurrent_reports_consistent_index_def holds_def failover_good_def failover_wf_def three_endpoints_def
        split: outcome.splits)
qed

lemma last_switch_test:
  assumes "1000000 \<le> w" and "w div 1000000 < 2 ^ 64"
  shows "last_switch_nonzero_after_switch t w"
proof -
  have "(of_int (w div 1000000) :: u64) \<noteq> 0"
  proof
    assume "(of_int (w div 1000000) :: u64) = 0"
    then have "uint (of_int (w div 1000000) :: u64) = 0" by simp
    moreover have "1 \<le> w div 1000000" using assms(1) by simp
    ultimately show False using assms by (simp add: uint_word_of_int)
  qed
  then show ?thesis using assms(1)
    by (simp add: last_switch_nonzero_after_switch_def after_threshold holds_def last_switch_unix_ms_def word_gt_0
        del: failures_unfold)
qed

section \<open>Properties\<close>

text \<open>
  The unit tests of the failover manager pass on the model at every instant, on every interleaving of
  the concurrent reports, and with a wall clock between one millisecond after the epoch and the end
  of the 64-bit range; all but one. The test \<open>failure_count_tracks_current_endpoint_only\<close> always
  fails: it reports four failures, the third of which moves the manager, so the fourth is counted on
  the new endpoint, while the test expects a count of zero.
\<close>

theorem failover_unit_tests_outcomes:
  assumes "1000000 \<le> w" and "w div 1000000 < 2 ^ 64"
  shows "current_endpoint_initial \<and> no_switch_below_threshold t w \<and> switch_at_threshold t w
    \<and> per_endpoint_cooldown_not_global t w \<and> report_success_resets_failure_count t w \<and> all_in_cooldown_stays_put t w
    \<and> len_reports_correctly \<and> counter_resets_on_switch t w \<and> cooldown_expires_after_fake_clock_advance t w
    \<and> report_success_clears_cooldown t w \<and> switch_order_is_round_robin t w \<and> concurrent_reports_consistent_index xs
    \<and> last_switch_zero_before_any_switch \<and> last_switch_nonzero_after_switch t w
    \<and> \<not> failure_count_tracks_current_endpoint_only t w"
proof -
  have "current_endpoint_initial" "len_reports_correctly" "last_switch_zero_before_any_switch"
    by (simp_all add: current_endpoint_initial_def len_reports_correctly_def last_switch_zero_before_any_switch_def
        holds_def at_index_def failover_new_def current_endpoint_def three_endpoints_def ep_def failover_len_def
        last_switch_unix_ms_def)
  moreover have "\<not> failure_count_tracks_current_endpoint_only t w"
    by (simp add: failure_count_tracks_current_endpoint_only_def run_simps)
  ultimately show ?thesis
    using threshold_tests success_tests fake_clock_tests stay_tests concurrent_passes last_switch_test [OF assms] by blast
qed

theorem failover_unit_tests_outcomes_witness:
  "switch_at_threshold 5 1700000000000000000 \<and> \<not> failure_count_tracks_current_endpoint_only 5 1700000000000000000"
  using failover_unit_tests_outcomes [of 1700000000000000000 5 "[]"] by simp

end
