(* ===== verification/Tests_Gateway.thy ===== *)
theory Tests_Gateway
  imports Gateway_Auth Gateway_Promo Gateway_Limits
begin

text \<open>
  The unit tests of \<open>gateway/src/auth.rs\<close>, \<open>gateway/src/promo.rs\<close> and of the address limiter in
  \<open>gateway/src/main.rs\<close> replayed on the model. The JWT library, HMAC, the hex codec and the
  calendar are parameters, and so are the instants at which the calls read a clock.
\<close>

section \<open>Authentication\<close>

definition jwt_test_manager :: auth_manager where
  "jwt_test_manager = auth_new ''test_secret_key_123'' (bytes_of ''test_hmac_key'')"

definition hmac_test_manager :: auth_manager where
  "hmac_test_manager = auth_new ''test_secret'' (bytes_of ''test_hmac_key'')"

definition test_jwt_generation_and_validation :: "jwt_lib \<Rightarrow> int \<Rightarrow> int \<Rightarrow> bool" where
  "test_jwt_generation_and_validation J now1 now2 \<longleftrightarrow>
     (case generate_token J now1 jwt_test_manager ''user123'' ''sub456'' ''pro'' (3 * 1024 * 1024) 30 of
        Ret (Inr token) \<Rightarrow>
          (case validate_token J now2 jwt_test_manager token of
             Inr c \<Rightarrow> user_id c = ''user123'' \<and> sub c = ''sub456'' \<and> tier c = ''pro''
                \<and> rate_limit_bps c = 3 * 1024 * 1024
           | Inl e \<Rightarrow> False)
      | _ \<Rightarrow> False)"

definition test_hmac_signature :: "(bytes \<Rightarrow> bytes \<Rightarrow> bytes) \<Rightarrow> bool" where
  "test_hmac_signature hmac \<longleftrightarrow>
     (case generate_hmac_signature hmac hmac_test_manager (bytes_of ''test data'') of
        Ret signature \<Rightarrow> verify_hmac_signature hmac hmac_test_manager (bytes_of ''test data'') signature = Ret True
      | Panic \<Rightarrow> False)"

text \<open>\<open>signature[0] ^= 0xFF\<close>, which panics on an empty signature.\<close>

definition flip_first :: "bytes \<Rightarrow> bytes outcome" where
  "flip_first bs = (case bs of [] \<Rightarrow> Panic | b # rest \<Rightarrow> Ret ((b XOR 0xFF) # rest))"

definition test_hmac_rejects_tampered :: "(bytes \<Rightarrow> bytes \<Rightarrow> bytes) \<Rightarrow> bool" where
  "test_hmac_rejects_tampered hmac \<longleftrightarrow>
     (case generate_hmac_signature hmac hmac_test_manager (bytes_of ''test data'') of
        Ret signature \<Rightarrow>
          (case flip_first signature of
             Ret forged \<Rightarrow> verify_hmac_signature hmac hmac_test_manager (bytes_of ''test data'') forged = Ret False
           | Panic \<Rightarrow> False)
      | Panic \<Rightarrow> False)"

definition test_key_rotation :: "(bytes \<Rightarrow> bytes \<Rightarrow> bytes) \<Rightarrow> bool" where
  "test_key_rotation hmac \<longleftrightarrow>
     (let manager = auth_new ''test_secret'' (bytes_of ''key1'');
          rotated = rotate_hmac_key manager (bytes_of ''key2'')
      in hmac_active_kid manager = 0 \<and> hmac_active_kid rotated = 1 \<and>
         (case generate_hmac_signature hmac rotated (bytes_of ''data'') of
            Ret signature \<Rightarrow> verify_hmac_signature hmac rotated (bytes_of ''data'') signature = Ret True
          | Panic \<Rightarrow> False))"

definition test_unified_error_message :: bool where
  "test_unified_error_message \<longleftrightarrow> client_message AuthFailure = ''ERR''
     \<and> client_message TokenExpired = ''ERR'' \<and> client_message InvalidSignature = ''ERR''"

section \<open>Promo codes\<close>

abbreviation PRO3M :: bytes where "PRO3M \<equiv> bytes_of ''PRO3M''"

definition promo_test_manager :: "int \<Rightarrow> promo_manager" where
  "promo_test_manager now = promo_new now (bytes_of ''test_key'')"

definition test_promo_validation :: "int \<Rightarrow> bool" where
  "test_promo_validation now \<longleftrightarrow>
     (case validate_code now (promo_test_manager now) PRO3M of
        Inr promo \<Rightarrow> pc_tier promo = bytes_of ''pro'' \<and> pc_months promo = 3
      | Inl e \<Rightarrow> False)"

text \<open>A test that goes on with the manager and the token of a first use.\<close>

definition with_used ::
  "promo_lib \<Rightarrow> int \<Rightarrow> string \<Rightarrow> (promo_manager \<Rightarrow> promo_token \<Rightarrow> bool) \<Rightarrow> bool" where
  "with_used L now user P \<longleftrightarrow>
     (case use_code L now now (promo_test_manager now) PRO3M (bytes_of user) of
        (m, Ret (Inr token)) \<Rightarrow> P m token
      | _ \<Rightarrow> False)"

definition test_promo_usage :: "promo_lib \<Rightarrow> int \<Rightarrow> bool" where
  "test_promo_usage L now \<longleftrightarrow> with_used L now ''user123'' (\<lambda>m token.
     pt_user_id token = bytes_of ''user123'' \<and> pt_tier token = bytes_of ''pro'' \<and> verify_token L now m token = Inr ())"

definition test_promo_rejects_tampered_signature :: "promo_lib \<Rightarrow> int \<Rightarrow> bool" where
  "test_promo_rejects_tampered_signature L now \<longleftrightarrow> with_used L now ''user456'' (\<lambda>m token.
     case lib_hex_decode L (pt_signature token) of
       None \<Rightarrow> False
     | Some sig_bytes \<Rightarrow>
         (case flip_first sig_bytes of
            Panic \<Rightarrow> False
          | Ret forged \<Rightarrow> verify_token L now m (token\<lparr>pt_signature := lib_hex_encode L forged\<rparr>) = Inl BadSignature))"

definition test_promo_expired_rejected :: "promo_lib \<Rightarrow> int \<Rightarrow> bool" where
  "test_promo_expired_rejected L now \<longleftrightarrow> with_used L now ''user789'' (\<lambda>m token.
     let expired = token\<lparr>pt_exp := now - 1\<rparr>;
         resigned = expired\<lparr>pt_signature := generate_signature L m expired\<rparr>
     in verify_token L now m resigned = Inl Expired)"

definition test_promo_constant_time_verification :: "promo_lib \<Rightarrow> int \<Rightarrow> bool" where
  "test_promo_constant_time_verification L now \<longleftrightarrow> with_used L now ''user_ct'' (\<lambda>m token.
     verify_token L now m token = Inr () \<and>
     verify_token L now m (token\<lparr>pt_signature := lib_hex_encode L (replicate 32 0)\<rparr>) \<noteq> Inr ())"

section \<open>Address limiter\<close>

text \<open>The flood of the test: 50000 checks, the \<open>i\<close>th of address \<open>1.0.0.(i mod 256)\<close> at the instant \<open>at i\<close>.\<close>

definition flood_address :: "nat \<Rightarrow> ip_addr" where
  "flood_address i = V4 (0x01000000 + of_nat (i mod 256))"

definition flood :: "(nat \<Rightarrow> nat) \<Rightarrow> nat \<Rightarrow> ip_table" where
  "flood at n = foldl ip_exec [] (map (\<lambda>i. IpCheck (at i) (flood_address i)) [0..<n])"

definition ip_rate_limiter_50000_ips_bounded :: "(nat \<Rightarrow> nat) \<Rightarrow> nat \<Rightarrow> bool" where
  "ip_rate_limiter_50000_ips_bounded at now \<longleftrightarrow> snd (ip_check now (V4 0x7F000001) (flood at 50000))"

fun ip_checks :: "ip_table \<Rightarrow> (nat \<times> ip_addr \<times> bool) list \<Rightarrow> bool" where
  "ip_checks conns [] \<longleftrightarrow> True"
| "ip_checks conns ((now, ip, answer) # cs) \<longleftrightarrow>
     (case ip_check now ip conns of (conns, ok) \<Rightarrow> ok = answer \<and> ip_checks conns cs)"

definition ip_rate_limiter_blocks_excess :: "nat list \<Rightarrow> nat \<Rightarrow> bool" where
  "ip_rate_limiter_blocks_excess ts now \<longleftrightarrow>
     ip_checks [] (map (\<lambda>t. (t, V4 0x08080808, True)) ts @ [(now, V4 0x08080808, False)])"

section \<open>Lemmas\<close>

lemma flip_first_Ret: "bs \<noteq> [] \<Longrightarrow> \<exists>cs. flip_first bs = Ret cs"
  by (cases bs) (simp_all add: flip_first_def)

lemma flip_first_differs: "flip_first bs = Ret cs \<Longrightarrow> cs \<noteq> bs \<and> length cs = length bs"
proof -
  have "(b :: u8) XOR 0xFF \<noteq> b" for b
  proof
    assume "b XOR 0xFF = b"
    then have "b XOR b XOR 0xFF = b XOR b" by simp
    then show False by (simp add: xor.assoc [symmetric])
  qed
  then show "flip_first bs = Ret cs \<Longrightarrow> cs \<noteq> bs \<and> length cs = length bs"
    by (auto simp: flip_first_def split: list.splits)
qed

lemma with_used_intro:
  assumes L: "promo_lib_correct L" and "\<bar>now + 86400 * 90\<bar> \<le> 8 * 10 ^ 12"
    and P: "\<And>m t. promo_hmac_key m = bytes_of ''test_key'' \<Longrightarrow> pt_user_id t = bytes_of user \<Longrightarrow> pt_tier t = bytes_of ''pro''
       \<Longrightarrow> pt_exp t = now + 86400 * 90 \<Longrightarrow> pt_signature t = generate_signature L m t
       \<Longrightarrow> signed_data t = PRO3M @ bytes_of '':'' @ bytes_of user @ bytes_of '':pro:3:'' @ show_int (now + 86400 * 90) \<Longrightarrow> P m t"
  shows "with_used L now user P"
proof -
  have "lib_plus_days L now (30 * 3) = Some (now + 86400 * 90)"
    using L assms(2) unfolding promo_lib_correct_def by simp
  moreover have "show_int 3 = bytes_of ''3''" by code_simp
  ultimately show ?thesis
    unfolding with_used_def
    by (simp add: use_code_def use_code_prepare_def validate_code_def promo_test_manager_def promo_new_def preloaded_def Let_def)
       (rule P, simp_all add: use_code_commit_def Let_def generate_signature_def signed_data_def bytes_of_def)
qed

lemma signed_data_signature [simp]: "signed_data (t\<lparr>pt_signature := s\<rparr>) = signed_data t"
  by (simp add: signed_data_def)

lemma verify_signed:
  assumes L: "promo_lib_correct L" and "pt_signature t = lib_hex_encode L s"
  shows "verify_token L now m t =
    (if s \<noteq> lib_hmac L (promo_hmac_key m) (signed_data t) then Inl BadSignature
     else if now > pt_exp t then Inl Expired else Inr ())"
proof -
  have "lib_hex_decode L (lib_hex_encode L b) = Some b" for b using L unfolding promo_lib_correct_def by blast
  with assms(2) show ?thesis by (auto simp: verify_token_def Let_def generate_signature_def unwrap_or_default_def)
qed

lemma flood_keys: "ip_wf (flood at n) \<and> fst ` set (flood at n) \<subseteq> flood_address ` {0..<256}"
proof (induction n)
  case (Suc n)
  have "flood_address n \<in> flood_address ` {0..<256}"
    by (rule image_eqI [of _ _ "n mod 256"]) (simp_all add: flood_address_def)
  moreover have "flood at (Suc n) = ip_exec (flood at n) (IpCheck (at n) (flood_address n))"
    by (simp add: flood_def)
  moreover have "ip_wf (ip_exec (flood at n) (IpCheck (at n) (flood_address n)))"
    using Suc ip_check_wf by simp
  moreover have "fst ` set (ip_exec (flood at n) (IpCheck (at n) (flood_address n))) \<subseteq> flood_address ` {0..<256}"
    using Suc calculation(1) by (intro ip_exec_keys) (simp_all only: op_ips.simps empty_subsetI insert_subset simp_thms)
  ultimately show ?case by (simp only: simp_thms)
qed (simp add: flood_def ip_wf_def)

lemma ip_checks_fill:
  assumes "ip_hist s A ip conns" and "length conns \<le> 1" and "conns \<noteq> [] \<longrightarrow> fst (hd conns) = ip"
    and "sorted (s # ts @ [now])" and "length A + length ts \<le> 20"
  shows "ip_checks conns (map (\<lambda>t. (t, ip, True)) ts @ [(now, ip, False)]) \<longleftrightarrow> 20 \<le> length (recent now (A @ ts))"
  using assms
proof (induction ts arbitrary: s A conns)
  case Nil
  then have "recent now (entry conns ip) = recent now A" by (simp add: ip_hist_def)
  moreover have "evict conns = conns" using Nil by (intro evict_small) (simp add: IP_RATE_LIMIT_MAX_ENTRIES_def)
  ultimately show ?case by (simp add: ip_check_def Let_def IP_RATE_LIMIT_MAX_CONNS_def)
next
  case (Cons t ts)
  have ev: "evict conns = conns" using Cons.prems(2) by (intro evict_small) (simp add: IP_RATE_LIMIT_MAX_ENTRIES_def)
  have h: "ip_hist t A ip conns" using Cons.prems(4) by (intro ip_hist_later [OF Cons.prems(1)]) simp
  then have "recent t (entry conns ip) = recent t A" by (simp add: ip_hist_def)
  moreover have "length (recent t A) \<le> length A" by (simp add: recent_def)
  ultimately have len: "length (recent t (entry conns ip)) < IP_RATE_LIMIT_MAX_CONNS"
    using Cons.prems(5) by (simp add: IP_RATE_LIMIT_MAX_CONNS_def)
  let ?c = "AList.update ip (recent t (entry conns ip) @ [t]) conns"
  have "ip_check t ip conns = (?c, True)" using ev len by (simp add: ip_check_def Let_def)
  moreover have "length ?c \<le> 1 \<and> fst (hd ?c) = ip" using Cons.prems(2,3) by (cases conns) auto
  ultimately show ?case
    using Cons.IH [OF ip_hist_accept [OF h len]] Cons.prems(4,5) by simp
qed

lemma recent_all: "sorted ts \<Longrightarrow> ts \<noteq> [] \<Longrightarrow> length ts \<le> length (recent now ts) \<longleftrightarrow> now - hd ts < IP_RATE_LIMIT_WINDOW"
proof
  assume "sorted ts" "ts \<noteq> []" "now - hd ts < IP_RATE_LIMIT_WINDOW"
  then have "now - t < IP_RATE_LIMIT_WINDOW" if "t \<in> set ts" for t
    using that diff_le_mono2 [of "hd ts" t now] by (cases ts) (auto intro: le_less_trans)
  then have "recent now ts = ts" by (simp add: recent_def)
  then show "length ts \<le> length (recent now ts)" by simp
next
  assume "ts \<noteq> []" "length ts \<le> length (recent now ts)"
  then have "length (recent now ts) = length ts" by (simp add: recent_def le_antisym)
  then have "\<forall>t \<in> set ts. now - t < IP_RATE_LIMIT_WINDOW"
    unfolding recent_def by (metis filter_id_conv length_filter_less not_less_iff_gr_or_eq)
  then show "now - hd ts < IP_RATE_LIMIT_WINDOW" using \<open>ts \<noteq> []\<close> by simp
qed

section \<open>Outcomes\<close>

text \<open>
  The unit tests of the authentication module: the token test passes when the JWT library decodes
  what it encoded, the signature tests pass for every HMAC, the tampering test for every HMAC with
  a non-empty result.
\<close>

theorem gateway_auth_unit_tests_pass:
  assumes "plus_days J now1 30 = Some e"
    and "jwt_encode J ''test_secret_key_123'' c = Some t" and "jwt_decode J ''test_secret_key_123'' t now2 = Inr c"
    and "c = \<lparr>sub = ''sub456'', user_id = ''user123'', tier = ''pro'', rate_limit_bps = 3 * 1024 * 1024, exp_at = e, iat = now1\<rparr>"
    and "hmac (bytes_of ''test_hmac_key'') (bytes_of ''test data'') \<noteq> []"
  shows "test_jwt_generation_and_validation J now1 now2 \<and> test_hmac_signature hmac \<and> test_hmac_rejects_tampered hmac
    \<and> test_key_rotation hmac \<and> test_unified_error_message"
proof (intro conjI)
  show "test_jwt_generation_and_validation J now1 now2"
    using assms by (simp add: test_jwt_generation_and_validation_def generate_token_def validate_token_def
        jwt_test_manager_def auth_new_def Let_def)
  obtain forged where f: "flip_first (hmac (bytes_of ''test_hmac_key'') (bytes_of ''test data'')) = Ret forged"
    using flip_first_Ret [OF assms(5)] by blast
  from flip_first_differs [OF f] show "test_hmac_rejects_tampered hmac"
    by (auto simp: test_hmac_rejects_tampered_def hmac_test_manager_def auth_new_def generate_hmac_signature_def
        verify_hmac_signature_def f)
qed (simp_all add: test_hmac_signature_def test_key_rotation_def test_unified_error_message_def hmac_test_manager_def
      auth_new_def generate_hmac_signature_def verify_hmac_signature_def rotate_hmac_key_def client_message_def Let_def)

definition sample_claims :: claims where
  "sample_claims = \<lparr>sub = ''sub456'', user_id = ''user123'', tier = ''pro'', rate_limit_bps = 3 * 1024 * 1024, exp_at = 1, iat = 0\<rparr>"

definition sample_jwt :: jwt_lib where
  "sample_jwt = \<lparr>jwt_encode = (\<lambda>s c. Some ''t''), jwt_decode = (\<lambda>s t n. Inr sample_claims), plus_days = (\<lambda>t d. Some 1)\<rparr>"

theorem gateway_auth_unit_tests_pass_witness:
  "test_jwt_generation_and_validation sample_jwt 0 0 \<and> test_hmac_rejects_tampered (\<lambda>k d. k @ d)"
  using gateway_auth_unit_tests_pass [of sample_jwt 0 1 sample_claims "''t''" 0 "\<lambda>k d. k @ d"]
  by (simp add: sample_jwt_def sample_claims_def bytes_of_def)

text \<open>
  The unit tests of the promo codes pass whenever the clock is in the range of the calendar; the
  last one, which submits a signature of zeros, passes exactly when that is not the MAC of the
  token.
\<close>

theorem promo_unit_tests_pass:
  assumes L: "promo_lib_correct L" and now: "\<bar>now + 86400 * 90\<bar> \<le> 8 * 10 ^ 12"
  shows "test_promo_validation now \<and> test_promo_usage L now \<and> test_promo_rejects_tampered_signature L now
    \<and> test_promo_expired_rejected L now
    \<and> (lib_hmac L (bytes_of ''test_key'') (bytes_of ''PRO3M:user_ct:pro:3:'' @ show_int (now + 86400 * 90)) \<noteq> replicate 32 0
        \<longrightarrow> test_promo_constant_time_verification L now)"
proof (intro conjI impI)
  note sig = verify_signed [OF L]
  have mac: "length (lib_hmac L k d) = 32" "lib_hex_decode L (lib_hex_encode L b) = Some b" for k d b
    using L unfolding promo_lib_correct_def by blast+
  show "test_promo_validation now"
    by (simp add: test_promo_validation_def validate_code_def promo_test_manager_def promo_new_def preloaded_def)
  show "test_promo_usage L now"
    unfolding test_promo_usage_def
    by (rule with_used_intro [OF L now]) (simp add: sig generate_signature_def)
  show "test_promo_rejects_tampered_signature L now"
    unfolding test_promo_rejects_tampered_signature_def
  proof (rule with_used_intro [OF L now], goal_cases)
    case (1 m t)
    let ?mac = "lib_hmac L (promo_hmac_key m) (signed_data t)"
    have "?mac \<noteq> []" using mac(1) [of "promo_hmac_key m" "signed_data t"] by auto
    then obtain forged where f: "flip_first ?mac = Ret forged" using flip_first_Ret by blast
    show ?case using 1(5) flip_first_differs [OF f] by (simp add: generate_signature_def mac(2) f sig)
  qed
  show "test_promo_expired_rejected L now"
    unfolding test_promo_expired_rejected_def
    by (rule with_used_intro [OF L now]) (simp add: Let_def sig generate_signature_def signed_data_def)
  assume "lib_hmac L (bytes_of ''test_key'') (bytes_of ''PRO3M:user_ct:pro:3:'' @ show_int (now + 86400 * 90)) \<noteq> replicate 32 0"
  moreover have "bytes_of ''PRO3M:user_ct:pro:3:'' @ z =
      PRO3M @ bytes_of '':'' @ bytes_of ''user_ct'' @ bytes_of '':pro:3:'' @ z" for z by (simp add: bytes_of_def)
  ultimately show "test_promo_constant_time_verification L now"
    unfolding test_promo_constant_time_verification_def
    by (intro with_used_intro [OF L now]) (auto simp: sig generate_signature_def)
qed

theorem promo_unit_tests_pass_witness: "test_promo_expired_rejected toy_promo_lib 1700000000 \<and> test_promo_usage toy_promo_lib 1700000000"
  using promo_unit_tests_pass [OF toy_promo_lib_correct, of 1700000000] by simp

text \<open>
  The two tests of the address limiter. The flood passes at all instants, but it never reaches the
  eviction that it is meant to exercise: its 50000 checks come from 256 addresses, so the table has at
  most 256 entries. The test of the limit passes exactly when its 21 calls fall within one window.
\<close>

theorem ip_limiter_unit_tests_outcomes:
  assumes "length ts = 20" and "sorted (ts @ [now])"
  shows "ip_rate_limiter_50000_ips_bounded at now \<and> length (flood at n) \<le> 256
    \<and> (ip_rate_limiter_blocks_excess ts now \<longleftrightarrow> now - hd ts < IP_RATE_LIMIT_WINDOW)"
proof (intro conjI)
  let ?S = "flood_address ` {0..<256}"
  show small: "length (flood at n) \<le> 256"
    using flood_keys [of at n] card_image_le [of "{0..<256}" flood_address]
    by (intro ip_table_small [of _ ?S]) auto
  have "length (flood at 50000) \<le> 256"
    using flood_keys [of at 50000] card_image_le [of "{0..<256}" flood_address]
    by (intro ip_table_small [of _ ?S]) auto
  then have "evict (flood at 50000) = flood at 50000"
    by (intro evict_small) (simp add: IP_RATE_LIMIT_MAX_ENTRIES_def)
  moreover have "V4 0x7F000001 \<notin> ?S"
  proof
    assume "V4 0x7F000001 \<in> ?S"
    then obtain i :: nat where i: "i < 256" "(0x7F000001 :: u32) = 0x01000000 + of_nat (i mod 256)"
      by (auto simp: flood_address_def)
    then have "unat (0x7F000001 :: u32) = unat (0x01000000 + of_nat i :: u32)" by simp
    then show False using i(1) by (simp add: unat_word_ariths(1) unat_of_nat)
  qed
  then have "V4 0x7F000001 \<notin> fst ` set (flood at 50000)" using flood_keys [of at 50000] by blast
  then have "map_of (flood at 50000) (V4 0x7F000001) = None" by (simp only: map_of_eq_None_iff not_False_eq_True)
  then have "entry (flood at 50000) (V4 0x7F000001) = []" by (simp add: entry_def)
  ultimately show "ip_rate_limiter_50000_ips_bounded at now"
    by (simp add: ip_rate_limiter_50000_ips_bounded_def ip_check_def Let_def recent_def IP_RATE_LIMIT_MAX_CONNS_def)
  have "ip_rate_limiter_blocks_excess ts now \<longleftrightarrow> 20 \<le> length (recent now ([] @ ts))"
    unfolding ip_rate_limiter_blocks_excess_def using assms
    by (intro ip_checks_fill [where s = 0]) (simp_all add: ip_hist_def entry_def in_window_def)
  moreover have "ts \<noteq> []" using assms(1) by auto
  ultimately show "ip_rate_limiter_blocks_excess ts now \<longleftrightarrow> now - hd ts < IP_RATE_LIMIT_WINDOW"
    using recent_all [of ts now] assms by (auto simp: sorted_append)
qed

theorem ip_limiter_unit_tests_outcomes_witness:
  "ip_rate_limiter_blocks_excess (replicate 20 3) 4 \<and> \<not> ip_rate_limiter_blocks_excess (replicate 20 0) IP_RATE_LIMIT_WINDOW"
  using ip_limiter_unit_tests_outcomes [of "replicate 20 3" 4 id 0]
    ip_limiter_unit_tests_outcomes [of "replicate 20 0" IP_RATE_LIMIT_WINDOW id 0]
  by (simp add: sorted_append IP_RATE_LIMIT_WINDOW_def second_def)

end
