(* ===== verification/Tests_Protocol.thy ===== *)
theory Tests_Protocol
  imports Protocol
begin

text \<open>
  The unit tests of \<open>transport-core/src/protocol.rs\<close> and the fuzz targets of
  \<open>transport-core/fuzz/fuzz_targets\<close> that call the codec, replayed on the model. A test is the
  conjunction of its assertions; an \<open>unwrap\<close> of an error fails it. The generated keys and prefixes
  are parameters, so a lemma says that the test passes for every draw and every working cipher.
\<close>

section \<open>Frames written to a vector and read from a cursor\<close>

definition REKEY_HARD_LIMIT :: nat where
  "REKEY_HARD_LIMIT = 0x100000000"

definition wr :: "aead \<Rightarrow> frame_codec \<Rightarrow> bytes \<Rightarrow> (frame_codec \<times> bytes) option" where
  "wr A c p = (case write_frame A c vec_writer p of (c, w, Inr _) \<Rightarrow> Some (c, wbuf w) | _ \<Rightarrow> None)"

definition rd :: "aead \<Rightarrow> frame_codec \<Rightarrow> bytes \<Rightarrow> frame_codec \<times> (transport_error + bytes)" where
  "rd A c b = (case read_frame A c (cursor b) of (c, _, res) \<Rightarrow> (c, res))"

section \<open>The tests\<close>

definition roundtrip_frame :: "aead \<Rightarrow> bytes \<Rightarrow> bytes \<Rightarrow> bool" where
  "roundtrip_frame A key prefix \<longleftrightarrow>
     (let codec = codec_new key prefix prefix 0;
          original = bytes_of ''GET https://web.telegram.org/ HTTP/1.1'' @ [13, 10]
            @ bytes_of ''Host: web.telegram.org'' @ [13, 10, 13, 10]
      in case wr A codec original of
           None \<Rightarrow> False
         | Some (codec, buf) \<Rightarrow> snd (rd A codec buf) = Inr original)"

definition roundtrip_two_codecs :: "aead \<Rightarrow> bytes \<Rightarrow> bytes \<Rightarrow> bytes \<Rightarrow> bool" where
  "roundtrip_two_codecs A key c2s_prefix s2c_prefix \<longleftrightarrow>
     (let client_codec = codec_new key c2s_prefix s2c_prefix 0;
          server_codec = codec_new key s2c_prefix c2s_prefix 0;
          original = bytes_of ''client to server message''
      in case wr A client_codec original of
           None \<Rightarrow> False
         | Some (_, buf) \<Rightarrow> snd (rd A server_codec buf) = Inr original)"

definition rejects_bad_content_type :: "aead \<Rightarrow> bytes \<Rightarrow> bool" where
  "rejects_bad_content_type A key \<longleftrightarrow>
     (let codec = codec_new key (replicate 8 0) (replicate 8 0) 0;
          bad_frame = [0xFF, 0x03, 0x03, 0x00, 0x15, 0, 0, 0, 0, 0] @ bytes_of ''deadbeefdeadbeef''
      in case snd (rd A codec bad_frame) of Inl (Protocol _) \<Rightarrow> True | _ \<Rightarrow> False)"

definition rejects_replay :: "aead \<Rightarrow> bytes \<Rightarrow> bytes \<Rightarrow> bool" where
  "rejects_replay A key prefix \<longleftrightarrow>
     (let codec = codec_new key prefix prefix 0 in
      case wr A codec (bytes_of ''hello'') of
        None \<Rightarrow> False
      | Some (codec, buf) \<Rightarrow>
          (case rd A codec buf of
             (codec, Inl e) \<Rightarrow> False
           | (codec, Inr _) \<Rightarrow>
               (case snd (rd A codec buf) of Inl (ReplayDetected _) \<Rightarrow> True | _ \<Rightarrow> False)))"

definition rejects_wrong_kid :: "aead \<Rightarrow> bytes \<Rightarrow> bytes \<Rightarrow> bool" where
  "rejects_wrong_kid A key prefix \<longleftrightarrow>
     (let writer_codec = codec_new key prefix prefix 1; reader_codec = codec_new key prefix prefix 0 in
      case wr A writer_codec (bytes_of ''hello'') of
        None \<Rightarrow> False
      | Some (_, buf) \<Rightarrow> snd (rd A reader_codec buf) = Inl (UnknownKeyId 1))"

definition rejects_oversized_payload :: "aead \<Rightarrow> bytes \<Rightarrow> bool" where
  "rejects_oversized_payload A key \<longleftrightarrow>
     (let codec = codec_new key (replicate 8 0) (replicate 8 0) 0; big = replicate (MAX_PAYLOAD + 1) 0 in
      case snd (snd (write_frame A codec vec_writer big)) of Inl (FrameTooLarge _ _) \<Rightarrow> True | _ \<Rightarrow> False)"

definition counter_increments_monotonically :: "aead \<Rightarrow> bytes \<Rightarrow> bool" where
  "counter_increments_monotonically A key \<longleftrightarrow>
     (case wr A (codec_new key (replicate 8 0) (replicate 8 0) 0) (bytes_of ''a'') of None \<Rightarrow> False | Some (codec, _) \<Rightarrow>
      send_counter codec = 1 \<and>
      (case wr A codec (bytes_of ''b'') of None \<Rightarrow> False | Some (codec, _) \<Rightarrow>
       send_counter codec = 2 \<and>
       (case wr A codec (bytes_of ''c'') of None \<Rightarrow> False | Some (codec, _) \<Rightarrow> send_counter codec = 3)))"

definition test_keystore :: "bytes \<Rightarrow> bytes \<Rightarrow> bool" where
  "test_keystore key1 key2 \<longleftrightarrow>
     (let store = keystore_new key1; store2 = rotate store 1 key2; store3 = remove_key store2 0 in
      active_kid store = 0 \<and> keystore_len store = 1 \<and> active_kid store2 = 1 \<and> keystore_len store2 = 2
      \<and> keystore_len store3 = 1)"

definition test_rekey_threshold :: bool where
  "test_rekey_threshold \<longleftrightarrow> unat REKEY_THRESHOLD < REKEY_HARD_LIMIT \<and> unat REKEY_THRESHOLD < 2 ^ 32 - 1"

definition rekey_produces_new_key :: "aead \<Rightarrow> bytes \<Rightarrow> bytes \<Rightarrow> bytes \<Rightarrow> bool" where
  "rekey_produces_new_key A key1 key2 prefix \<longleftrightarrow>
     (case wr A (codec_new key1 prefix prefix 0) (bytes_of ''old'') of None \<Rightarrow> False | Some (codec, _) \<Rightarrow>
      codec_kid codec = 0 \<and>
      (let codec = start_rekey codec 1 key2 in
       codec_kid codec = 1 \<and> is_rekey_overlap codec \<and>
       (case wr A codec (bytes_of ''new'') of
          None \<Rightarrow> False
        | Some (codec, buf2) \<Rightarrow> snd (rd A codec buf2) = Inr (bytes_of ''new''))))"

definition rekey_overlap_accepts_old_kid :: "aead \<Rightarrow> bytes \<Rightarrow> bytes \<Rightarrow> bytes \<Rightarrow> bool" where
  "rekey_overlap_accepts_old_kid A key1 key2 prefix \<longleftrightarrow>
     (let writer_old = codec_new key1 prefix prefix 0; reader = codec_new key1 prefix prefix 0 in
      case wr A writer_old (bytes_of ''old-key-frame'') of
        None \<Rightarrow> False
      | Some (_, old_buf) \<Rightarrow>
          let reader = start_rekey reader 1 key2 in
          is_rekey_overlap reader \<and> snd (rd A reader old_buf) = Inr (bytes_of ''old-key-frame''))"

definition rekey_complete_rejects_old_kid :: "aead \<Rightarrow> bytes \<Rightarrow> bytes \<Rightarrow> bytes \<Rightarrow> bool" where
  "rekey_complete_rejects_old_kid A key1 key2 prefix \<longleftrightarrow>
     (let writer_old = codec_new key1 prefix prefix 0; reader = codec_new key1 prefix prefix 0 in
      case wr A writer_old (bytes_of ''old'') of
        None \<Rightarrow> False
      | Some (_, old_buf) \<Rightarrow>
          let reader = complete_rekey (start_rekey reader 1 key2) in
          \<not> is_rekey_overlap reader \<and> snd (rd A reader old_buf) = Inl (UnknownKeyId 0))"

definition rekey_downgrade_rejected :: "aead \<Rightarrow> bytes \<Rightarrow> bytes \<Rightarrow> bytes \<Rightarrow> bool" where
  "rekey_downgrade_rejected A key1 key2 prefix \<longleftrightarrow>
     (let codec = start_rekey (codec_new key1 prefix prefix 5) 10 key2; writer_low = codec_new key1 prefix prefix 3 in
      case wr A writer_low (bytes_of ''downgrade'') of
        None \<Rightarrow> False
      | Some (_, buf) \<Rightarrow> snd (rd A codec buf) = Inl (UnknownKeyId 3))"

fun echo_frames :: "aead \<Rightarrow> nat \<Rightarrow> frame_codec \<Rightarrow> frame_codec option" where
  "echo_frames A 0 codec = Some codec"
| "echo_frames A (Suc n) codec =
     (case wr A codec (bytes_of ''x'') of
        None \<Rightarrow> None
      | Some (codec, buf) \<Rightarrow>
          (case rd A codec buf of (codec, Inl e) \<Rightarrow> None | (codec, Inr _) \<Rightarrow> echo_frames A n codec))"

definition rekey_auto_complete_after_overlap :: "aead \<Rightarrow> bytes \<Rightarrow> bytes \<Rightarrow> bytes \<Rightarrow> bool" where
  "rekey_auto_complete_after_overlap A key1 key2 prefix \<longleftrightarrow>
     (let codec = start_rekey (codec_new key1 prefix prefix 0) 1 key2 in
      is_rekey_overlap codec \<and>
      (case echo_frames A (unat REKEY_OVERLAP_FRAMES) codec of None \<Rightarrow> False | Some codec \<Rightarrow> \<not> is_rekey_overlap codec))"

section \<open>The fuzz targets\<close>

definition fuzz_read_frame :: "aead \<Rightarrow> bytes \<Rightarrow> transport_error + bytes" where
  "fuzz_read_frame A data =
     (let codec = codec_new (replicate 32 0) (replicate 8 0) (replicate 8 0) 0 in snd (rd A codec data))"

definition fuzz_write_frame :: "aead \<Rightarrow> bytes \<Rightarrow> (transport_error + bytes) option" where
  "fuzz_write_frame A data =
     (if length data > MAX_PAYLOAD then None
      else
        let writer = codec_new (replicate 32 0) (replicate 8 0) (replicate 8 0) 0;
            reader = codec_new (replicate 32 0) (replicate 8 0) (replicate 8 0) 0
        in case wr A writer data of None \<Rightarrow> None | Some (_, buf) \<Rightarrow> Some (snd (rd A reader buf)))"

section \<open>What a working cipher gives\<close>

locale working_cipher =
  fixes A :: aead
  assumes correct: "aead_correct A"
begin

lemma wr_ok:
  assumes "length p \<le> MAX_PAYLOAD" and "send_counter c < REKEY_THRESHOLD"
  shows "wr A c p = Some (c\<lparr>send_counter := send_counter c + 1\<rparr>, sealed A c p)"
  using write_frame_ok [OF correct assms healthy_vec_writer] by (simp add: wr_def vec_writer_def)

lemma rd_ok:
  assumes "length p \<le> MAX_PAYLOAD" and "send_counter s < REKEY_THRESHOLD" and "can_open s r"
  shows "rd A r (sealed A s p) =
    (r\<lparr>recv_replay := fst (replay_check (recv_replay r) (send_counter s)), cstate := count_overlap (cstate r)\<rparr>, Inr p)"
  using read_sealed [OF correct assms, of "cursor (sealed A s p)" "[]"] by (simp add: rd_def cursor_def)

lemma rd_open:
  assumes "length p \<le> MAX_PAYLOAD"
  obtains ct where "rd A r (sealed A s p) = open_body A r ([kid (cstate s)] @ be32 (ucast (send_counter s)) @ ct)"
proof -
  obtain ct where ct: "aead_encrypt A (cipher (cstate s)) (frame_nonce (send_prefix s) (send_counter s)) p = Some ct"
      "length ct = length p + TAG_SIZE"
    using correct assms by (rule aead_correctE)
  have "read_frame A r (cursor (sealed A s p)) =
      (case open_body A r ([kid (cstate s)] @ be32 (ucast (send_counter s)) @ ct) of
         (c', res) \<Rightarrow> (c', (cursor (sealed A s p))\<lparr>rbuf := []\<rparr>, res))"
    by (rule read_frame_frame) (use ct assms in \<open>simp_all add: sealed_def cursor_def\<close>)
  then show thesis by (intro that [of ct]) (simp add: rd_def split: prod.split)
qed

lemma rd_replayed:
  assumes "length p \<le> MAX_PAYLOAD" and "send_counter s < REKEY_THRESHOLD"
    and "\<not> snd (replay_check (recv_replay r) (send_counter s))"
  shows "snd (rd A r (sealed A s p)) = Inl (ReplayDetected (send_counter s))"
proof -
  obtain ct where "rd A r (sealed A s p) = open_body A r ([kid (cstate s)] @ be32 (ucast (send_counter s)) @ ct)"
    using assms(1) by (rule rd_open)
  then show ?thesis using assms(3) unfolding open_body_def Let_def body_counter_frame [OF assms(2)]
    by (auto split: prod.split bool.split)
qed

lemma rd_unknown_kid:
  assumes "length p \<le> MAX_PAYLOAD" and "send_counter s < REKEY_THRESHOLD"
    and "snd (replay_check (recv_replay r) (send_counter s))" and "select_key (cstate r) (kid (cstate s)) = None"
  shows "snd (rd A r (sealed A s p)) = Inl (UnknownKeyId (kid (cstate s)))"
proof -
  obtain ct where "rd A r (sealed A s p) = open_body A r ([kid (cstate s)] @ be32 (ucast (send_counter s)) @ ct)"
    using assms(1) by (rule rd_open)
  then show ?thesis using assms(3,4) unfolding open_body_def Let_def body_counter_frame [OF assms(2)]
    by (auto split: prod.split bool.split)
qed

lemma self_link: "linked (codec_new key p p k) (codec_new key p p k)"
  by (rule linked_new)

lemma small_payload [simp]: "n \<le> 100 \<Longrightarrow> n \<le> MAX_PAYLOAD"
  by (simp add: MAX_PAYLOAD_def)

lemma fresh_counter [simp]: "send_counter (codec_new key p q k) = 0" "(0 :: u64) < REKEY_THRESHOLD" "(1 :: u64) < REKEY_THRESHOLD"
    "(2 :: u64) < REKEY_THRESHOLD"
  by (simp_all add: codec_new_def REKEY_THRESHOLD_def)

lemma fresh_window [simp]: "snd (replay_check (recv_replay (codec_new key p q k)) n)"
  by (simp add: codec_new_def replay_new_def replay_check_def)

lemma roundtrip_frame_passes: "roundtrip_frame A key prefix"
proof -
  let ?c = "codec_new key prefix prefix 0" and ?p = "bytes_of ''GET https://web.telegram.org/ HTTP/1.1'' @ [13, 10]
      @ bytes_of ''Host: web.telegram.org'' @ [13, 10, 13, 10]"
  have p: "length ?p \<le> MAX_PAYLOAD" by (simp add: MAX_PAYLOAD_def)
  have "can_open ?c (?c\<lparr>send_counter := 1\<rparr>)" by (simp add: can_open_def select_key_def codec_new_def replay_new_def replay_check_def)
  then show ?thesis using wr_ok [OF p, of ?c] rd_ok [OF p, of ?c "?c\<lparr>send_counter := 1\<rparr>"]
    by (simp add: roundtrip_frame_def Let_def)
qed

lemma roundtrip_two_codecs_passes: "roundtrip_two_codecs A key c2s s2c"
  using wr_ok [of "bytes_of ''client to server message''" "codec_new key c2s s2c 0"]
    rd_ok [OF _ _ linked_can_open [OF linked_new], of "bytes_of ''client to server message''" key c2s s2c 0]
  by (simp add: roundtrip_two_codecs_def Let_def)

lemma rejects_replay_passes: "rejects_replay A key prefix"
proof -
  let ?c = "codec_new key prefix prefix 0" and ?p = "bytes_of ''hello''"
  let ?c1 = "?c\<lparr>send_counter := 1\<rparr>"
  let ?c2 = "?c1\<lparr>recv_replay := fst (replay_check (recv_replay ?c1) 0), cstate := count_overlap (cstate ?c1)\<rparr>"
  have "can_open ?c ?c1" by (simp add: can_open_def select_key_def codec_new_def replay_new_def replay_check_def)
  then have "rd A ?c1 (sealed A ?c ?p) = (?c2, Inr ?p)" using rd_ok [of ?p ?c ?c1] by simp
  moreover have "\<not> snd (replay_check (recv_replay ?c2) 0)"
    by (simp add: codec_new_def replay_new_def replay_check_def saturating_sub_def)
  then have "snd (rd A ?c2 (sealed A ?c ?p)) = Inl (ReplayDetected 0)"
    using rd_replayed [of ?p ?c ?c2] by simp
  ultimately show ?thesis using wr_ok [of ?p ?c] by (simp add: rejects_replay_def)
qed

lemma unknown_kid_passes:
  "rejects_wrong_kid A key prefix"
  "rekey_complete_rejects_old_kid A key1 key2 prefix"
  "rekey_downgrade_rejected A key1 key2 prefix"
proof -
  have key: "select_key (cstate (codec_new key prefix prefix 0)) 1 = None"
    "select_key (cstate (complete_rekey (start_rekey (codec_new key1 prefix prefix 0) 1 key2))) 0 = None"
    "select_key (cstate (start_rekey (codec_new key1 prefix prefix 5) 10 key2)) 3 = None"
    by (simp_all add: select_key_def codec_new_def complete_rekey_def start_rekey_def)
  have kid: "kid (cstate (codec_new k1 p q n)) = n" for k1 p q n by (simp add: codec_new_def)
  have win: "recv_replay (start_rekey c n k2) = recv_replay c" "recv_replay (complete_rekey c) = recv_replay c" for c n k2
    by (simp_all add: start_rekey_def complete_rekey_def Let_def)
  show "rejects_wrong_kid A key prefix"
    using wr_ok [of "bytes_of ''hello''" "codec_new key prefix prefix 1"]
      rd_unknown_kid [of "bytes_of ''hello''" "codec_new key prefix prefix 1" "codec_new key prefix prefix 0"] key(1)
    by (simp add: rejects_wrong_kid_def kid)
  show "rekey_complete_rejects_old_kid A key1 key2 prefix"
    using wr_ok [of "bytes_of ''old''" "codec_new key1 prefix prefix 0"]
      rd_unknown_kid [of "bytes_of ''old''" "codec_new key1 prefix prefix 0"
        "complete_rekey (start_rekey (codec_new key1 prefix prefix 0) 1 key2)"] key(2)
    by (simp add: rekey_complete_rejects_old_kid_def kid win is_rekey_overlap_def) (simp add: complete_rekey_def)
  show "rekey_downgrade_rejected A key1 key2 prefix"
    using wr_ok [of "bytes_of ''downgrade''" "codec_new key1 prefix prefix 3"]
      rd_unknown_kid [of "bytes_of ''downgrade''" "codec_new key1 prefix prefix 3"
        "start_rekey (codec_new key1 prefix prefix 5) 10 key2"] key(3)
    by (simp add: rekey_downgrade_rejected_def kid win)
qed

lemma counter_passes: "counter_increments_monotonically A key"
proof -
  let ?c = "codec_new key (replicate 8 0) (replicate 8 0) 0"
  show ?thesis
    using wr_ok [of "bytes_of ''a''" ?c] wr_ok [of "bytes_of ''b''" "?c\<lparr>send_counter := 1\<rparr>"]
      wr_ok [of "bytes_of ''c''" "?c\<lparr>send_counter := 2\<rparr>"]
    by (simp add: counter_increments_monotonically_def)
qed

lemma echo_one:
  assumes "linked c c" and "send_counter c < REKEY_THRESHOLD" and "length p \<le> MAX_PAYLOAD"
  defines "c1 \<equiv> c\<lparr>send_counter := send_counter c + 1\<rparr>"
  shows "\<exists>c2. rd A c1 (sealed A c p) = (c2, Inr p) \<and> linked c2 c2 \<and> cstate c2 = count_overlap (cstate c)
    \<and> send_counter c2 = send_counter c + 1"
proof -
  have "can_open c c1" using linked_can_open [OF assms(1)] by (simp add: can_open_def c1_def)
  note r = rd_ok [OF assms(3,2) this]
  let ?c2 = "c1\<lparr>recv_replay := fst (replay_check (recv_replay c1) (send_counter c)), cstate := count_overlap (cstate c1)\<rparr>"
  have "linked c1 (c\<lparr>recv_replay := fst (replay_check (recv_replay c) (send_counter c)), cstate := count_overlap (cstate c)\<rparr>)"
    unfolding c1_def by (rule linked_step [OF assms(1,2)])
  then have "linked ?c2 ?c2" by (simp add: linked_def c1_def)
  with r show ?thesis by (intro exI [of _ ?c2]) (simp add: c1_def)
qed

lemma echo_frames_count:
  assumes "linked c c" and "unat (send_counter c) + n \<le> unat REKEY_THRESHOLD"
  shows "\<exists>c'. echo_frames A n c = Some c' \<and> cstate c' = (count_overlap ^^ n) (cstate c)"
  using assms
proof (induction n arbitrary: c)
  case (Suc n)
  note b = counter_succ_bound [OF Suc.prems(2)]
  obtain c2 where c2: "rd A (c\<lparr>send_counter := send_counter c + 1\<rparr>) (sealed A c (bytes_of ''x'')) = (c2, Inr (bytes_of ''x''))"
      "linked c2 c2" "cstate c2 = count_overlap (cstate c)" "send_counter c2 = send_counter c + 1"
    using echo_one [OF Suc.prems(1) b(1), of "bytes_of ''x''"] by auto
  have "unat (send_counter c2) + n \<le> unat REKEY_THRESHOLD" using b(2) c2(4) by simp
  from Suc.IH [OF c2(2) this] obtain c' where "echo_frames A n c2 = Some c'" "cstate c' = (count_overlap ^^ n) (cstate c2)"
    by blast
  then show ?case using c2 wr_ok [of "bytes_of ''x''" c] b(1) by (simp add: funpow_swap1)
qed simp

lemma count_overlap_iter:
  assumes "prev st = Some pv" and "unat (frames_since_rekey st) + n \<le> 256" and "0 < n \<or> unat (frames_since_rekey st) < 256"
  shows "prev ((count_overlap ^^ n) st) = (if unat (frames_since_rekey st) + n < 256 then Some pv else None)"
  using assms
proof (induction n arbitrary: st)
  case (Suc n)
  have lt: "unat (frames_since_rekey st) < 256" using Suc.prems(2) by simp
  note f = count_overlap_frames [OF Suc.prems(1) lt]
  show ?case
  proof (cases "Suc (unat (frames_since_rekey st)) < 256")
    case True
    then show ?thesis using Suc.IH [of "count_overlap st"] f Suc.prems(2) by (simp add: funpow_swap1)
  next
    case False
    have "n = 0" using False Suc.prems(2) by linarith
    have "prev ((count_overlap ^^ Suc 0) st) = None" using False f by simp
    then show ?thesis using False unfolding \<open>n = 0\<close> by simp
  qed
qed simp

lemma rekey_link: "linked (start_rekey (codec_new key p p k) k' key') (start_rekey (codec_new key p p k) k' key')"
  by (simp add: linked_def start_rekey_def codec_new_def replay_new_def)

lemma auto_complete_passes: "rekey_auto_complete_after_overlap A key1 key2 prefix"
proof -
  let ?c = "start_rekey (codec_new key1 prefix prefix 0) 1 key2"
  have n: "unat REKEY_OVERLAP_FRAMES = 256" by (simp add: REKEY_OVERLAP_FRAMES_def)
  have st: "prev (cstate ?c) = Some (0, key1)" "frames_since_rekey (cstate ?c) = 0" "send_counter ?c = 0"
    by (simp_all add: start_rekey_def codec_new_def)
  have "unat (send_counter ?c) + 256 \<le> unat REKEY_THRESHOLD" by (simp add: st REKEY_THRESHOLD_def)
  from echo_frames_count [OF rekey_link this] obtain c' where
    c': "echo_frames A 256 ?c = Some c'" "cstate c' = (count_overlap ^^ 256) (cstate ?c)" by blast
  moreover have "prev ((count_overlap ^^ 256) (cstate ?c)) = None"
    using count_overlap_iter [of "cstate ?c" "(0, key1)" 256] st by simp
  ultimately show ?thesis
    unfolding rekey_auto_complete_after_overlap_def n Let_def c'(1)
    by (simp add: is_rekey_overlap_def st(1))
qed

lemma rekey_new_key_passes: "rekey_produces_new_key A key1 key2 prefix"
proof -
  let ?c = "codec_new key1 prefix prefix 0\<lparr>send_counter := 1\<rparr>"
  let ?n = "start_rekey ?c 1 key2"
  have f: "send_counter ?n = 1" "codec_kid ?n = 1" "codec_kid ?c = 0" "is_rekey_overlap ?n" "linked ?n ?n"
    by (simp_all add: start_rekey_def codec_new_def Let_def codec_kid_def is_rekey_overlap_def linked_def replay_new_def)
  obtain c2 where "rd A (?n\<lparr>send_counter := 2\<rparr>) (sealed A ?n (bytes_of ''new'')) = (c2, Inr (bytes_of ''new''))"
    using echo_one [OF f(5), of "bytes_of ''new''"] f(1) by auto
  then show ?thesis
    using wr_ok [of "bytes_of ''old''" "codec_new key1 prefix prefix 0"] wr_ok [of "bytes_of ''new''" ?n] f
    by (simp add: rekey_produces_new_key_def Let_def)
qed

lemma overlap_accepts_passes: "rekey_overlap_accepts_old_kid A key1 key2 prefix"
proof -
  let ?w = "codec_new key1 prefix prefix 0" and ?p = "bytes_of ''old-key-frame''"
  let ?r = "start_rekey ?w 1 key2"
  have "can_open ?w ?r" and o: "is_rekey_overlap ?r"
    by (simp_all add: can_open_def select_key_def start_rekey_def codec_new_def Let_def replay_new_def replay_check_def is_rekey_overlap_def)
  with rd_ok [of ?p ?w ?r] wr_ok [of ?p ?w] show ?thesis by (simp add: rekey_overlap_accepts_old_kid_def Let_def)
qed

lemma fuzz_write_roundtrip: "length data \<le> MAX_PAYLOAD \<Longrightarrow> fuzz_write_frame A data = Some (Inr data)"
  using wr_ok [of data "codec_new (replicate 32 0) (replicate 8 0) (replicate 8 0) 0"]
    rd_ok [OF _ _ linked_can_open [OF linked_new], of data "replicate 32 0" "replicate 8 0" "replicate 8 0" 0]
  by (simp add: fuzz_write_frame_def Let_def)

end

interpretation toy_cipher: working_cipher toy_aead
  by unfold_locales (rule toy_aead_correct)

section \<open>Properties\<close>

text \<open>
  The unit tests of the codec pass on the model for every key, every prefix and every cipher that
  decrypts what it encrypted: the round trips, the refusals (content type, replay, key identifier,
  size), the counter, the key store, and the five rekey tests with their 256-frame overlap.
\<close>

theorem codec_unit_tests_pass:
  assumes "aead_correct A"
  shows "roundtrip_frame A key prefix \<and> roundtrip_two_codecs A key c2s s2c \<and> rejects_bad_content_type A key
    \<and> rejects_replay A key prefix \<and> rejects_wrong_kid A key prefix \<and> rejects_oversized_payload A key
    \<and> counter_increments_monotonically A key \<and> test_keystore key key2 \<and> test_rekey_threshold
    \<and> rekey_produces_new_key A key key2 prefix \<and> rekey_overlap_accepts_old_kid A key key2 prefix
    \<and> rekey_complete_rejects_old_kid A key key2 prefix \<and> rekey_downgrade_rejected A key key2 prefix
    \<and> rekey_auto_complete_after_overlap A key key2 prefix"
proof -
  have W: "working_cipher A" using assms by (rule working_cipher.intro)
  have "rejects_bad_content_type A key"
    by (simp add: rejects_bad_content_type_def rd_def read_frame_def read_exact_def cursor_def TLS_RECORD_HEADER_SIZE_def
        check_header_def TLS_CONTENT_TYPE_def)
  moreover have "rejects_oversized_payload A key"
    by (simp add: rejects_oversized_payload_def write_frame_def Let_def)
  moreover have "test_keystore key key2"
    by (simp add: test_keystore_def keystore_defs keystore_len_def Let_def)
  moreover have "test_rekey_threshold"
    by (simp add: test_rekey_threshold_def REKEY_THRESHOLD_def REKEY_HARD_LIMIT_def)
  ultimately show ?thesis
    by (intro conjI working_cipher.roundtrip_frame_passes [OF W] working_cipher.roundtrip_two_codecs_passes [OF W]
        working_cipher.rejects_replay_passes [OF W] working_cipher.unknown_kid_passes [OF W]
        working_cipher.counter_passes [OF W] working_cipher.rekey_new_key_passes [OF W]
        working_cipher.overlap_accepts_passes [OF W] working_cipher.auto_complete_passes [OF W])
qed

theorem codec_unit_tests_pass_witness:
  "rejects_replay toy_aead [1] (replicate 8 2) \<and> rekey_auto_complete_after_overlap toy_aead [1] [3] (replicate 8 2)"
  using codec_unit_tests_pass [OF toy_aead_correct, of "[1]" "replicate 8 2" _ _ "[3]"] by blast

text \<open>
  The fuzz targets: whatever payload the write target is given within the size limit, the frame it
  writes is read back as that payload; whatever bytes the read target is given, it returns an error
  unless they start with a frame that the cipher opens.
\<close>

theorem fuzz_targets_hold:
  assumes "aead_correct A"
  shows "(length data \<le> MAX_PAYLOAD \<longrightarrow> fuzz_write_frame A data = Some (Inr data))
    \<and> (fuzz_read_frame A data = Inr p \<longrightarrow>
        (\<exists>nonce ct. aead_decrypt A (replicate 32 0) nonce ct = Some p \<and> length nonce = 12))"
proof -
  have W: "working_cipher A" using assms by (rule working_cipher.intro)
  have "\<exists>nonce ct. aead_decrypt A (replicate 32 0) nonce ct = Some p \<and> length nonce = 12"
    if f: "fuzz_read_frame A data = Inr p"
  proof -
    let ?c = "codec_new (replicate 32 0) (replicate 8 0) (replicate 8 0) 0"
    obtain body c' where "open_body A ?c body = (c', Inr p)"
      using f unfolding fuzz_read_frame_def rd_def read_frame_def Let_def
      by (auto split: prod.splits sum.splits)
    then have "\<exists>ct. aead_decrypt A (replicate 32 0) (frame_nonce (replicate 8 0) (body_counter body)) ct = Some p"
      unfolding open_body_def Let_def
      by (auto simp: codec_new_def select_key_def split: prod.splits bool.splits option.splits if_splits)
    then show ?thesis by (auto simp: frame_nonce_def)
  qed
  then show ?thesis using working_cipher.fuzz_write_roundtrip [OF W] by blast
qed

theorem fuzz_targets_hold_witness: "fuzz_write_frame toy_aead [1, 2, 3] = Some (Inr [1, 2, 3])"
  using fuzz_targets_hold [OF toy_aead_correct, of "[1, 2, 3]"] by (simp add: MAX_PAYLOAD_def)

end
