(* ===== verification/Tests_Proxy.thy ===== *)
theory Tests_Proxy
  imports Proxy
begin

text \<open>
  The unit tests of \<open>transport-core/src/proxy.rs\<close> replayed on the model. The network is a
  parameter; what the tests rely on is that the connection to the closed port is refused.
\<close>

definition proxy_valid_key :: bytes where
  "proxy_valid_key = bytes_of (concat (replicate 32 ''aa''))"

definition proxy_ep :: "string \<Rightarrow> u16 \<Rightarrow> endpoint_config" where
  "proxy_ep h p = \<lparr>host = bytes_of h, port = p, sni = bytes_of ''cloudflare.com'',
     server_pub = proxy_valid_key, psk = proxy_valid_key\<rparr>"

definition two_ports :: "u16 \<Rightarrow> u16 \<Rightarrow> failover_manager" where
  "two_ports p q = failover_new [proxy_ep ''127.0.0.1'' p, proxy_ep ''127.0.0.1'' q]"

definition decode_hex32_used_from_endpoint_module_roundtrip :: bool where
  "decode_hex32_used_from_endpoint_module_roundtrip \<longleftrightarrow>
     (case decode_hex32 proxy_valid_key of Ret (Some decoded) \<Rightarrow> length decoded = 32 | _ \<Rightarrow> False)"

definition connect_tls_reports_failure_on_connection_refused :: "'tcp net \<Rightarrow> attempt \<Rightarrow> u16 \<Rightarrow> bool" where
  "connect_tls_reports_failure_on_connection_refused N t bad_port \<longleftrightarrow>
     (case (failure_count (two_ports bad_port bad_port), connect_tls N t (two_ports bad_port bad_port)) of
        (Ret before, Ret (fo, _)) \<Rightarrow>
          (case failure_count fo of Ret n \<Rightarrow> n > before \<or> current_idx fo \<noteq> 0 | Panic \<Rightarrow> False)
      | _ \<Rightarrow> False)"

text \<open>Connection attempts one after the other; their results are dropped.\<close>

fun attempts :: "'tcp net \<Rightarrow> attempt list \<Rightarrow> failover_manager \<Rightarrow> failover_manager outcome" where
  "attempts N [] fo = Ret fo"
| "attempts N (t # ts) fo = (case connect_tls N t fo of Panic \<Rightarrow> Panic | Ret (fo, _) \<Rightarrow> attempts N ts fo)"

definition at_port :: "u16 \<Rightarrow> failover_manager \<Rightarrow> bool" where
  "at_port p fo \<longleftrightarrow> (case current_endpoint fo of Ret e \<Rightarrow> port e = p | Panic \<Rightarrow> False)"

definition real_socks5_flow_switches_endpoint ::
  "'tcp net \<Rightarrow> attempt \<Rightarrow> attempt \<Rightarrow> attempt \<Rightarrow> u16 \<Rightarrow> u16 \<Rightarrow> bool" where
  "real_socks5_flow_switches_endpoint N t1 t2 t3 bad_port good_port \<longleftrightarrow>
     at_port bad_port (two_ports bad_port good_port) \<and>
     (case attempts N [t1, t2, t3] (two_ports bad_port good_port) of Ret fo \<Rightarrow> at_port good_port fo | Panic \<Rightarrow> False)"

text \<open>This test performs nothing between its two readings of the manager, so it cannot fail.\<close>

definition steal_handshake_error_path_does_not_touch_failover :: bool where
  "steal_handshake_error_path_does_not_touch_failover \<longleftrightarrow>
     (let fo = two_ports 1 2 in current_idx fo = current_idx fo \<and> failure_count fo = failure_count fo)"

definition all_endpoints_in_cooldown_stays_on_current :: "(instant \<times> int) list \<Rightarrow> bool" where
  "all_endpoints_in_cooldown_stays_on_current calls \<longleftrightarrow>
     (case foldl failover_exec (Ret (two_ports 1 2)) (map (\<lambda>(t, w). ReportFailure t w) calls) of
        Ret fo \<Rightarrow> current_idx fo = 0 \<or> current_idx fo = 1
      | Panic \<Rightarrow> False)"

section \<open>Outcomes\<close>

definition failed_at :: "u16 \<Rightarrow> u16 \<Rightarrow> nat \<Rightarrow> u32 \<Rightarrow> instant option \<Rightarrow> int option \<Rightarrow> failover_manager" where
  "failed_at p q i n t w = \<lparr>endpoints = [proxy_ep ''127.0.0.1'' p, proxy_ep ''127.0.0.1'' q], current_idx = i,
     states = [\<lparr>consecutive_failures = n, last_failure = t\<rparr>, endpoint_state_fresh], last_switch_system_time = w\<rparr>"

lemma failed_at_simps:
  "two_ports p q = failed_at p q 0 0 None None"
  "current_endpoint (failed_at p q 0 n t w) = Ret (proxy_ep ''127.0.0.1'' p)"
  "at_port p (failed_at p q 0 n t w)" "at_port q (failed_at p q (Suc 0) n t w)"
  "failure_count (failed_at p q 0 n t w) = Ret n"
  by (simp_all add: failed_at_def two_ports_def failover_new_def endpoint_state_fresh_def current_endpoint_def at_port_def
      proxy_ep_def failure_count_def)

lemma failed_at_report:
  "report_failure (failed_at p q 0 0 t w) now sys = Ret (failed_at p q 0 1 (Some now) w)"
  "report_failure (failed_at p q 0 1 t w) now sys = Ret (failed_at p q 0 2 (Some now) w)"
  "report_failure (failed_at p q 0 2 t w) now sys = Ret (failed_at p q 1 0 (Some now) (Some sys))"
  by (simp_all add: report_failure_def failed_at_def Let_def FAILURE_THRESHOLD_def word_le_nat_alt try_switch_locked_def
      upt_rec in_cooldown_def endpoint_state_fresh_def)

lemma refused_attempt:
  assumes "tls_connect_endpoint N (proxy_ep ''127.0.0.1'' p) = Ret (Inl err)" and "others t = id"
  shows "connect_tls N t (failed_at p q 0 n s w) =
    (case report_failure (failed_at p q 0 n s w) (at t) (at_sys t) of
       Panic \<Rightarrow> Panic
     | Ret fo \<Rightarrow> Ret (fo, Inl (if timed_out t then Protocol ''gateway connect timeout'' else err)))"
  using assms by (simp add: connect_tls_def fail_report_def failed_at_simps)

text \<open>
  The unit tests of the proxy pass when the closed port refuses the connection and no other task
  reports in between: one refused connection is charged to the endpoint, three of them move the
  manager to the second one, and six failures at any instants leave it on one of its endpoints.
\<close>

theorem proxy_unit_tests_pass:
  assumes "tls_connect_endpoint N (proxy_ep ''127.0.0.1'' bad_port) = Ret (Inl err)"
    and "others t1 = id" and "others t2 = id" and "others t3 = id"
  shows "decode_hex32_used_from_endpoint_module_roundtrip
    \<and> connect_tls_reports_failure_on_connection_refused N t1 bad_port
    \<and> real_socks5_flow_switches_endpoint N t1 t2 t3 bad_port good_port
    \<and> steal_handshake_error_path_does_not_touch_failover
    \<and> all_endpoints_in_cooldown_stays_on_current calls"
proof (intro conjI)
  note run = refused_attempt [OF assms(1)] failed_at_report
  show "decode_hex32_used_from_endpoint_module_roundtrip" by code_simp
  show "connect_tls_reports_failure_on_connection_refused N t1 bad_port"
    by (simp add: connect_tls_reports_failure_on_connection_refused_def failed_at_simps run assms(2) word_less_nat_alt)
  show "real_socks5_flow_switches_endpoint N t1 t2 t3 bad_port good_port"
    by (simp add: real_socks5_flow_switches_endpoint_def failed_at_simps run assms(2-4))
  show steal_handshake_error_path_does_not_touch_failover
    by (simp add: steal_handshake_error_path_does_not_touch_failover_def)
  have "failover_good (endpoints (two_ports 1 2)) (foldl failover_exec (Ret (two_ports 1 2)) (map (\<lambda>(t, w). ReportFailure t w) calls))"
    by (rule failover_run.run_inv) (simp add: failover_good_def failover_wf_def failover_new_def two_ports_def)
  then show "all_endpoints_in_cooldown_stays_on_current calls"
    by (auto simp: all_endpoints_in_cooldown_stays_on_current_def failover_good_def failover_wf_def two_ports_def
        failover_new_def split: outcome.splits)
qed

definition plain_attempt :: "nat \<Rightarrow> attempt" where
  "plain_attempt now = \<lparr>timed_out = False, others = id, at = now, at_sys = int now\<rparr>"

theorem proxy_unit_tests_pass_witness:
  "real_socks5_flow_switches_endpoint refusing_net (plain_attempt 1) (plain_attempt 2) (plain_attempt 3) 1080 1081"
proof -
  obtain err where "tls_connect_endpoint refusing_net (proxy_ep ''127.0.0.1'' 1080) = Ret (Inl err)"
    by (simp add: tls_connect_endpoint_def refusing_net_def tls_new_def tls_connect_def)
  from proxy_unit_tests_pass [OF this, of "plain_attempt 1" "plain_attempt 2" "plain_attempt 3" 1081 "[]"]
  show ?thesis by (simp add: plain_attempt_def)
qed

end
