(* ===== verification/Tests_Integration.thy ===== *)
theory Tests_Integration
  imports Tests_Protocol Tests_Proxy Ffi_Memory
begin

text \<open>
  Integration tests of \<open>transport-core/tests\<close> replayed on the model: the rekey desynchronisation
  tests (\<open>rekey_desync_test.rs\<close>), the contract tests of the FFI (\<open>ffi_contract.rs\<close>) and the SOCKS5
  tests (\<open>failover_integration.rs\<close>). Generated keys and prefixes, free ports, the deserializer and the
  network are parameters.
\<close>

section \<open>Rekey desynchronisation\<close>

text \<open>
  The first part that two of the tests share: the server sends the rekey message, the client reads
  it, writes its acknowledgement under the old key and starts its rekey.
\<close>

definition rekey_begun ::
  "aead \<Rightarrow> bytes \<Rightarrow> bytes \<Rightarrow> bytes \<Rightarrow> (frame_codec \<times> frame_codec \<times> bytes \<times> bytes \<times> u8 \<times> bytes) option" where
  "rekey_begun A key1 key2 prefix =
     (let client = codec_new key1 prefix prefix 0; server = codec_new key1 prefix prefix 0; m = length REKEY_INIT_MAGIC in
      case send_rekey_init A server vec_writer 1 key2 of
        (server, w, Inl e) \<Rightarrow> None
      | (server, w, Inr _) \<Rightarrow>
          (case rd A client (wbuf w) of
             (client, Inl e) \<Rightarrow> None
           | (client, Inr frame) \<Rightarrow>
               let new_kid = frame ! m; new_key = take 32 (drop (m + 1) frame) in
               (case wr A client (REKEY_ACK_MAGIC @ [new_kid]) of
                  None \<Rightarrow> None
                | Some (client, ack_buf) \<Rightarrow>
                    Some (server, start_rekey client new_kid new_key, frame, ack_buf, new_kid, new_key))))"

definition rekey_ack_lost_client_completes_server_pending :: "aead \<Rightarrow> bytes \<Rightarrow> bytes \<Rightarrow> bytes \<Rightarrow> bool" where
  "rekey_ack_lost_client_completes_server_pending A key1 key2 prefix \<longleftrightarrow>
     (case rekey_begun A key1 key2 prefix of
        None \<Rightarrow> False
      | Some (server, client, frame, ack_buf, new_kid, new_key) \<Rightarrow>
          take (length REKEY_INIT_MAGIC) frame = REKEY_INIT_MAGIC \<and>
          (case wr A client (bytes_of ''data-under-new-key'') of
             None \<Rightarrow> False
           | Some (client, data_buf) \<Rightarrow> snd (rd A server data_buf) = Inl (UnknownKeyId 1)))"

definition rekey_both_sides_converge_after_ack :: "aead \<Rightarrow> bytes \<Rightarrow> bytes \<Rightarrow> bytes \<Rightarrow> bool" where
  "rekey_both_sides_converge_after_ack A key1 key2 prefix \<longleftrightarrow>
     (case rekey_begun A key1 key2 prefix of
        None \<Rightarrow> False
      | Some (server, client, frame, ack_buf, new_kid, new_key) \<Rightarrow>
          (case server_handle_rekey_ack A server (cursor ack_buf) new_kid new_key of
             (server, r, Inl e) \<Rightarrow> False
           | (server, r, Inr _) \<Rightarrow>
               (case wr A client (bytes_of ''after-rekey-data'') of
                  None \<Rightarrow> False
                | Some (client, data_buf) \<Rightarrow> snd (rd A server data_buf) = Inr (bytes_of ''after-rekey-data''))))"

definition rekey_auto_complete_clears_overlap :: "aead \<Rightarrow> bytes \<Rightarrow> bytes \<Rightarrow> bytes \<Rightarrow> bool" where
  "rekey_auto_complete_clears_overlap A key1 key2 prefix \<longleftrightarrow>
     (let codec = start_rekey (codec_new key1 prefix prefix 0) 1 key2 in
      is_rekey_overlap codec \<and>
      (case echo_frames A (unat REKEY_OVERLAP_FRAMES) codec of
         None \<Rightarrow> False
       | Some codec \<Rightarrow>
           \<not> is_rekey_overlap codec \<and>
           (case wr A (codec_new key1 prefix prefix 0) (bytes_of ''old'') of
              None \<Rightarrow> False
            | Some (_, old_buf) \<Rightarrow>
                (case snd (rd A codec old_buf) of
                   Inl (UnknownKeyId k) \<Rightarrow> k = 0 | Inl (ReplayDetected n) \<Rightarrow> True | _ \<Rightarrow> False))))"

context working_cipher
begin

lemma rekey_begun_ok:
  assumes "length key2 = 32"
  obtains server client ack where
    "rekey_begun A key1 key2 p = Some (server, client, REKEY_INIT_MAGIC @ [1] @ key2, ack, 1, key2)"
    "server = (codec_new key1 p p 0)\<lparr>send_counter := 1\<rparr>"
    "ack = sealed A (codec_new key1 p p 0) (REKEY_ACK_MAGIC @ [1])" "send_counter client = 1" "send_prefix client = p"
    "kid (cstate client) = 1" "cipher (cstate client) = key2"
proof -
  let ?c = "codec_new key1 p p 0" and ?msg = "REKEY_INIT_MAGIC @ [1] @ key2"
  let ?s = "?c\<lparr>send_counter := 1\<rparr>"
  let ?r = "?c\<lparr>recv_replay := fst (replay_check (recv_replay ?c) 0), cstate := count_overlap (cstate ?c)\<rparr>"
  have len: "length ?msg \<le> MAX_PAYLOAD" using assms by (simp add: MAX_PAYLOAD_def)
  have "send_rekey_init A ?c vec_writer 1 key2 = (?s, vec_writer\<lparr>wbuf := wbuf vec_writer @ sealed A ?c ?msg\<rparr>, Inr ())"
    using write_frame_ok [OF correct len _ healthy_vec_writer, of ?c] by (simp add: send_rekey_init_def)
  moreover have "rd A ?c (sealed A ?c ?msg) = (?r, Inr ?msg)"
    using rd_ok [OF len, of ?c ?c] linked_can_open [OF self_link] by simp
  moreover have "wr A ?r (REKEY_ACK_MAGIC @ [1]) = Some (?r\<lparr>send_counter := 1\<rparr>, sealed A ?c (REKEY_ACK_MAGIC @ [1]))"
    using wr_ok [of "REKEY_ACK_MAGIC @ [1]" ?r] by (simp add: sealed_def)
  ultimately have "rekey_begun A key1 key2 p = Some (?s, start_rekey (?r\<lparr>send_counter := 1\<rparr>) 1 key2, ?msg,
      sealed A ?c (REKEY_ACK_MAGIC @ [1]), 1, key2)"
    using assms by (simp add: rekey_begun_def Let_def vec_writer_def nth_append)
  then show thesis by (rule that) (simp_all add: start_rekey_def codec_new_def)
qed

lemma ack_lost_passes: "length key2 = 32 \<Longrightarrow> rekey_ack_lost_client_completes_server_pending A key1 key2 p"
proof (erule rekey_begun_ok [of key2 key1 p])
  fix server client ack
  let ?m = "bytes_of ''data-under-new-key''"
  assume b: "rekey_begun A key1 key2 p = Some (server, client, REKEY_INIT_MAGIC @ [1] @ key2, ack, 1, key2)"
    and s: "server = (codec_new key1 p p 0)\<lparr>send_counter := 1\<rparr>" and c: "send_counter client = 1" "kid (cstate client) = 1"
  have "snd (rd A server (sealed A client ?m)) = Inl (UnknownKeyId 1)"
    using rd_unknown_kid [of ?m client server] c by (simp add: s select_key_def) (simp add: codec_new_def)
  then show ?thesis
    using b wr_ok [of ?m client] c by (simp add: rekey_ack_lost_client_completes_server_pending_def)
qed

lemma converge_passes: "length key2 = 32 \<Longrightarrow> rekey_both_sides_converge_after_ack A key1 key2 p"
proof (erule rekey_begun_ok [of key2 key1 p])
  fix server client ack
  let ?m = "bytes_of ''after-rekey-data''" and ?c = "codec_new key1 p p 0"
  assume b: "rekey_begun A key1 key2 p = Some (server, client, REKEY_INIT_MAGIC @ [1] @ key2, ack, 1, key2)"
    and s: "server = ?c\<lparr>send_counter := 1\<rparr>" and a: "ack = sealed A ?c (REKEY_ACK_MAGIC @ [1])"
    and c: "send_counter client = 1" "send_prefix client = p" "kid (cstate client) = 1" "cipher (cstate client) = key2"
  let ?r = "server\<lparr>recv_replay := fst (replay_check (recv_replay server) 0), cstate := count_overlap (cstate server)\<rparr>"
  have "can_open ?c server" by (simp add: s can_open_def select_key_def) (simp add: codec_new_def)
  then have "read_frame A server (cursor ack) = (?r, (cursor ack)\<lparr>rbuf := []\<rparr>, Inr (REKEY_ACK_MAGIC @ [1]))"
    using read_sealed [OF correct, of "REKEY_ACK_MAGIC @ [1]" ?c server "cursor ack" "[]"] by (simp add: a cursor_def)
  then have ack: "server_handle_rekey_ack A server (cursor ack) 1 key2 =
      (start_rekey ?r 1 key2, (cursor ack)\<lparr>rbuf := []\<rparr>, Inr ())"
    by (simp add: server_handle_rekey_ack_def nth_append)
  have "can_open client (start_rekey ?r 1 key2)"
    using c by (simp add: can_open_def select_key_def start_rekey_def s codec_new_def replay_new_def replay_check_def Let_def)
  then have "snd (rd A (start_rekey ?r 1 key2) (sealed A client ?m)) = Inr ?m"
    using rd_ok [of ?m client "start_rekey ?r 1 key2"] c by simp
  then show ?thesis
    using b ack wr_ok [of ?m client] c by (simp add: rekey_both_sides_converge_after_ack_def)
qed

lemma clears_overlap_passes: "rekey_auto_complete_clears_overlap A key1 key2 p"
proof -
  let ?c = "start_rekey (codec_new key1 p p 0) 1 key2" and ?w = "codec_new key1 p p 0" and ?m = "bytes_of ''old''"
  have n: "unat REKEY_OVERLAP_FRAMES = 256" by (simp add: REKEY_OVERLAP_FRAMES_def)
  have st: "prev (cstate ?c) = Some (0, key1)" "frames_since_rekey (cstate ?c) = 0" "send_counter ?c = 0" "kid (cstate ?c) = 1"
    by (simp_all add: start_rekey_def codec_new_def)
  have "unat (send_counter ?c) + 256 \<le> unat REKEY_THRESHOLD" by (simp add: st REKEY_THRESHOLD_def)
  from echo_frames_count [OF rekey_link this] obtain c' where
    c': "echo_frames A 256 ?c = Some c'" "cstate c' = (count_overlap ^^ 256) (cstate ?c)" by blast
  have prev: "prev (cstate c') = None" using count_overlap_iter [of "cstate ?c" "(0, key1)" 256] st c'(2) by simp
  have "kid ((count_overlap ^^ k) x) = kid x" for k x by (induction k) simp_all
  then have key: "select_key (cstate c') (kid (cstate ?w)) = None"
    using prev c'(2) st(4) by (simp add: select_key_def) (simp add: codec_new_def)
  have kid: "kid (cstate ?w) = 0" by (simp add: codec_new_def)
  have "snd (rd A c' (sealed A ?w ?m)) = Inl (UnknownKeyId 0) \<or> snd (rd A c' (sealed A ?w ?m)) = Inl (ReplayDetected 0)"
    using rd_unknown_kid [of ?m ?w c'] rd_replayed [of ?m ?w c'] key kid by (cases "snd (replay_check (recv_replay c') 0)") auto
  then show ?thesis
    unfolding rekey_auto_complete_clears_overlap_def n Let_def c'(1)
    using prev st(1) wr_ok [of ?m ?w] by (auto simp: is_rekey_overlap_def)
qed

end

text \<open>
  The rekey desynchronisation tests pass, for every draw of keys and prefixes and every working
  cipher. The first one asserts the opposite of what its file announces: while the acknowledgement
  is lost, a legitimate frame of the client under the new key is refused with an unknown key.
\<close>

theorem rekey_desync_tests_pass:
  assumes "aead_correct A" and "length key2 = 32"
  shows "rekey_ack_lost_client_completes_server_pending A key1 key2 p \<and> rekey_both_sides_converge_after_ack A key1 key2 p
    \<and> rekey_auto_complete_clears_overlap A key1 key2 p"
proof -
  have W: "working_cipher A" using assms(1) by (rule working_cipher.intro)
  show ?thesis
    using working_cipher.ack_lost_passes [OF W assms(2)] working_cipher.converge_passes [OF W assms(2)]
      working_cipher.clears_overlap_passes [OF W] by blast
qed

theorem rekey_desync_tests_pass_witness:
  "rekey_ack_lost_client_completes_server_pending toy_aead [1] (replicate 32 2) (replicate 8 3)"
  using rekey_desync_tests_pass [OF toy_aead_correct, of "replicate 32 2" "[1]" "replicate 8 3"] by simp

section \<open>The contract tests of the FFI\<close>

text \<open>
  The configuration of the tests and what they rely on of the deserializer. A state is tested after
  the stop that each test begins with; \<open>busy\<close> are the ports that another program holds.
\<close>

definition ffi_endpoint :: endpoint_config where
  "ffi_endpoint = \<lparr>host = bytes_of ''127.0.0.1'', port = 8443, sni = bytes_of ''cloudflare.com'',
     server_pub = bytes_of (concat (replicate 32 ''aa'')), psk = bytes_of (concat (replicate 32 ''bb''))\<rparr>"

definition ffi_json :: bytes where
  "ffi_json = bytes_of (''[{\"host\":\"127.0.0.1\",\"port\":8443,\"sni\":\"cloudflare.com\",\"server_pub\":\"''
     @ concat (replicate 32 ''aa'') @ ''\",\"psk\":\"'' @ concat (replicate 32 ''bb'') @ ''\"}]'')"

definition reads_ffi_json :: "(bytes \<Rightarrow> string + endpoint_config list) \<Rightarrow> bool" where
  "reads_ffi_json J \<longleftrightarrow> J ffi_json = Inr [ffi_endpoint] \<and> isl (J (bytes_of ''{not valid json'')) \<and> J (bytes_of ''[]'') = Inr []"

definition ffi_args :: "u16 \<Rightarrow> bytes option \<Rightarrow> start_args" where
  "ffi_args p json = \<lparr>arg_port = p, arg_json = json, arg_key = Some (replicate 32 0)\<rparr>"

definition held :: "(u16 \<Rightarrow> bool) \<Rightarrow> lib_state \<Rightarrow> u16 \<Rightarrow> bool" where
  "held busy s p \<longleftrightarrow> busy p \<or> \<not> port_free s p"

definition start_at :: "(bytes \<Rightarrow> string + endpoint_config list) \<Rightarrow> (u16 \<Rightarrow> bool) \<Rightarrow> nat \<Rightarrow> u16 \<Rightarrow> lib_state \<Rightarrow> lib_state \<times> int" where
  "start_at J busy w p s = transport_start J (held busy s) w (ffi_args p (Some ffi_json)) s"

abbreviation nobody :: "u16 \<Rightarrow> bool" where
  "nobody \<equiv> \<lambda>_. False"

definition valid_json_actually_binds_and_returns_zero where
  "valid_json_actually_binds_and_returns_zero J w p s \<longleftrightarrow>
     (case start_at J nobody w p (fst (transport_stop s)) of (s, ret) \<Rightarrow> ret = 0 \<and> \<not> port_free s p)"

definition start_fails_when_port_already_in_use where
  "start_fails_when_port_already_in_use J w p s \<longleftrightarrow> snd (start_at J (\<lambda>q. q = p) w p (fst (transport_stop s))) = -1"

definition malformed_json_returns_minus_one where
  "malformed_json_returns_minus_one J w p s \<longleftrightarrow>
     snd (transport_start J nobody w (ffi_args p (Some (bytes_of ''{not valid json''))) (fst (transport_stop s))) = -1"

definition empty_array_returns_minus_one where
  "empty_array_returns_minus_one J w p s \<longleftrightarrow>
     snd (transport_start J nobody w (ffi_args p (Some (bytes_of ''[]''))) (fst (transport_stop s))) = -1"

definition null_endpoints_json_returns_minus_one where
  "null_endpoints_json_returns_minus_one J w p s \<longleftrightarrow>
     snd (transport_start J nobody w (ffi_args p None) (fst (transport_stop s))) = -1"

definition null_key_bytes_returns_minus_one where
  "null_key_bytes_returns_minus_one J w p s \<longleftrightarrow>
     snd (transport_start J nobody w \<lparr>arg_port = p, arg_json = Some ffi_json, arg_key = None\<rparr> (fst (transport_stop s))) = -1"

definition double_start_without_stop_returns_minus_one where
  "double_start_without_stop_returns_minus_one J w p v q s \<longleftrightarrow>
     (case start_at J nobody w p (fst (transport_stop s)) of (s, ret1) \<Rightarrow> ret1 = 0 \<and> snd (start_at J nobody v q s) = -1)"

definition get_status_before_start_is_running_false where
  "get_status_before_start_is_running_false s \<longleftrightarrow> transport_get_status (fst (transport_stop s)) = Some NotRunning"

definition get_status_after_start_has_full_fields where
  "get_status_after_start_has_full_fields J w p s \<longleftrightarrow>
     (case start_at J nobody w p (fst (transport_stop s)) of
        (s, ret) \<Rightarrow> ret = 0 \<and>
          (case transport_get_status s of Some (RunningAt h q n t) \<Rightarrow> h = bytes_of ''127.0.0.1'' \<and> q = 8443 | _ \<Rightarrow> False))"

definition stop_releases_port_for_next_start where
  "stop_releases_port_for_next_start J w p s \<longleftrightarrow>
     (case start_at J nobody w p (fst (transport_stop s)) of
        (s, ret) \<Rightarrow> ret = 0 \<and>
          (case transport_stop s of (s, ret_stop) \<Rightarrow> ret_stop = 0 \<and> port_free s p \<and> transport_get_status s = Some NotRunning))"

definition stop_is_idempotent_when_not_running where
  "stop_is_idempotent_when_not_running s \<longleftrightarrow> snd (transport_stop (fst (transport_stop s))) = 0"

definition restart_after_stop_succeeds_on_same_port where
  "restart_after_stop_succeeds_on_same_port J w p v s \<longleftrightarrow>
     (case start_at J nobody w p (fst (transport_stop s)) of
        (s, ret) \<Rightarrow> ret = 0 \<and>
          (case transport_stop s of (s, ret_stop) \<Rightarrow> ret_stop = 0 \<and> snd (start_at J nobody v p s) = 0))"

definition version_does_not_require_free_and_is_stable :: bool where
  "version_does_not_require_free_and_is_stable \<longleftrightarrow> c_str transport_version = bytes_of ''0.2.0''"

definition free_string_on_null_is_noop :: "c_heap \<Rightarrow> bool" where
  "free_string_on_null_is_noop h \<longleftrightarrow> transport_free_string 0 h = Fine h"

definition bind_failure_does_not_leave_dangling_slot where
  "bind_failure_does_not_leave_dangling_slot J w p v q s \<longleftrightarrow>
     (case start_at J (\<lambda>x. x = p) w p (fst (transport_stop s)) of
        (s, ret1) \<Rightarrow> ret1 = -1 \<and> snd (start_at J (\<lambda>x. x = p) v q s) = 0)"

lemmas ffi_test_defs = valid_json_actually_binds_and_returns_zero_def start_fails_when_port_already_in_use_def
  malformed_json_returns_minus_one_def empty_array_returns_minus_one_def null_endpoints_json_returns_minus_one_def
  null_key_bytes_returns_minus_one_def double_start_without_stop_returns_minus_one_def
  get_status_before_start_is_running_false_def get_status_after_start_has_full_fields_def
  stop_releases_port_for_next_start_def stop_is_idempotent_when_not_running_def
  restart_after_stop_succeeds_on_same_port_def version_does_not_require_free_and_is_stable_def
  free_string_on_null_is_noop_def bind_failure_does_not_leave_dangling_slot_def

lemma ffi_start_checks:
  assumes "reads_ffi_json J" and "active s = None"
  shows "p \<noteq> 0 \<Longrightarrow> start_check J (ffi_args p (Some ffi_json)) s = Some [ffi_endpoint]"
    and "start_check J (ffi_args p (Some (bytes_of ''{not valid json''))) s = None"
    and "start_check J (ffi_args p (Some (bytes_of ''[]''))) s = None"
proof -
  have "endpoint_ok ffi_endpoint" by code_simp
  then have "parse_endpoints J ffi_json = Inr [ffi_endpoint]"
    using assms(1) by (simp add: parse_endpoints_Inr endpoints_ok_def reads_ffi_json_def)
  moreover have "utf8_valid ffi_json" by code_simp
  ultimately show "start_check J (ffi_args p (Some ffi_json)) s = Some [ffi_endpoint]" if "p \<noteq> 0"
    using that assms(2) by (simp add: start_check_def ffi_args_def)
  show "start_check J (ffi_args p (Some (bytes_of ''{not valid json''))) s = None"
      "start_check J (ffi_args p (Some (bytes_of ''[]''))) s = None"
    using assms(1) by (auto simp: start_check_def ffi_args_def parse_endpoints_def reads_ffi_json_def isl_def)
qed

lemma start_refused_running: "active s \<noteq> None \<Longrightarrow> transport_start J taken w a s = (s, -1)"
  by (simp add: transport_start_def start_check_def split: option.split)

lemma start_at_free:
  assumes "reads_ffi_json J" and "active s = None" and "p \<noteq> 0" and "port_free s p" and "\<not> busy p"
  shows "start_at J busy w p s = (s\<lparr>active := Some \<lparr>rt_failover = failover_new [ffi_endpoint], rt_worker = w\<rparr>,
      live := (live s)(w \<mapsto> \<lparr>wk_port = p, wk_bound = True\<rparr>), waiting := (waiting s)(w := None)\<rparr>, 0)"
  using ffi_start_checks(1) [OF assms(1-3)] assms(4,5)
  by (cases s) (simp add: start_at_def transport_start_def held_def start_finish_def ffi_args_def)

lemma start_at_busy:
  assumes "reads_ffi_json J" and "active s = None" and "p \<noteq> 0" and "busy p"
  shows "start_at J busy w p s = (s\<lparr>waiting := (waiting s)(w := None)\<rparr>, -1)"
  using ffi_start_checks(1) [OF assms(1-3)] assms(4)
  by (simp add: start_at_def transport_start_def held_def start_finish_def ffi_args_def)

lemma stopped: "active (fst (transport_stop s)) = None" "snd (transport_stop s) = 0"
  by (simp_all add: transport_stop_def guarded_def split: option.split)

text \<open>
  The contract tests of the FFI pass from every state of the library, for free ports \<open>p\<close> and \<open>q\<close>, unused
  worker threads and every deserializer that reads the configuration of the tests.
\<close>

theorem ffi_contract_tests_pass:
  fixes s
  defines "t \<equiv> fst (transport_stop s)"
  assumes J: "reads_ffi_json J" and ports: "p \<noteq> 0" "q \<noteq> 0" "p \<noteq> q" "port_free t p" "port_free t q" and w: "live t w = None"
  shows "valid_json_actually_binds_and_returns_zero J w p s \<and> start_fails_when_port_already_in_use J w p s
    \<and> malformed_json_returns_minus_one J w p s \<and> empty_array_returns_minus_one J w p s
    \<and> null_endpoints_json_returns_minus_one J w p s \<and> null_key_bytes_returns_minus_one J w p s
    \<and> double_start_without_stop_returns_minus_one J w p v q s \<and> get_status_before_start_is_running_false s
    \<and> get_status_after_start_has_full_fields J w p s \<and> stop_releases_port_for_next_start J w p s
    \<and> stop_is_idempotent_when_not_running s \<and> restart_after_stop_succeeds_on_same_port J w p v s
    \<and> version_does_not_require_free_and_is_stable \<and> free_string_on_null_is_noop h
    \<and> bind_failure_does_not_leave_dangling_slot J w p v q s"
proof -
  have off: "active t = None" by (simp add: t_def stopped)
  let ?k = "\<lparr>wk_port = p, wk_bound = True\<rparr>" and ?rt = "\<lparr>rt_failover = failover_new [ffi_endpoint], rt_worker = w\<rparr>"
  let ?s = "t\<lparr>active := Some ?rt, live := (live t)(w \<mapsto> ?k), waiting := (waiting t)(w := None)\<rparr>"
  have run: "start_at J nobody w p t = (?s, 0)" by (rule start_at_free) (use J off ports in simp_all)
  have fail: "start_at J (\<lambda>x. x = p) w p t = (t\<lparr>waiting := (waiting t)(w := None)\<rparr>, -1)"
    by (rule start_at_busy) (use J off ports in simp_all)
  have again: "snd (start_at J (\<lambda>x. x = p) v q (t\<lparr>waiting := (waiting t)(w := None)\<rparr>)) = 0"
    using start_at_free [OF J, of "t\<lparr>waiting := (waiting t)(w := None)\<rparr>" q "\<lambda>x. x = p" v] off ports
    by (simp add: port_free_def)
  have stop: "transport_stop ?s = (t\<lparr>active := None, live := live t, waiting := (waiting t)(w := None)\<rparr>, 0)"
    using w by (cases t) (simp add: transport_stop_def guarded_def fun_upd_idem)
  have restart: "snd (start_at J nobody v p (t\<lparr>active := None, live := live t, waiting := (waiting t)(w := None)\<rparr>)) = 0"
    using start_at_free [OF J, of "t\<lparr>active := None, live := live t, waiting := (waiting t)(w := None)\<rparr>" p nobody v] ports
    by (simp add: port_free_def)
  have status: "transport_get_status ?s = Some (RunningAt (bytes_of ''127.0.0.1'') 8443 0 0)"
    by (simp add: transport_get_status_def guarded_def failover_new_def current_endpoint_def failure_count_def
        last_switch_unix_ms_def endpoint_state_fresh_def ffi_endpoint_def)
  have bound: "\<not> port_free ?s p" by (auto simp: port_free_def)
  have double: "snd (start_at J nobody v q ?s) = -1" by (simp add: start_at_def start_refused_running)
  have free: "port_free (t\<lparr>active := None, live := live t, waiting := (waiting t)(w := None)\<rparr>) p" using ports(4) by (simp add: port_free_def)
  have off_status: "transport_get_status t = Some NotRunning" using off by (simp add: transport_get_status_def guarded_def)
  have version: "c_str transport_version = bytes_of ''0.2.0''" by code_simp
  have refused: "snd (transport_start J nobody w a t) = -1" if "start_check J a t = None" for a using that by (simp add: transport_start_def)
  note none = ffi_start_checks(2,3) [OF J off, of p]
  have null: "start_check J (ffi_args p None) t = None"
      "start_check J \<lparr>arg_port = p, arg_json = Some ffi_json, arg_key = None\<rparr> t = None" by (simp_all add: start_check_def ffi_args_def)
  show ?thesis
    unfolding ffi_test_defs t_def [symmetric] run fail prod.case stop
    using again restart status bound double free off_status version stopped(2) [of t] refused [OF none(1)] refused [OF none(2)]
      refused [OF null(1)] refused [OF null(2)]
    by (simp add: transport_get_status_def guarded_def transport_free_string_def)
qed

definition ffi_reader :: "bytes \<Rightarrow> string + endpoint_config list" where
  "ffi_reader json = (if json = ffi_json then Inr [ffi_endpoint] else if json = bytes_of ''[]'' then Inr [] else Inl ''expected value'')"

theorem ffi_contract_tests_pass_witness:
  "restart_after_stop_succeeds_on_same_port ffi_reader 0 1080 1 \<lparr>active = None, live = Map.empty, waiting = Map.empty\<rparr>"
proof -
  let ?s = "\<lparr>active = None, live = Map.empty, waiting = Map.empty\<rparr> :: lib_state"
  have "reads_ffi_json ffi_reader" by code_simp
  moreover have "fst (transport_stop ?s) = ?s" by (simp add: transport_stop_def guarded_def)
  ultimately show ?thesis
    using ffi_contract_tests_pass [of ffi_reader 1080 1081 ?s 0 1 Map.empty] by (simp add: port_free_def)
qed

section \<open>The SOCKS5 tests\<close>

definition dummy_endpoint :: "string \<Rightarrow> u16 \<Rightarrow> endpoint_config" where
  "dummy_endpoint h p = \<lparr>host = bytes_of h, port = p, sni = bytes_of ''cloudflare.com'',
     server_pub = bytes_of (concat (replicate 32 ''aa'')), psk = bytes_of (concat (replicate 32 ''bb''))\<rparr>"

text \<open>
  A client that sends its greeting and request and reads the method selection and the ten bytes of
  the reply; the result is the reply code, or \<open>None\<close> where the stream ends early.
\<close>

definition reply_code :: "bytes \<Rightarrow> u8 option" where
  "reply_code bs = (if 12 \<le> length bs \<and> take 2 bs = [0x05, 0x00] then Some (bs ! 3) else None)"

definition socks5_connect ::
  "std_fmt \<Rightarrow> 'tcp net \<Rightarrow> aead \<Rightarrow> kex \<Rightarrow> attempt \<Rightarrow> session_draw \<Rightarrow> string \<Rightarrow> u16 \<Rightarrow> failover_manager \<Rightarrow> (failover_manager \<times> u8 option) outcome" where
  "socks5_connect F N A K t d target_host target_port fo =
     (case handle_connection F N A K t d
             (sample_client (socks_hello [0] @ socks_connect_domain (bytes_of target_host) target_port)) fo of
        Panic \<Rightarrow> Panic
      | Ret (fo, c, res) \<Rightarrow> Ret (fo, reply_code (wbuf (out c))))"

fun socks5_connects ::
  "std_fmt \<Rightarrow> 'tcp net \<Rightarrow> aead \<Rightarrow> kex \<Rightarrow> session_draw \<Rightarrow> attempt list \<Rightarrow> failover_manager \<Rightarrow> (failover_manager \<times> bool) outcome" where
  "socks5_connects F N A K d [] fo = Ret (fo, True)"
| "socks5_connects F N A K d (t # ts) fo =
     (case socks5_connect F N A K t d ''example.com'' 80 fo of
        Panic \<Rightarrow> Panic
      | Ret (fo, r) \<Rightarrow> (case socks5_connects F N A K d ts fo of Panic \<Rightarrow> Panic | Ret (fo, ok) \<Rightarrow> Ret (fo, r \<noteq> None \<and> ok)))"

definition socks5_client_triggers_failover ::
  "std_fmt \<Rightarrow> 'tcp net \<Rightarrow> aead \<Rightarrow> kex \<Rightarrow> session_draw \<Rightarrow> attempt \<Rightarrow> attempt \<Rightarrow> attempt \<Rightarrow> u16 \<Rightarrow> u16 \<Rightarrow> bool" where
  "socks5_client_triggers_failover F N A K d t1 t2 t3 bad_port good_port \<longleftrightarrow>
     (let fo = failover_new [dummy_endpoint ''127.0.0.1'' bad_port, dummy_endpoint ''127.0.0.1'' good_port] in
      at_port bad_port fo \<and>
      (case socks5_connects F N A K d [t1, t2, t3] fo of Ret (fo, ok) \<Rightarrow> ok \<and> at_port good_port fo | Panic \<Rightarrow> False))"

definition socks5_rejects_non_connect_command ::
  "std_fmt \<Rightarrow> 'tcp net \<Rightarrow> aead \<Rightarrow> kex \<Rightarrow> attempt \<Rightarrow> session_draw \<Rightarrow> u16 \<Rightarrow> bool" where
  "socks5_rejects_non_connect_command F N A K t d p \<longleftrightarrow>
     (case handle_connection F N A K t d (sample_client ([0x05, 0x01, 0x00] @ [0x05, 0x02, 0x00, 0x01, 127, 0, 0, 1, 0, 80]))
             (failover_new [dummy_endpoint ''127.0.0.1'' p]) of
        Panic \<Rightarrow> False
      | Ret (fo, c, res) \<Rightarrow> reply_code (wbuf (out c)) = Some 0x07)"

definition socks5_rejects_connection_without_no_auth_method ::
  "std_fmt \<Rightarrow> 'tcp net \<Rightarrow> aead \<Rightarrow> kex \<Rightarrow> attempt \<Rightarrow> session_draw \<Rightarrow> u16 \<Rightarrow> bool" where
  "socks5_rejects_connection_without_no_auth_method F N A K t d p \<longleftrightarrow>
     (case handle_connection F N A K t d (sample_client [0x05, 0x01, 0x02]) (failover_new [dummy_endpoint ''127.0.0.1'' p]) of
        Panic \<Rightarrow> False
      | Ret (fo, c, res) \<Rightarrow> wbuf (out c) = [0x05, 0xFF])"

lemma rejects_non_connect_passes: "socks5_rejects_non_connect_command F N A K t d p"
  by (simp add: socks5_rejects_non_connect_command_def handle_connection_def socks_request_def sample_client_def cursor_def
      bindE_def failE_def sock_read_def read_exact_def sock_write_def write_all_def vec_writer_def socks_consts socks_reply_def
      reply_code_def)

lemma rejects_no_auth_passes: "socks5_rejects_connection_without_no_auth_method F N A K t d p"
  by (simp add: socks5_rejects_connection_without_no_auth_method_def handle_connection_def socks_request_def sample_client_def
      cursor_def bindE_def failE_def sock_read_def read_exact_def sock_write_def write_all_def vec_writer_def socks_consts)

text \<open>The manager while the first of two endpoints fails.\<close>

definition ends_at :: "endpoint_config \<Rightarrow> endpoint_config \<Rightarrow> nat \<Rightarrow> u32 \<Rightarrow> instant option \<Rightarrow> int option \<Rightarrow> failover_manager" where
  "ends_at a b i n t w = \<lparr>endpoints = [a, b], current_idx = i,
     states = [\<lparr>consecutive_failures = n, last_failure = t\<rparr>, endpoint_state_fresh], last_switch_system_time = w\<rparr>"

lemma ends_at_simps:
  "failover_new [a, b] = ends_at a b 0 0 None None"
  "current_endpoint (ends_at a b 0 n t w) = Ret a" "current_endpoint (ends_at a b (Suc 0) n t w) = Ret b"
  "report_failure (ends_at a b 0 0 t w) now sys = Ret (ends_at a b 0 1 (Some now) w)"
  "report_failure (ends_at a b 0 1 t w) now sys = Ret (ends_at a b 0 2 (Some now) w)"
  "report_failure (ends_at a b 0 2 t w) now sys = Ret (ends_at a b 1 0 (Some now) (Some sys))"
  by (simp_all add: ends_at_def failover_new_def endpoint_state_fresh_def current_endpoint_def report_failure_def Let_def
      FAILURE_THRESHOLD_def word_le_nat_alt try_switch_locked_def upt_rec in_cooldown_def)

lemma refused_connect:
  assumes N: "tls_connect_endpoint N e = Ret (Inl err)" and fo: "current_endpoint fo = Ret e" and t: "others t = id"
    and rep: "report_failure fo (at t) (at_sys t) = Ret fo'"
  shows "socks5_connect F N A K t d ''example.com'' 80 fo = Ret (fo', Some REP_FAILURE)"
proof -
  let ?c = "sample_client (socks_hello [0] @ socks_connect_domain (bytes_of ''example.com'') 80)"
  have u: "utf8_valid (bytes_of ''example.com'')" by code_simp
  have req: "socks_request F ?c = (?c\<lparr>inp := (inp ?c)\<lparr>rbuf := []\<rparr>, out := (out ?c)\<lparr>wbuf := wbuf (out ?c) @ [0x05, 0x00]\<rparr>\<rparr>,
      Inr (bytes_of ''example.com'', 80))"
    by (rule socks_domain_request) (use u in \<open>simp_all add: sample_client_def cursor_def\<close>)
  have "\<exists>e'. connect_tls N t fo = Ret (fo', Inl e')"
    using N fo t rep by (cases "timed_out t") (simp_all add: connect_tls_def fail_report_def)
  then show ?thesis
    using req
    by (auto simp: socks5_connect_def handle_connection_def refuse_def bindE_def failE_def sock_write_def write_all_def
        sample_client_def vec_writer_def reply_code_def socks_reply_def socks_consts)
qed

text \<open>
  The SOCKS5 integration tests pass: a command other than CONNECT is answered with code 7, an offer
  without the method "no authentication" with 0xFF, for every network; and when the first endpoint
  refuses connections and no other task reports in between, three clients each get an answer and
  the manager has moved to the second endpoint.
\<close>

theorem socks5_integration_tests_pass:
  assumes "tls_connect_endpoint N (dummy_endpoint ''127.0.0.1'' bad_port) = Ret (Inl err)"
    and "others t1 = id" and "others t2 = id" and "others t3 = id"
  shows "socks5_client_triggers_failover F N A K d t1 t2 t3 bad_port good_port
    \<and> socks5_rejects_non_connect_command F N A K t1 d bad_port
    \<and> socks5_rejects_connection_without_no_auth_method F N A K t1 d bad_port"
proof (intro conjI rejects_non_connect_passes rejects_no_auth_passes)
  note c = refused_connect [OF assms(1)]
  let ?a = "dummy_endpoint ''127.0.0.1'' bad_port" and ?b = "dummy_endpoint ''127.0.0.1'' good_port"
  have "socks5_connects F N A K d [t1, t2, t3] (ends_at ?a ?b 0 0 None None) =
      Ret (ends_at ?a ?b 1 0 (Some (at t3)) (Some (at_sys t3)), True)"
    by (simp add: c [OF _ assms(2) ends_at_simps(4)] c [OF _ assms(3) ends_at_simps(5)] c [OF _ assms(4) ends_at_simps(6)]
        ends_at_simps)
  then show "socks5_client_triggers_failover F N A K d t1 t2 t3 bad_port good_port"
    by (simp add: socks5_client_triggers_failover_def Let_def ends_at_simps at_port_def del: socks5_connects.simps)
      (simp add: dummy_endpoint_def)
qed

theorem socks5_integration_tests_pass_witness:
  "socks5_client_triggers_failover ascii_fmt refusing_net toy_aead toy_kex sample_draw
     (plain_attempt 1) (plain_attempt 2) (plain_attempt 3) 1080 1081"
proof -
  obtain err where "tls_connect_endpoint refusing_net (dummy_endpoint ''127.0.0.1'' 1080) = Ret (Inl err)"
    by (simp add: tls_connect_endpoint_def refusing_net_def tls_new_def tls_connect_def)
  from socks5_integration_tests_pass [OF this, of "plain_attempt 1" "plain_attempt 2" "plain_attempt 3"]
  show ?thesis by (simp add: plain_attempt_def)
qed

end
