(* ===== verification/Tests_Load.thy ===== *)
theory Tests_Load
  imports Proxy Os_Rng Gateway_Main
begin

text \<open>
  The stress test of the gateway (\<open>gateway/tests/stress_test.rs\<close>): its five classes of clients, how a client's
  run becomes a result, and the verdict over all results. The TLS connection a client gets is a parameter;
  a client that runs into its timeout is marked as such.
\<close>

section \<open>Results and statistics\<close>

datatype client_class = ClassValid | ClassInvalidAuth | ClassReplay | ClassTruncated | ClassSlow

record client_result =
  cr_class :: client_class
  cr_success :: bool
  cr_rejected :: bool
  cr_latency :: nat

record load_stats =
  st_success :: nat
  st_errors :: nat
  st_rejected :: nat
  st_valid_success :: nat
  st_latencies :: "nat list"

definition load_stats_default :: load_stats where
  "load_stats_default = \<lparr>st_success = 0, st_errors = 0, st_rejected = 0, st_valid_success = 0, st_latencies = []\<rparr>"

definition add_error :: "load_stats \<Rightarrow> load_stats" where
  "add_error s = s\<lparr>st_errors := st_errors s + 1\<rparr>"

definition add_rejected :: "load_stats \<Rightarrow> load_stats" where
  "add_rejected s = s\<lparr>st_rejected := st_rejected s + 1\<rparr>"

definition stats_record :: "client_result \<Rightarrow> load_stats \<Rightarrow> load_stats" where
  "stats_record r s =
     (case cr_class r of
        ClassValid \<Rightarrow>
          if cr_success r then s\<lparr>st_success := st_success s + 1, st_valid_success := st_valid_success s + 1,
                                 st_latencies := st_latencies s @ [cr_latency r]\<rparr>
          else if cr_rejected r then add_rejected s else add_error s
      | ClassSlow \<Rightarrow>
          if cr_success r then s\<lparr>st_success := st_success s + 1, st_valid_success := st_valid_success s + 1\<rparr>
          else if cr_rejected r then add_rejected s else add_error s
      | _ \<Rightarrow>
          if cr_rejected r then add_rejected s
          else if cr_success r then s\<lparr>st_success := st_success s + 1\<rparr> else add_error s)"

text \<open>A handle that cannot be joined (\<open>None\<close>) counts as an error.\<close>

definition collect :: "client_result option list \<Rightarrow> load_stats" where
  "collect hs = foldl (\<lambda>s h. case h of None \<Rightarrow> add_error s | Some r \<Rightarrow> stats_record r s) load_stats_default hs"

definition stress_passes :: "nat \<Rightarrow> nat \<Rightarrow> client_result option list \<Rightarrow> bool" where
  "stress_passes num_valid num_slow hs \<longleftrightarrow>
     (let stats = collect hs in st_valid_success stats = num_valid + num_slow \<and> st_errors stats = 0)"

section \<open>The clients\<close>

text \<open>The session of a valid or slow client: handshake, CONNECT frame, acknowledgement.\<close>

definition load_session :: "kex \<Rightarrow> aead \<Rightarrow> os_rng \<Rightarrow> bytes \<Rightarrow> transport_error + reader \<times> writer \<Rightarrow> bool" where
  "load_session K A R server_public tls =
     (case tls of
        Inl e \<Rightarrow> False
      | Inr (r, w) \<Rightarrow>
          (case client_handshake_rng K R server_public TEST_MODE_CLIENT_PSK r w of
             (_, r, w, Inl e) \<Rightarrow> False
           | (_, r, w, Inr a) \<Rightarrow>
               (case write_frame A (codec_new (session_key a) (c2s_prefix a) (s2c_prefix a) 0) w (bytes_of ''CONNECT 127.0.0.1:80'') of
                  (codec, w, Inl e) \<Rightarrow> False
                | (codec, w, Inr _) \<Rightarrow>
                    (case read_frame A codec r of
                       (codec, r, Inl e) \<Rightarrow> False
                     | (codec, r, Inr ack) \<Rightarrow> ack = bytes_of ''OK''))))"

text \<open>The result of a client task, the outer match on its timeout included.\<close>

definition client_valid ::
  "kex \<Rightarrow> aead \<Rightarrow> os_rng \<Rightarrow> bytes \<Rightarrow> transport_error + reader \<times> writer \<Rightarrow> bool \<Rightarrow> nat \<Rightarrow> client_result" where
  "client_valid K A R server_public tls late elapsed =
     \<lparr>cr_class = ClassValid, cr_success = \<not> late \<and> load_session K A R server_public tls, cr_rejected = False, cr_latency = elapsed\<rparr>"

definition client_slow ::
  "kex \<Rightarrow> aead \<Rightarrow> os_rng \<Rightarrow> bytes \<Rightarrow> transport_error + reader \<times> writer \<Rightarrow> bool \<Rightarrow> nat \<Rightarrow> client_result" where
  "client_slow K A R server_public tls late elapsed =
     \<lparr>cr_class = ClassSlow, cr_success = \<not> late \<and> load_session K A R server_public tls, cr_rejected = False, cr_latency = elapsed\<rparr>"

text \<open>
  The client with a random frame in place of its authentication: whether the connection, the write or the
  read fails, and whatever is read, it reports a rejection.
\<close>

definition client_invalid_auth :: "os_rng \<Rightarrow> transport_error + reader \<times> writer \<Rightarrow> bool \<Rightarrow> nat \<Rightarrow> client_result" where
  "client_invalid_auth R tls late elapsed =
     (let rejection = \<lparr>cr_class = ClassInvalidAuth, cr_success = False, cr_rejected = True, cr_latency = elapsed\<rparr> in
      if late then rejection
      else
        case tls of
          Inl e \<Rightarrow> rejection
        | Inr (r, w) \<Rightarrow>
            (case write_all (snd (fill_bytes 80 R)) w of
               (w, Inl e) \<Rightarrow> rejection
             | (w, Inr _) \<Rightarrow> rejection))"

definition TRUNCATED_RECORD :: bytes where
  "TRUNCATED_RECORD = [0x17, 0x03, 0x03, 0x00, 0x20, 0x00, 0x00, 0x00, 0x00]"

definition client_truncated :: "transport_error + reader \<times> writer \<Rightarrow> bool \<Rightarrow> nat \<Rightarrow> client_result" where
  "client_truncated tls late elapsed =
     (let rejection = \<lparr>cr_class = ClassTruncated, cr_success = False, cr_rejected = True, cr_latency = elapsed\<rparr> in
      if late then rejection
      else
        case tls of
          Inl e \<Rightarrow> rejection
        | Inr (r, w) \<Rightarrow>
            (case write_all TRUNCATED_RECORD w of
               (w, Inl e) \<Rightarrow> rejection
             | (w, Inr _) \<Rightarrow> rejection))"

text \<open>
  The client that sends its CONNECT frame twice. The first answer is read and ignored; the second read
  decides. An error on the way, like a timeout, counts as a rejection.
\<close>

definition client_replay ::
  "kex \<Rightarrow> aead \<Rightarrow> os_rng \<Rightarrow> bytes \<Rightarrow> transport_error + reader \<times> writer \<Rightarrow> bool \<Rightarrow> nat \<Rightarrow> client_result" where
  "client_replay K A R server_public tls late elapsed =
     (let result = (\<lambda>rejected. \<lparr>cr_class = ClassReplay, cr_success = False, cr_rejected = rejected, cr_latency = elapsed\<rparr>) in
      if late then result True
      else
        case tls of
          Inl e \<Rightarrow> result True
        | Inr (r, w) \<Rightarrow>
            (case client_handshake_rng K R server_public TEST_MODE_CLIENT_PSK r w of
               (_, r, w, Inl e) \<Rightarrow> result True
             | (_, r, w, Inr a) \<Rightarrow>
                 (case write_frame A (codec_new (session_key a) (c2s_prefix a) (s2c_prefix a) 0) vec_writer (bytes_of ''CONNECT 127.0.0.1:80'') of
                    (codec, fb, Inl e) \<Rightarrow> result True
                  | (codec, fb, Inr _) \<Rightarrow>
                      (case write_all (wbuf fb) w of
                         (w, Inl e) \<Rightarrow> result True
                       | (w, Inr _) \<Rightarrow>
                           (case read_frame A codec r of
                              (codec, r, _) \<Rightarrow>
                                (case write_all (wbuf fb) w of
                                   (w, Inl e) \<Rightarrow> result True
                                 | (w, Inr _) \<Rightarrow> result (isl (snd (snd (read_frame A codec r))))))))))"

section \<open>The verdict\<close>

text \<open>A result that the statistics count as an error.\<close>

definition counts_as_error :: "client_result option \<Rightarrow> bool" where
  "counts_as_error h \<longleftrightarrow> (case h of None \<Rightarrow> True | Some r \<Rightarrow> \<not> cr_success r \<and> \<not> cr_rejected r)"

definition counts_as_valid :: "client_result option \<Rightarrow> bool" where
  "counts_as_valid h \<longleftrightarrow> (case h of None \<Rightarrow> False | Some r \<Rightarrow> cr_class r \<in> {ClassValid, ClassSlow} \<and> cr_success r)"

lemma stats_record_counts:
  "st_errors (stats_record r s) = st_errors s + (if counts_as_error (Some r) then 1 else 0)"
  "st_valid_success (stats_record r s) = st_valid_success s + (if counts_as_valid (Some r) then 1 else 0)"
  by (auto simp: stats_record_def counts_as_error_def counts_as_valid_def add_error_def add_rejected_def split: client_class.split)

lemma collect_snoc: "collect (hs @ [h]) = (case h of None \<Rightarrow> add_error (collect hs) | Some r \<Rightarrow> stats_record r (collect hs))"
  unfolding collect_def by simp

lemma collect_counts:
  "st_errors (collect hs) = length (filter counts_as_error hs) \<and> st_valid_success (collect hs) = length (filter counts_as_valid hs)"
proof (induction hs rule: rev_induct)
  case (snoc h hs)
  then show ?case
  proof (cases h)
    case None
    then show ?thesis using snoc by (simp add: collect_snoc add_error_def counts_as_error_def counts_as_valid_def)
  qed (simp add: collect_snoc stats_record_counts)
qed (simp add: collect_def load_stats_default_def)

lemma rejections_always:
  "counts_as_error (Some (client_invalid_auth R tls late n)) = False" "counts_as_valid (Some (client_invalid_auth R tls late n)) = False"
  "counts_as_error (Some (client_truncated tls late n)) = False" "counts_as_valid (Some (client_truncated tls late n)) = False"
  by (auto simp: counts_as_error_def counts_as_valid_def client_invalid_auth_def client_truncated_def Let_def split: sum.split prod.split)

text \<open>
  The verdict of the stress test is exact for the clients it can judge and blind for the others: it passes
  precisely when as many valid and slow clients succeeded as were started and no result is an error; the
  clients with invalid authentication and with a truncated record never change it, whatever the
  gateway answers them.
\<close>

theorem stress_verdict:
  "(stress_passes num_valid num_slow hs \<longleftrightarrow>
      length (filter counts_as_valid hs) = num_valid + num_slow \<and> (\<forall>h \<in> set hs. \<not> counts_as_error h))
   \<and> stress_passes num_valid num_slow (hs @ [Some (client_invalid_auth R tls late n), Some (client_truncated tls' late' n')])
     = stress_passes num_valid num_slow hs"
  by (simp add: stress_passes_def Let_def collect_counts rejections_always filter_empty_conv)

text \<open>
  A valid client of the stress test runs the session phase of the proxy: it succeeds exactly when \<open>open_session\<close>
  brings a tunnel up for the target \<open>127.0.0.1:80\<close>, with an endpoint that has the test mode's keys and the same
  random draws.
\<close>

theorem load_session_is_proxy_session:
  assumes "decode_hex32 (server_pub e) = Ret (Some spub)" and "decode_hex32 (psk e) = Ret (Some TEST_MODE_CLIENT_PSK)"
    and "draw_secret d = map (rng_source R) [rng_pos R..<rng_pos R + 32]"
    and "draw_c2s d = map (rng_source R) [rng_pos R + 32..<rng_pos R + 40]"
    and "draw_s2c d = map (rng_source R) [rng_pos R + 40..<rng_pos R + 48]"
  shows "load_session K A R spub (Inr (r, w)) \<longleftrightarrow>
    (\<exists>tn. open_session F A K d e (bytes_of ''127.0.0.1'') 80 r w = Ret (SessionUp tn))"
proof -
  have "connect_message (bytes_of ''127.0.0.1'') 80 = bytes_of ''CONNECT 127.0.0.1:80''"
    unfolding connect_message_def by code_simp
  then show ?thesis
    using assms by (auto simp: load_session_def open_session_def client_handshake_draws Let_def split: prod.split sum.split)
qed

end
