(* ===== verification/Spec2Isabelle.thy ===== *)
theory Spec2Isabelle
  imports Tunnel_Delivery Protocol_Integrity Proxy_Liveness Gateway_Tasks Gateway_Promo Ffi_Memory Tests_Core Tests_Endpoint
    Tests_Failover Tests_Gateway Tests_Integration Tests_Load
begin

text \<open>
  A verification development for the Isolated Browser transport: the Rust crate
  \<open>transport-core\<close>, which the application runs as a local SOCKS5 proxy, and the Rust crate
  \<open>gateway\<close>, the server it tunnels to. This theory holds the properties that span both ends;
  the theories below hold one component each.

  \<^bold>\<open>How the program is put together.\<close> The application calls the FFI of \<open>transport-core/src/lib.rs\<close>.
  A start validates the endpoint list (\<open>endpoint.rs\<close>), creates a failover manager
  (\<open>failover.rs\<close>) and runs the proxy (\<open>proxy.rs\<close>). For each local connection the proxy reads a
  SOCKS5 request, connects to the current endpoint with TLS (\<open>tls.rs\<close>), runs the session
  handshake (\<open>steal.rs\<close>), sends a CONNECT frame and then relays in both directions. Frames are
  encrypted, numbered and checked against replays by the codec (\<open>protocol.rs\<close>, \<open>replay.rs\<close>), and
  a token bucket limits the rate (\<open>rate_limiter.rs\<close>). The gateway (\<open>gateway/src/main.rs\<close>) limits
  new connections per address, looks at the first bytes (\<open>tcp_handler.rs\<close>), either passes the
  connection on to a CDN or runs TLS and the handshake, checks the subscription
  (\<open>gateway/src/auth.rs\<close>), connects to the target and relays. Promo codes
  (\<open>gateway/src/promo.rs\<close>) and metrics (\<open>gateway/src/metrics.rs\<close>) stand beside it.

  \<^bold>\<open>Theories and what they show.\<close>
  \<^item> \<open>Prelude\<close>: machine integers, byte strings, panics as \<open>outcome\<close>, and the locales \<open>op_system\<close>
    (components run by sequences of operations), \<open>step_system\<close> (step relations) and
    \<open>refinement_map\<close> (a step relation that refines another) with their rules.
  \<^item> \<open>Transport_Error\<close>, \<open>Streams\<close>, \<open>Rust_Str\<close>: the error type, byte streams with their failures
    (\<open>read_exact\<close>, \<open>write_all\<close>, \<open>flush\<close>) and the string operations of the standard library.
  \<^item> \<open>Replay\<close>: the sliding window refines the unbounded history of accepted counters; the locale
    \<open>replay_guard\<close> states what the codec needs of it.
  \<^item> \<open>Protocol\<close>: the codec and the key store. Round trip of a session, uniqueness of nonces over all
    sequences of operations, delivery at most once and only of authenticated frames, the overlap
    window of a rekey, the behaviour at the rekey threshold, the frame format.
  \<^item> \<open>Protocol_Integrity\<close>: the codec never hands the cipher a key or nonce of a wrong size, from the
    handshakes through the relays; an attacker who controls the stream makes it deliver nothing but
    chunks that were sent, none twice and none more than a window late.
  \<^item> \<open>Key_Exchange\<close>, \<open>Steal\<close>: agreement of the handshake, convergence of the rekey exchange.
  \<^item> \<open>Os_Rng\<close>: the random generator as the code draws from it; with it, no nonce is used twice in a session by
    either side, although both directions share the key.
  \<^item> \<open>Endpoint\<close>, \<open>Failover\<close>: validation accepts exactly the well-formed lists; the manager never
    panics and moves to the first healthy endpoint.
  \<^item> \<open>Tls_Client\<close>, \<open>Rate_Limiter\<close>, \<open>Tcp_Handler\<close>: the pool of server names; the token bucket
    against the locale \<open>token_limiter\<close> (throughput, liveness) and its compare-and-exchange loops under
    interleaving; the ClientHello parser with its panics and the CDN fallback.
  \<^item> \<open>Proxy\<close>, \<open>Proxy_Server\<close>: the SOCKS5 dialogue, which errors count as failures of an endpoint, the
    relay; the accept loop with its tasks cut at the instants where they touch the shared failover
    manager: in every interleaving no task crashes, and a task behaves as the sequential handler does and leaves
    the shared manager as the handler would.
    \<open>Proxy_Liveness\<close>: a sequence of requests tries the endpoints in the order of the list, three times each,
    until the first one that works, and then stays there; after any history, an endpoint that can be reached again
    is found within a bounded number of requests once its cooldown is over.
  \<^item> \<open>Ffi\<close>, \<open>Ffi_Memory\<close>: start, stop and status as functions with their return codes and as a step
    relation, since a start is not atomic (the worker binds, reports, and the call commits in separate steps); a stop makes way for a start on the same port; the C strings over an explicit heap (a caller that obeys the contract never frees what it does not
    own), a worker that ended by itself, two starts at once.
  \<^item> \<open>Gateway_Auth\<close>, \<open>Gateway_Promo\<close>, \<open>Gateway_Limits\<close>, \<open>Gateway_Metrics\<close>, \<open>Gateway_Server\<close>: the
    gateway's key rotation, promo codes, limiters (the server's bucket is an instance of
    \<open>token_limiter\<close> by simulation), counters, and the handling of a connection. \<open>Gateway_Metrics\<close>
    also has the latency summary, on the double arithmetic of \<open>Float64\<close>, and the page of the metrics
    endpoint, from which every counter can be read back.
  \<^item> \<open>Gateway_Main\<close>: the start-up of the gateway (arguments, keys, certificate), the helper
    \<open>examples/compute_pubkey.rs\<close>, and the accept loop with permits, address table and metrics.
    \<open>Gateway_Tasks\<close> puts the loop, the cleanup of the address table and the metrics endpoint side by side: the
    endpoint never disturbs the loop, and clients that stay silent can take every permit.
  \<^item> \<open>Tunnel\<close>: the relays of both ends and the network between them as one step relation, in which
    bytes travel in pieces of any size, a read that the other branch of \<open>select!\<close> interrupts half way loses what
    it had taken, and the target may send anything. As long as no read was interrupted so and the target has
    sent no rekey magic (\<open>ts_intact\<close>), it refines a pair of byte pipes. \<open>Tunnel_Delivery\<close>: in an intact
    tunnel whose relays both run, everything under way is delivered, however the deliveries interleave; the
    number of delivery steps is bounded by the backlog. What an interrupted read and a rekey magic do
    is shown in \<open>Proxy\<close> and in this theory.
  \<^item> \<open>Tests_Core\<close>, \<open>Tests_Endpoint\<close>, \<open>Tests_Failover\<close>, \<open>Tests_Protocol\<close>, \<open>Tests_Proxy\<close>, \<open>Tests_Gateway\<close>: the
    unit tests of both crates, and the two codec fuzz targets, as definitions over the model, and for
    which random draws and which timing of their calls they pass. One never does. \<open>Tests_Integration\<close> has
    those of \<open>transport-core/tests\<close>: lost acknowledgements of a rekey, the FFI contract, SOCKS5. \<open>Tests_Load\<close> has
    the clients and the verdict of the gateway's stress test.
  \<^item> This theory: with a gateway in test mode a browser's request opens a tunnel end to end, whose relays start
    in an initial state of \<open>Tunnel\<close>; a client configured from the gateway's start-up arguments authenticates,
    and is served in test mode (in production the subscription check refuses it, see \<open>Gateway_Server\<close>); and a
    target can inject a rekey message.

  \<^bold>\<open>Parameters.\<close> Code outside the repository is a parameter with its documented behaviour as a
  named hypothesis: the AEAD cipher (\<open>aead_correct\<close>; where its integrity matters, \<open>no_forgery\<close> says of one
  run that every ciphertext opened in it was sealed in it), X25519 and HKDF (\<open>kex_correct\<close>), the comparison
  of \<open>subtle\<close> (equality), the system's random generator, HMAC, hex and
  calendar (\<open>promo_lib_correct\<close>), JWT, serde, rustls and the network. Each hypothesis has an
  instance in the development (\<open>toy_aead\<close>, \<open>toy_kex\<close>, \<open>toy_promo_lib\<close> and others), on which the
  witnesses evaluate. Random values are arguments; \<open>Os_Rng\<close> draws them from the generator.

  \<^bold>\<open>Choices.\<close> Both crates are built in the release profile, so integers wrap; panics are values.
  Locks make single calls atomic; where the sources release a lock between two steps
  (\<open>use_code\<close>, the start of the transport, the compare-and-exchange loops, the failover manager
  during a connection) the model has the steps apart. Loops that may wait for ever take the
  instants of their polls, so that "still waiting" is a value. No fuel is used elsewhere. The
  hypotheses on lengths below \<open>2 ^ 64\<close> exclude the wrap of a 64-bit counter only.

  \<^bold>\<open>Not modelled.\<close> The command line parser (its result is the record \<open>gateway_args\<close>), the decimal
  text of a double (a parameter of \<open>render\<close>), logging, the installation of the cryptography provider and of the
  log filter at the start of \<open>main\<close>, the fuzz target of the handshake (it calls \<open>server_derive_session\<close> with an
  argument missing), the soak, scale and failover load tests of the gateway (they call functions that the crate no longer has
  in that form, and measure the compiled program), the percentiles that the stress test prints, the test
  \<open>get_status_escapes_special_characters_in_host\<close> (it runs \<open>serde_json\<close> only), getters of single fields (they are
  the selectors of the records), the lengths of the timeouts (that a timeout has passed is an event), and the application
  in Dart and Kotlin.
\<close>

section \<open>The two ends together\<close>

text \<open>The answer of the gateway: its ephemeral key and the acknowledgement frame.\<close>

lemma gateway_session_ok:
  assumes K: "kex_correct K" and "length c2s = 8" and "length s2c = 8" and w: "healthy (out c)"
    and buf: "rbuf (inp c) = auth_frame K cs c2s s2c (kx_public K (env_server_key G)) (env_client_psk G) @ rest"
  shows "gateway_session K es G found c m =
    (let c' = c\<lparr>inp := (inp c)\<lparr>rbuf := rest\<rparr>, out := (out c)\<lparr>wbuf := wbuf (out c) @ kx_public K es\<rparr>\<rparr> in
     (m, case connection_claims G found (kx_public K cs) of
           Some cl \<Rightarrow> Serve c' (codec_new (kx_hkdf K (kx_dh K es (kx_public K cs)) SESSION_INFO) s2c c2s 0) cl
         | None \<Rightarrow> Rejected (send_unified_error_tls c') AuthFailed))"
proof -
  note kx = kex_correctD [OF K]
  let ?tok = "auth_token_for K (kx_dh K cs (kx_public K (env_server_key G))) (env_client_psk G)"
  have "read_auth_frame (inp c) = ((inp c)\<lparr>rbuf := rest\<rparr>, Inr (kx_public K cs, ?tok, c2s, s2c))"
    using assms(2,3) buf by (intro read_auth_frame_parts kx) (simp_all add: auth_frame_def auth_token_for_def kx)
  moreover have "server_derive_session K es (env_server_key G) (kx_public K cs) ?tok (env_client_psk G)
      = Some (kx_public K es, kx_hkdf K (kx_dh K es (kx_public K cs)) SESSION_INFO)"
    by (simp add: server_derive_session_def Let_def kx(1) [of "env_server_key G" cs])
  ultimately show ?thesis
    using w by (simp add: gateway_session_def Let_def stream_simps split: option.split)
qed

text \<open>The whole handler, for a first record that the parser does not choke on.\<close>

lemma handle_tcp_session:
  assumes "hello \<noteq> []" and "extract_auth_from_clienthello hello = Ret token" and "test_mode G \<or> token \<noteq> None"
    and "tls_accept G hello = Inr c"
  shows "handle_tcp_connection (Inr hello) K es G m = Ret (gateway_session K es G (token \<noteq> None) c m)"
  using assms by (cases token) (auto simp: handle_tcp_connection_def accept_and_serve_def)

lemma test_mode_claims:
  assumes "test_mode G"
  shows "\<exists>s. connection_claims G found pk = Some (test_claims G s)"
  using assms by (cases found) (auto simp: connection_claims_def production_claims_def Let_def)

lemma trim_connect:
  assumes "\<not> starts_with t (bytes_of ''CONNECT '')" and "str_trim t = t"
  shows "str_trim (trim_start_matches (bytes_of ''CONNECT '') (bytes_of ''CONNECT '' @ t)) = t"
  using assms trim_start_matches_step [of "bytes_of ''CONNECT ''" t] by (simp add: bytes_of_def)

text \<open>The codecs after a frame went from one to the other.\<close>

definition sent :: "frame_codec \<Rightarrow> frame_codec" where
  "sent s = s\<lparr>send_counter := send_counter s + 1\<rparr>"

definition received :: "frame_codec \<Rightarrow> frame_codec \<Rightarrow> frame_codec" where
  "received s r = r\<lparr>recv_replay := fst (replay_check (recv_replay r) (send_counter s)), cstate := count_overlap (cstate r)\<rparr>"

lemma frame_across:
  assumes "aead_correct A" and "linked s r" and "length p \<le> MAX_PAYLOAD" and "send_counter s < REKEY_THRESHOLD"
  shows "healthy w \<Longrightarrow> write_frame A s w p = (sent s, w\<lparr>wbuf := wbuf w @ sealed A s p\<rparr>, Inr ())"
    and "rbuf i = sealed A s p @ rest \<Longrightarrow> read_frame A r i = (received s r, i\<lparr>rbuf := rest\<rparr>, Inr p)"
    and "linked (sent s) (received s r)"
  using write_frame_ok [OF assms(1,3,4)] read_sealed [OF assms(1,3,4) linked_can_open [OF assms(2)]]
    linked_step [OF assms(2,4)]
  by (simp_all add: sent_def received_def)

lemma across_unaffected [simp]:
  "linked x (sent s) = linked x s" "linked (received s r) x = linked r x"
  "sealed A (received s r) q = sealed A r q" "send_counter (received s r) = send_counter r"
  by (simp_all only: sent_def received_def linked_unaffected)

text \<open>The gateway's side on the client's CONNECT message.\<close>

lemma gateway_command_ok:
  assumes A: "aead_correct A" and link: "linked C G" "linked G C" and n: "send_counter C < REKEY_THRESHOLD" "send_counter G < REKEY_THRESHOLD"
    and msg: "utf8_valid (connect_message h p)" "length (connect_message h p) \<le> MAX_PAYLOAD"
      "\<not> starts_with (h @ bytes_of '':'' @ show_port p) (bytes_of ''CONNECT '')"
      "str_trim (h @ bytes_of '':'' @ show_port p) = h @ bytes_of '':'' @ show_port p"
    and reach: "connect_target (h @ bytes_of '':'' @ show_port p) = Inr ()"
    and c: "healthy (out c)" "rbuf (inp c) = sealed A C (connect_message h p)"
  shows "handle_authenticated_client A connect_target now c G cl =
    Tunnel (c\<lparr>inp := (inp c)\<lparr>rbuf := []\<rparr>, out := (out c)\<lparr>wbuf := wbuf (out c) @ sealed A G (bytes_of ''OK'')\<rparr>\<rparr>)
      (sent (received C G)) (server_limiter_new (rate_limit_bps cl) now) (h @ bytes_of '':'' @ show_port p)"
proof -
  let ?msg = "connect_message h p"
  have cm: "?msg = bytes_of ''CONNECT '' @ (h @ bytes_of '':'' @ show_port p)" by (simp add: connect_message_def)
  have "starts_with ?msg (bytes_of ''CONNECT '')" unfolding cm by simp
  moreover have "str_trim (trim_start_matches (bytes_of ''CONNECT '') ?msg) = h @ bytes_of '':'' @ show_port p"
    unfolding cm by (rule trim_connect [OF msg(3,4)])
  moreover have "read_frame A G (inp c) = (received C G, (inp c)\<lparr>rbuf := []\<rparr>, Inr ?msg)"
    using frame_across(2) [OF A link(1) msg(2) n(1), of "inp c" "[]"] c(2) by simp
  moreover have "write_frame A (received C G) (out c) (bytes_of ''OK'') =
      (sent (received C G), (out c)\<lparr>wbuf := wbuf (out c) @ sealed A G (bytes_of ''OK'')\<rparr>, Inr ())"
    using frame_across(1) [OF A, of "received C G" "sent C" "bytes_of ''OK''" "out c"] link n c(1)
    by (simp add: MAX_PAYLOAD_def)
  ultimately show ?thesis using msg(1) reach by (simp add: handle_authenticated_client_def get_rate_limit_from_claims_def Let_def)
qed

text \<open>The client's side on the gateway's answer.\<close>

lemma open_session_ok:
  fixes d es
  assumes A: "aead_correct A" and K: "kex_correct K"
    and keys: "decode_hex32 (server_pub e) = Ret (Some spub)" "decode_hex32 (psk e) = Ret (Some key0)"
    and msg: "length (connect_message h p) \<le> MAX_PAYLOAD" and w: "healthy w"
  defines "C \<equiv> codec_new (kx_hkdf K (kx_dh K (draw_secret d) (kx_public K es)) SESSION_INFO) (draw_c2s d) (draw_s2c d) 0"
    and "G \<equiv> codec_new (kx_hkdf K (kx_dh K (draw_secret d) (kx_public K es)) SESSION_INFO) (draw_s2c d) (draw_c2s d) 0"
  assumes r: "rbuf r = kx_public K es @ sealed A G (bytes_of ''OK'')"
  shows "open_session F A K d e h p r w = Ret (SessionUp \<lparr>tn_codec = received (received C G) (sent C), tn_in = r\<lparr>rbuf := []\<rparr>,
      tn_out = w\<lparr>wbuf := wbuf w @ auth_frame K (draw_secret d) (draw_c2s d) (draw_s2c d) spub key0
        @ sealed A C (connect_message h p)\<rparr>\<rparr>)"
proof -
  let ?w1 = "w\<lparr>wbuf := wbuf w @ auth_frame K (draw_secret d) (draw_c2s d) (draw_s2c d) spub key0\<rparr>"
  have link: "linked C G" "linked G C" by (simp_all add: C_def G_def linked_new)
  have n: "send_counter C < REKEY_THRESHOLD" "send_counter G < REKEY_THRESHOLD"
    by (simp_all add: C_def G_def codec_new_def REKEY_THRESHOLD_def)
  have "write_frame A C ?w1 (connect_message h p) =
      (sent C, ?w1\<lparr>wbuf := wbuf ?w1 @ sealed A C (connect_message h p)\<rparr>, Inr ())"
    using frame_across(1) [OF A link(1) msg n(1), of ?w1] w by simp
  moreover have "read_frame A (sent C) (r\<lparr>rbuf := sealed A G (bytes_of ''OK'')\<rparr>) =
      (received (received C G) (sent C), r\<lparr>rbuf := []\<rparr>, Inr (bytes_of ''OK''))"
    using frame_across(2) [OF A, of "received C G" "sent C" "bytes_of ''OK''" "r\<lparr>rbuf := sealed A G (bytes_of ''OK'')\<rparr>" "[]"] link n
    by (simp add: MAX_PAYLOAD_def)
  ultimately show ?thesis
    using client_handshake_ok [OF w kex_correctD(2) [OF K] r, of K "draw_secret d" "draw_c2s d" "draw_s2c d" spub key0] keys
    by (simp add: open_session_def Let_def C_def [symmetric])
qed

text \<open>
  The codecs of a session after the CONNECT frame and its acknowledgement, on the client's and on
  the gateway's side.
\<close>

abbreviation session_codec :: "kex \<Rightarrow> session_draw \<Rightarrow> bytes \<Rightarrow> bytes \<Rightarrow> bytes \<Rightarrow> frame_codec" where
  "session_codec K d es p q \<equiv> codec_new (kx_hkdf K (kx_dh K (draw_secret d) (kx_public K es)) SESSION_INFO) p q 0"

definition client_codec :: "kex \<Rightarrow> session_draw \<Rightarrow> bytes \<Rightarrow> frame_codec" where
  "client_codec K d es = session_codec K d es (draw_c2s d) (draw_s2c d)"

definition server_codec :: "kex \<Rightarrow> session_draw \<Rightarrow> bytes \<Rightarrow> frame_codec" where
  "server_codec K d es = session_codec K d es (draw_s2c d) (draw_c2s d)"

lemma session_codecs:
  "linked (client_codec K d es) (server_codec K d es)" "linked (server_codec K d es) (client_codec K d es)"
  "send_counter (client_codec K d es) = 0" "send_counter (server_codec K d es) = 0"
  by (simp_all add: client_codec_def server_codec_def linked_new)

lemma relays_linked:
  fixes K d es and msg :: bytes
  defines "C \<equiv> client_codec K d es" and "S \<equiv> server_codec K d es"
  assumes A: "aead_correct A" and len: "length msg \<le> MAX_PAYLOAD"
  shows "linked (received (received C S) (sent C)) (sent (received C S))"
    and "linked (sent (received C S)) (received (received C S) (sent C))"
  using frame_across(3) [OF A _ len, of C S] frame_across(3) [OF A, of "received C S" "sent C" "[]"]
    session_codecs [of K d es, folded C_def S_def] by (simp_all add: REKEY_THRESHOLD_def)

lemma socks_client_served:
  assumes req: "socks_request F sc = (sc1, Inr (h, p))" and conn: "connect_tls N t fo = Ret (fo1, Inr ((r, w), e))"
    and up: "open_session F A K d e h p r w = Ret (SessionUp tn)" and rep: "report_success (others_later d fo1) = Ret fo2"
    and "healthy (out sc1)"
  shows "handle_connection F N A K t d sc fo =
    Ret (fo2, sc1\<lparr>out := (out sc1)\<lparr>wbuf := wbuf (out sc1) @ socks_reply REP_SUCCESS\<rparr>\<rparr>, Inr tn)"
  using assms by (simp add: handle_connection_def bindE_def retE_def sock_write_healthy)

text \<open>
  C1. A browser's request opens a tunnel end to end, with a gateway in test mode (outside it the
  gateway serves nobody, see C38). For a SOCKS request for a domain name, an endpoint whose keys are
  those of the gateway, no timeout of the connection, a target that the gateway can reach and whose
  text its trimming leaves alone, and any first TLS record on which the gateway's parser does not panic, there
  are two byte strings such that, when the TLS connections carry the first to the gateway and the
  second to the client: the proxy answers the browser with the selected method and success, having
  consumed exactly its request; the gateway's handler serves the client, connects to the host and
  port that were requested, with a limiter of three megabytes per second, and sends exactly the second string; the client
  sends exactly the first; and the two relays start in an initial state of the tunnel.
\<close>

theorem browser_request_opens_tunnel:
  fixes h p
  defines "target \<equiv> h @ bytes_of '':'' @ show_port p"
  assumes A: "aead_correct A" and K: "kex_correct K"
    and keys: "decode_hex32 (server_pub e) = Ret (Some (kx_public K (env_server_key G)))"
      "decode_hex32 (psk e) = Ret (Some (env_client_psk G))"
    and gateway: "test_mode G" "hello \<noteq> []" "extract_auth_from_clienthello hello = Ret token"
    and pre: "length (draw_c2s d) = 8" "length (draw_s2c d) = 8"
    and msg: "utf8_valid (connect_message h p)" "length (connect_message h p) \<le> MAX_PAYLOAD"
      "\<not> starts_with target (bytes_of ''CONNECT '')" "str_trim target = target"
    and reach: "connect_target target = Inr ()"
    and fo: "current_endpoint fo = Ret e" "report_success (others_later d (others t fo)) = Ret fo'" and "\<not> timed_out t"
    and sock: "length methods < 256" "0 \<in> set methods" "length h < 256" "utf8_valid h" "healthy (out sc)"
      "rbuf (inp sc) = socks_hello methods @ socks_connect_domain h p @ early"
  shows "\<exists>wire_c wire_g. \<forall>(N :: 'tcp net) r w accept c0 m tw. tls_connect_endpoint N e = Ret (Inr (r, w)) \<and> healthy w \<and> rbuf r = wire_g
      \<and> accept hello = Inr c0 \<and> healthy (out c0) \<and> rbuf (inp c0) = wire_c \<and> wbuf tw = [] \<longrightarrow>
    (\<exists>sc' tn c1 codec cl c2 codec'. handle_connection F N A K t d sc fo = Ret (fo', sc', Inr tn)
      \<and> wbuf (out sc') = wbuf (out sc) @ [SOCKS_VERSION, NO_AUTH] @ socks_reply REP_SUCCESS \<and> rbuf (inp sc') = early
      \<and> wbuf (tn_out tn) = wbuf w @ wire_c
      \<and> handle_tcp_connection (Inr hello) K es (G\<lparr>tls_accept := accept\<rparr>) (m :: 'f metrics) = Ret (m, Serve c1 codec cl)
      \<and> handle_authenticated_client A connect_target now c1 codec cl
          = Tunnel c2 codec' (server_limiter_new (3 * 1024 * 1024) now) target
      \<and> wbuf (out c2) = wbuf (out c0) @ wire_g
      \<and> tunnel_init (tunnel_start tn (out sc') limit c2 codec' (server_limiter_new (3 * 1024 * 1024) now) tw m))"
proof -
  define C where "C = client_codec K d es"
  define S where "S = server_codec K d es"
  note codecs = session_codecs [of K d es, folded C_def S_def]
  let ?msg = "connect_message h p"
  let ?auth = "auth_frame K (draw_secret d) (draw_c2s d) (draw_s2c d) (kx_public K (env_server_key G)) (env_client_psk G)"
  let ?wc = "?auth @ sealed A C ?msg" and ?wg = "kx_public K es @ sealed A S (bytes_of ''OK'')"
  have n: "send_counter C < REKEY_THRESHOLD" "send_counter S < REKEY_THRESHOLD" using codecs by (simp_all add: REKEY_THRESHOLD_def)
  have gw: "\<exists>cl. handle_tcp_connection (Inr hello) K es (G\<lparr>tls_accept := accept\<rparr>) (m :: 'f metrics) =
        Ret (m, Serve (c0\<lparr>inp := (inp c0)\<lparr>rbuf := sealed A C ?msg\<rparr>, out := (out c0)\<lparr>wbuf := wbuf (out c0) @ kx_public K es\<rparr>\<rparr>) S cl) \<and>
      handle_authenticated_client A connect_target now
         (c0\<lparr>inp := (inp c0)\<lparr>rbuf := sealed A C ?msg\<rparr>, out := (out c0)\<lparr>wbuf := wbuf (out c0) @ kx_public K es\<rparr>\<rparr>) S cl =
       Tunnel (c0\<lparr>inp := (inp c0)\<lparr>rbuf := []\<rparr>, out := (out c0)\<lparr>wbuf := wbuf (out c0) @ ?wg\<rparr>\<rparr>)
         (sent (received C S)) (server_limiter_new (3 * 1024 * 1024) now) target"
    if acc: "accept hello = Inr c0" and c0: "healthy (out c0)" "rbuf (inp c0) = ?wc" for accept c0 m
  proof -
    let ?G = "G\<lparr>tls_accept := accept\<rparr>"
    obtain s where s: "connection_claims ?G (token \<noteq> None) (kx_public K (draw_secret d)) = Some (test_claims ?G s)"
      using test_mode_claims [of ?G] gateway(1) by auto
    have "handle_tcp_connection (Inr hello) K es ?G m = Ret (gateway_session K es ?G (token \<noteq> None) c0 m)"
      by (rule handle_tcp_session) (use gateway acc in simp_all)
    moreover note gateway_session_ok [where G = ?G and rest = "sealed A C ?msg" and es = es and found = "token \<noteq> None" and m = m,
      OF K pre c0(1), simplified, OF c0(2) [simplified]]
    ultimately show ?thesis
      using s gateway_command_ok [where connect_target = connect_target and cl = "test_claims ?G s", OF A codecs(1,2) n msg(1,2)
        msg(3,4) [unfolded target_def] reach [unfolded target_def]] c0(1)
      by (simp add: S_def server_codec_def kex_correctD(1) [OF K] target_def test_claims_def)
  qed
  have cl: "open_session F A K d e h p r w = Ret (SessionUp \<lparr>tn_codec = received (received C S) (sent C), tn_in = r\<lparr>rbuf := []\<rparr>,
      tn_out = w\<lparr>wbuf := wbuf w @ ?wc\<rparr>\<rparr>)" if "healthy w" "rbuf r = ?wg" for r w
    using open_session_ok [OF A K keys msg(2) that(1), of r es d F] that(2) by (simp add: C_def S_def client_codec_def server_codec_def)
  note req = socks_domain_request [OF sock, of F]
  have conn: "connect_tls N t fo = Ret (others t fo, Inr ((r, w), e))" if "tls_connect_endpoint N e = Ret (Inr (r, w))" for N r w
    using fo(1) assms(18) that by (simp add: connect_tls_def)
  note links = relays_linked [OF A msg(2), of K d es, folded C_def S_def]
  have one: "send_counter (sent x) = send_counter x + 1" for x by (simp add: sent_def)
  show ?thesis
  proof (rule exI [of _ ?wc], rule exI [of _ ?wg], intro allI impI, elim conjE)
    fix N :: "'tcp net" and r :: reader and w tw :: writer and accept :: "bytes \<Rightarrow> io_error + conn" and c0 :: conn and m :: "'f metrics"
    assume net: "tls_connect_endpoint N e = Ret (Inr (r, w))" "healthy w" "rbuf r = ?wg"
      and c0: "accept hello = Inr c0" "healthy (out c0)" "rbuf (inp c0) = ?wc"
      and tw: "wbuf tw = []"
    note hc = socks_client_served [OF req conn [OF net(1)] cl [OF net(2,3)] fo(2)]
    obtain cl where cl: "handle_tcp_connection (Inr hello) K es (G\<lparr>tls_accept := accept\<rparr>) m =
        Ret (m, Serve (c0\<lparr>inp := (inp c0)\<lparr>rbuf := sealed A C ?msg\<rparr>, out := (out c0)\<lparr>wbuf := wbuf (out c0) @ kx_public K es\<rparr>\<rparr>) S cl)"
      "handle_authenticated_client A connect_target now
         (c0\<lparr>inp := (inp c0)\<lparr>rbuf := sealed A C ?msg\<rparr>, out := (out c0)\<lparr>wbuf := wbuf (out c0) @ kx_public K es\<rparr>\<rparr>) S cl =
       Tunnel (c0\<lparr>inp := (inp c0)\<lparr>rbuf := []\<rparr>, out := (out c0)\<lparr>wbuf := wbuf (out c0) @ ?wg\<rparr>\<rparr>)
         (sent (received C S)) (server_limiter_new (3 * 1024 * 1024) now) target"
      using gw [where accept = accept and m = m, OF c0] by blast
    show "\<exists>sc' tn c1 codec cl c2 codec'. handle_connection F N A K t d sc fo = Ret (fo', sc', Inr tn)
      \<and> wbuf (out sc') = wbuf (out sc) @ [SOCKS_VERSION, NO_AUTH] @ socks_reply REP_SUCCESS \<and> rbuf (inp sc') = early
      \<and> wbuf (tn_out tn) = wbuf w @ ?wc
      \<and> handle_tcp_connection (Inr hello) K es (G\<lparr>tls_accept := accept\<rparr>) m = Ret (m, Serve c1 codec cl)
      \<and> handle_authenticated_client A connect_target now c1 codec cl
          = Tunnel c2 codec' (server_limiter_new (3 * 1024 * 1024) now) target
      \<and> wbuf (out c2) = wbuf (out c0) @ ?wg
      \<and> tunnel_init (tunnel_start tn (out sc') limit c2 codec' (server_limiter_new (3 * 1024 * 1024) now) tw m)"
      using hc sock(5) cl net(2) c0(2) tw links codecs
      by (auto simp: tunnel_init_def tunnel_start_def socks_consts one REKEY_THRESHOLD_def)
  qed
qed

definition e2e_endpoint :: endpoint_config where
  "e2e_endpoint = \<lparr>host = bytes_of ''gw'', port = 443, sni = bytes_of ''cdn'',
     server_pub = hex_encode (kx_public toy_kex [6]), psk = hex_encode (replicate 32 8)\<rparr>"

definition e2e_gateway :: gateway_env where
  "e2e_gateway = (sample_gateway True [])\<lparr>env_client_psk := replicate 32 8\<rparr>"

definition e2e_net :: "bytes \<Rightarrow> unit net" where
  "e2e_net answer = \<lparr>net_tcp = (\<lambda>a. Inr ()), net_valid_name = (\<lambda>n. True), net_tls = (\<lambda>n u. Inr (cursor answer, vec_writer))\<rparr>"

lemma e2e_net_connects: "tls_connect_endpoint (e2e_net answer) e = Ret (Inr (cursor answer, vec_writer))"
  by (simp add: tls_connect_endpoint_def tls_new_def tls_connect_def e2e_net_def current_sni_def rotate_sni_def)

theorem browser_request_opens_tunnel_witness:
  "\<exists>wire_g c0 fo' sc' tn c1 codec cl. handle_connection ascii_fmt (e2e_net wire_g) toy_aead toy_kex (sample_attempt False) sample_draw
     sample_socks (failover_new [e2e_endpoint]) = Ret (fo', sc', Inr tn) \<and> rbuf (inp sc') = []
   \<and> handle_tcp_connection (Inr [0]) toy_kex [5] (e2e_gateway\<lparr>tls_accept := \<lambda>_. Inr c0\<rparr>) metrics_new
       = Ret (metrics_new :: nat metrics, Serve c1 codec cl)"
proof -
  have keys: "decode_hex32 (server_pub e2e_endpoint) = Ret (Some (kx_public toy_kex (env_server_key e2e_gateway)))"
    "decode_hex32 (psk e2e_endpoint) = Ret (Some (env_client_psk e2e_gateway))" by code_simp+
  have pre: "length (draw_c2s sample_draw) = 8" "length (draw_s2c sample_draw) = 8" by (simp_all add: sample_draw_def)
  have len: "length (connect_message (bytes_of ''a.b'') 443) \<le> MAX_PAYLOAD"
    by (simp add: connect_message_def show_port_def MAX_PAYLOAD_def show_nat.simps)
  have msg: "utf8_valid (connect_message (bytes_of ''a.b'') 443)"
    "\<not> starts_with (bytes_of ''a.b'' @ bytes_of '':'' @ show_port 443) (bytes_of ''CONNECT '')"
    "str_trim (bytes_of ''a.b'' @ bytes_of '':'' @ show_port 443) = bytes_of ''a.b'' @ bytes_of '':'' @ show_port 443"
    "utf8_valid (bytes_of ''a.b'')"
    by code_simp+
  have fo: "current_endpoint (failover_new [e2e_endpoint]) = Ret e2e_endpoint"
    "\<not> timed_out (sample_attempt False)" by code_simp+
  obtain fo' where rep: "report_success (others_later sample_draw (others (sample_attempt False) (failover_new [e2e_endpoint]))) = Ret fo'"
    by (simp add: report_success_def failover_new_def sample_draw_def sample_attempt_def Let_def)
  have socks: "length [0 :: u8] < 256" "(0 :: u8) \<in> set [0]" "length (bytes_of ''a.b'') < 256" "healthy (out sample_socks)"
    "rbuf (inp sample_socks) = socks_hello [0] @ socks_connect_domain (bytes_of ''a.b'') 443 @ []"
    by (simp_all add: sample_socks_def sample_client_def cursor_def)
  have hello: "test_mode e2e_gateway" "[0] \<noteq> ([] :: u8 list)" "extract_auth_from_clienthello [0] = Ret None"
    by (simp add: e2e_gateway_def sample_gateway_def, simp, code_simp)
  obtain wire_c wire_g where w: "\<forall>N r w accept (c0 :: conn) (m :: nat metrics) (tw :: writer).
      tls_connect_endpoint N e2e_endpoint = Ret (Inr (r, w)) \<and> healthy w \<and> rbuf r = wire_g
      \<and> accept [0] = Inr c0 \<and> healthy (out c0) \<and> rbuf (inp c0) = wire_c \<and> wbuf tw = [] \<longrightarrow>
      (\<exists>sc' tn c1 codec cl. handle_connection ascii_fmt (N :: unit net) toy_aead toy_kex (sample_attempt False) sample_draw sample_socks
          (failover_new [e2e_endpoint]) = Ret (fo', sc', Inr tn) \<and> rbuf (inp sc') = []
        \<and> handle_tcp_connection (Inr [0]) toy_kex [5] (e2e_gateway\<lparr>tls_accept := accept\<rparr>) m = Ret (m, Serve c1 codec cl))"
    using browser_request_opens_tunnel [where connect_target = "\<lambda>_. Inr ()" and F = ascii_fmt and es = "[5]" and now = 0 and limit = None
        and 'f = nat, OF toy_aead_correct toy_kex_correct keys hello pre msg(1) len msg(2,3) refl fo(1) rep fo(2) socks(1-3) msg(4) socks(4,5)]
    by (elim exE) (rule that, (erule all_forward)+, erule imp_forward, assumption, blast)
  let ?c0 = "\<lparr>inp = cursor wire_c, out = vec_writer\<rparr>"
  have "healthy (out ?c0) \<and> rbuf (inp ?c0) = wire_c \<and> rbuf (cursor wire_g) = wire_g \<and> wbuf vec_writer = []"
    by (simp add: cursor_def vec_writer_def healthy_def)
  with w [rule_format, of "e2e_net wire_g" "cursor wire_g" vec_writer "\<lambda>_. Inr ?c0" ?c0 vec_writer metrics_new]
    e2e_net_connects [of wire_g e2e_endpoint] healthy_vec_writer show ?thesis by blast
qed

text \<open>
  C4. A deployment agrees on its keys. Let a gateway have started with given arguments, in test mode
  or not, and a client's endpoint have been written for it: its server key is what the helper
  program prints for the gateway's private key, its pre-shared key the text passed to the gateway
  (in test mode, the fixed keys). Then the client decodes keys with which its first frame, in a
  connection whose first record the parser passes on to TLS, is accepted by the gateway's handler: the
  gateway answers with its ephemeral key; in test mode it serves the client, with the very session key
  that the client derives from the answer; outside test mode the subscription check alone decides
  between that and a refusal (C38 shows that it always refuses).
\<close>

theorem configured_client_authenticates:
  assumes K: "kex_correct K" and start: "gateway_startup L a = Inr c" and conf: "client_configured K a e"
    and pre: "length c2s = 8" "length s2c = 8"
    and hello: "hello \<noteq> []" "extract_auth_from_clienthello hello = Ret token" "ga_test_mode a \<or> token \<noteq> None"
  shows "\<exists>spub key0 key. decode_hex32 (server_pub e) = Ret (Some spub) \<and> decode_hex32 (psk e) = Ret (Some key0)
    \<and> (\<forall>c0 m. accept (gc_tls c) hello = Inr c0 \<and> healthy (out c0) \<and> rbuf (inp c0) = auth_frame K cs c2s s2c spub key0 \<longrightarrow>
         (let G = gateway_env_of c accept J hex now;
              c1 = c0\<lparr>inp := (inp c0)\<lparr>rbuf := []\<rparr>, out := (out c0)\<lparr>wbuf := wbuf (out c0) @ kx_public K es\<rparr>\<rparr>;
              serve = Serve c1 (codec_new key s2c c2s 0)
          in handle_tcp_connection (Inr hello) K es G (m :: 'f metrics) =
               Ret (m, if ga_test_mode a
                       then serve (test_claims G (if token = None then ''test'' else hex (take 8 (kx_public K cs))))
                       else (case validate_subscription_token G (hex (take 8 (kx_public K cs))) of
                               Some cl \<Rightarrow> serve cl | None \<Rightarrow> Rejected (send_unified_error_tls c1) AuthFailed))))
    \<and> (\<forall>r w rest. healthy w \<and> rbuf r = kx_public K es @ rest \<longrightarrow>
         (\<exists>r' w'. establish_session K cs c2s s2c spub 0 key0 r w = (r', w', Inr (codec_new key c2s s2c 0))
            \<and> wbuf w' = wbuf w @ auth_frame K cs c2s s2c spub key0))"
proof -
  let ?G = "gateway_env_of c accept J hex now"
  let ?spub = "kx_public K (gc_server_key c)" and ?kpre = "gc_client_psk c"
  let ?key = "kx_hkdf K (kx_dh K es (kx_public K cs)) SESSION_INFO"
  note keys = client_configured_keys [OF K start conf]
  have test: "test_mode ?G = ga_test_mode a" using gateway_startup_test_keys(1) [OF start] by (simp add: gateway_env_of_def)
  have "let c1 = c0\<lparr>inp := (inp c0)\<lparr>rbuf := []\<rparr>, out := (out c0)\<lparr>wbuf := wbuf (out c0) @ kx_public K es\<rparr>\<rparr>;
            serve = Serve c1 (codec_new ?key s2c c2s 0)
      in handle_tcp_connection (Inr hello) K es ?G (m :: 'f metrics) =
           Ret (m, if ga_test_mode a
                   then serve (test_claims ?G (if token = None then ''test'' else hex (take 8 (kx_public K cs))))
                   else (case validate_subscription_token ?G (hex (take 8 (kx_public K cs))) of
                           Some cl \<Rightarrow> serve cl | None \<Rightarrow> Rejected (send_unified_error_tls c1) AuthFailed))"
    if acc: "accept (gc_tls c) hello = Inr c0" and c0: "healthy (out c0)" "rbuf (inp c0) = auth_frame K cs c2s s2c ?spub ?kpre" for c0 m
  proof -
    have "handle_tcp_connection (Inr hello) K es ?G m = Ret (gateway_session K es ?G (token \<noteq> None) c0 m)"
      by (rule handle_tcp_session) (use hello test acc in \<open>simp_all add: gateway_env_of_def\<close>)
    moreover have "rbuf (inp c0) = auth_frame K cs c2s s2c (kx_public K (env_server_key ?G)) (env_client_psk ?G) @ []"
      using c0(2) by (simp add: gateway_env_of_def)
    note gateway_session_ok [OF K pre c0(1) this, where es = es and found = "token \<noteq> None" and m = m]
    moreover have "env_hex_encode ?G = hex" by (simp add: gateway_env_of_def)
    ultimately show ?thesis
      using hello(3) test by (auto simp: connection_claims_def production_claims_def Let_def)
  qed
  moreover have "\<exists>r' w'. establish_session K cs c2s s2c ?spub 0 ?kpre r w = (r', w', Inr (codec_new ?key c2s s2c 0))
      \<and> wbuf w' = wbuf w @ auth_frame K cs c2s s2c ?spub ?kpre"
    if "healthy w" "rbuf r = kx_public K es @ rest" for r w rest
    using client_handshake_ok [OF that(1) kex_correctD(2) [OF K] that(2), of K cs c2s s2c ?spub ?kpre]
    by (simp add: establish_session_def kex_correctD(1) [OF K, of cs es])
  ultimately show ?thesis using keys unfolding Let_def by blast
qed

definition sample_host :: "(unit, unit, unit) host_lib" where
  "sample_host = \<lparr>fs_read = (\<lambda>_. Inr []), pem_certs = (\<lambda>_. Inr [()]), pem_private_key = (\<lambda>_. Inr (Some ())),
     with_single_cert = (\<lambda>_ _. Inr ()), tcp_bind = (\<lambda>_. Inr ())\<rparr>"

definition deployed_args :: gateway_args where
  "deployed_args = \<lparr>ga_bind = (V4 0, 443), ga_cert = ''c'', ga_key = ''k'', ga_secret = replicate 64 0x61,
     ga_server_private_key = replicate 64 0x62, ga_fallback_cdn = [], ga_jwt_secret = ''j'', ga_hmac_key = replicate 64 0x61,
     ga_client_psk = Some (replicate 64 0x63), ga_metrics_bind = (V4 0, 9090), ga_test_mode = False\<rparr>"

definition deployed_endpoint :: endpoint_config where
  "deployed_endpoint = \<lparr>host = bytes_of ''gw'', port = 443, sni = bytes_of ''cdn'',
     server_pub = hex_encode (kx_public toy_kex (replicate 32 0xBB)), psk = replicate 64 0x63\<rparr>"

definition deployed_record :: bytes where
  "deployed_record = client_hello_record (client_hello_body [3, 3] (replicate 32 7) (replicate 32 9) [0, 0, 0])"

theorem configured_client_authenticates_witness:
  "\<exists>spub key0 key c0 v r w. decode_hex32 (server_pub deployed_endpoint) = Ret (Some spub)
     \<and> decode_hex32 (psk deployed_endpoint) = Ret (Some key0)
     \<and> rbuf (inp c0) = auth_frame toy_kex [7] (replicate 8 1) (replicate 8 2) spub key0
     \<and> (\<exists>c. gateway_startup sample_host deployed_args = Inr c
           \<and> handle_tcp_connection (Inr deployed_record) toy_kex [5] (gateway_env_of c (\<lambda>_ _. Inr c0) toy_jwt (\<lambda>_. []) 0) metrics_new
               = Ret (metrics_new :: nat metrics, v))
     \<and> establish_session toy_kex [7] (replicate 8 1) (replicate 8 2) spub 0 key0 (cursor (kx_public toy_kex [5])) vec_writer
         = (r, w, Inr (codec_new key (replicate 8 1) (replicate 8 2) 0))"
proof -
  have dec: "parse_hex_key (replicate 64 0x61) = Inr (replicate 32 0xAA)" "parse_hex_key (replicate 64 0x62) = Inr (replicate 32 0xBB)"
    "parse_hex_key (replicate 64 0x63) = Inr (replicate 32 0xCC)" by code_simp+
  obtain c where c: "gateway_startup sample_host deployed_args = Inr c"
    by (simp add: gateway_startup_def deployed_args_def sample_host_def load_tls_config_def key_arg_def psk_arg_def dec Let_def)
  have conf: "client_configured toy_kex deployed_args deployed_endpoint"
    using compute_pubkey_key [OF dec(2), of toy_kex] by (simp add: client_configured_def deployed_args_def deployed_endpoint_def)
  have hello: "deployed_record \<noteq> []" "extract_auth_from_clienthello deployed_record = Ret (Some (replicate 32 9, deployed_record))"
    by code_simp+
  define c0 where "c0 = \<lparr>inp = cursor (auth_frame toy_kex [7] (replicate 8 1) (replicate 8 2)
      (kx_public toy_kex (gc_server_key c)) (gc_client_psk c)), out = vec_writer\<rparr>"
  obtain spub key0 key where k: "decode_hex32 (server_pub deployed_endpoint) = Ret (Some spub)"
      "decode_hex32 (psk deployed_endpoint) = Ret (Some key0)"
      "\<forall>c0' m. (\<lambda>_ _. Inr c0 :: io_error + conn) (gc_tls c) deployed_record = Inr c0' \<and> healthy (out c0')
         \<and> rbuf (inp c0') = auth_frame toy_kex [7] (replicate 8 1) (replicate 8 2) spub key0 \<longrightarrow>
         (\<exists>v. handle_tcp_connection (Inr deployed_record) toy_kex [5] (gateway_env_of c (\<lambda>_ _. Inr c0) toy_jwt (\<lambda>_. []) 0) m
            = Ret (m :: nat metrics, v))"
      "\<forall>r w rest. healthy w \<and> rbuf r = kx_public toy_kex [5] @ rest \<longrightarrow>
        (\<exists>r' w'. establish_session toy_kex [7] (replicate 8 1) (replicate 8 2) spub 0 key0 r w
           = (r', w', Inr (codec_new key (replicate 8 1) (replicate 8 2) 0)))"
    using configured_client_authenticates [OF toy_kex_correct c conf, of "replicate 8 1" "replicate 8 2" deployed_record
        "Some (replicate 32 9, deployed_record)", where accept = "\<lambda>_ _. Inr c0" and cs = "[7]" and es = "[5]" and J = toy_jwt
        and hex = "\<lambda>_. []" and now = 0 and 'f = nat] hello
    unfolding Let_def by fastforce
  have same: "spub = kx_public toy_kex (gc_server_key c)" "key0 = gc_client_psk c"
    using client_configured_keys [OF toy_kex_correct c conf] k(1,2) by simp_all
  have c0: "healthy (out c0)" "rbuf (inp c0) = auth_frame toy_kex [7] (replicate 8 1) (replicate 8 2) spub key0"
    by (simp_all add: c0_def same cursor_def vec_writer_def healthy_def)
  have "rbuf (cursor (kx_public toy_kex [5])) = kx_public toy_kex [5] @ []" by (simp add: cursor_def)
  with k(4) obtain r w where "establish_session toy_kex [7] (replicate 8 1) (replicate 8 2) spub 0 key0
      (cursor (kx_public toy_kex [5])) vec_writer = (r, w, Inr (codec_new key (replicate 8 1) (replicate 8 2) 0))"
    by (meson healthy_vec_writer)
  moreover obtain v where "handle_tcp_connection (Inr deployed_record) toy_kex [5] (gateway_env_of c (\<lambda>_ _. Inr c0) toy_jwt (\<lambda>_. []) 0)
      metrics_new = Ret (metrics_new :: nat metrics, v)"
    using k(3) c0 by blast
  ultimately show ?thesis using k(1,2) c0(2) c by blast
qed

text \<open>
  C20. A target can rekey the client: the gateway relays a chunk from the target as an ordinary data
  frame, and the client's relay takes any frame that starts with the rekey magic for a rekey
  message. A target that sends the magic, an identifier and 32 bytes therefore makes the client
  install a key of the target's choice, acknowledge it, and withhold the chunk from its user,
  while the gateway, which asked for nothing, does not know the new identifier.
\<close>

theorem target_can_rekey_client:
  fixes k key rest
  defines "chunk \<equiv> REKEY_INIT_MAGIC @ [k] @ key @ rest"
  assumes A: "aead_correct A" and link: "linked (gw_codec g) (rl_codec st)" and key: "length key = 32"
    and len: "length chunk \<le> MAX_PAYLOAD"
    and n: "send_counter (gw_codec g) < REKEY_THRESHOLD" "send_counter (rl_codec st) < REKEY_THRESHOLD"
    and k: "k \<noteq> codec_kid (gw_codec g)" and "\<not> is_rekey_overlap (gw_codec g)"
    and grant: "wait_until server_try_consume (of_nat (length chunk)) polls (gw_limit g) = Some (l, t)"
    and w: "healthy (out (gw_conn g))" "healthy (rl_gw_out st)"
    and buf: "rbuf (rl_gw_in st) = sealed A (gw_codec g) chunk"
  shows "\<exists>g' st'. gw_step A g m (FromTarget 0 polls (Inr chunk)) = GwRunning g' m
    \<and> wbuf (out (gw_conn g')) = wbuf (out (gw_conn g)) @ sealed A (gw_codec g) chunk
    \<and> relay_step A st (GatewayRead ps) = Running st'
    \<and> rl_client st' = rl_client st
    \<and> codec_kid (rl_codec st') = k \<and> cipher (cstate (rl_codec st')) = key
    \<and> select_key (cstate (gw_codec g')) k = None"
proof -
  have "chunk \<noteq> []" by (simp add: chunk_def)
  have "write_frame A (gw_codec g) (out (gw_conn g)) chunk =
      (sent (gw_codec g), (out (gw_conn g))\<lparr>wbuf := wbuf (out (gw_conn g)) @ sealed A (gw_codec g) chunk\<rparr>, Inr ())"
    by (rule frame_across(1) [OF A link len n(1) w(1)])
  then have gw: "gw_step A g m (FromTarget 0 polls (Inr chunk)) =
      GwRunning (g\<lparr>gw_limit := l, gw_codec := sent (gw_codec g), gw_conn := (gw_conn g)\<lparr>out :=
        (out (gw_conn g))\<lparr>wbuf := wbuf (out (gw_conn g)) @ sealed A (gw_codec g) chunk\<rparr>\<rparr>\<rparr>) m"
    using grant \<open>chunk \<noteq> []\<close> by simp
  let ?c = "received (gw_codec g) (rl_codec st)"
  have rd: "read_frame A (rl_codec st) (rl_gw_in st) = (?c, (rl_gw_in st)\<lparr>rbuf := []\<rparr>, Inr chunk)"
    using frame_across(2) [OF A link len n(1), of "rl_gw_in st" "[]"] buf by simp
  have magic: "take 6 chunk = REKEY_INIT_MAGIC" "chunk ! 6 = k" "take 32 (drop 7 chunk) = key" "39 \<le> length chunk"
    using key by (simp_all add: chunk_def nth_append)
  have ack: "write_frame A ?c (rl_gw_out st) (REKEY_ACK_MAGIC @ [k]) =
      (sent ?c, (rl_gw_out st)\<lparr>wbuf := wbuf (rl_gw_out st) @ sealed A ?c (REKEY_ACK_MAGIC @ [k])\<rparr>, Inr ())"
    using n(2) w(2) by (intro write_frame_ok [OF A, folded sent_def]) (simp_all add: MAX_PAYLOAD_def)
  have "relay_step A st (GatewayRead ps) = Running (st\<lparr>rl_codec := start_rekey (sent ?c) k key,
      rl_gw_in := (rl_gw_in st)\<lparr>rbuf := []\<rparr>,
      rl_gw_out := (rl_gw_out st)\<lparr>wbuf := wbuf (rl_gw_out st) @ sealed A ?c (REKEY_ACK_MAGIC @ [k])\<rparr>\<rparr>)"
    using rd magic ack by (simp add: relay_rekey_def Let_def)
  moreover have "select_key (cstate (sent (gw_codec g))) k = None"
    using k assms(9) by (auto simp: sent_def select_key_def codec_kid_def is_rekey_overlap_def split: option.split)
  ultimately show ?thesis using gw by (simp add: codec_kid_def start_rekey_def Let_def)
qed

definition injected :: bytes where
  "injected = REKEY_INIT_MAGIC @ [1] @ replicate 32 9 @ []"

definition sample_gw :: gw_relay where
  "sample_gw = \<lparr>gw_codec = sample_codec, gw_conn = \<lparr>inp = cursor [], out = vec_writer\<rparr>, gw_target = vec_writer,
     gw_limit = server_limiter_new 1000 0\<rparr>"

theorem target_can_rekey_client_witness:
  "\<exists>st'. relay_step toy_aead (sample_relay (sealed toy_aead sample_codec injected)) (GatewayRead []) = Running st'
    \<and> rl_client st' = vec_writer \<and> cipher (cstate (rl_codec st')) = replicate 32 9"
proof -
  let ?st = "sample_relay (sealed toy_aead sample_codec injected)"
  have link: "linked (gw_codec sample_gw) (rl_codec ?st)"
    by (simp add: sample_gw_def sample_relay_def sample_codec_def sample_peer_def linked_new)
  have len: "length (REKEY_INIT_MAGIC @ [1] @ replicate 32 9 @ []) \<le> MAX_PAYLOAD" by (simp add: MAX_PAYLOAD_def)
  have n: "send_counter (gw_codec sample_gw) < REKEY_THRESHOLD" "send_counter (rl_codec ?st) < REKEY_THRESHOLD"
    by (simp_all add: sample_gw_def sample_relay_def sample_codec_def sample_peer_def codec_new_def REKEY_THRESHOLD_def)
  have k: "1 \<noteq> codec_kid (gw_codec sample_gw)" "\<not> is_rekey_overlap (gw_codec sample_gw)"
    by (simp_all add: sample_gw_def codec_kid_def is_rekey_overlap_def sample_codec_def codec_new_def)
  obtain l t where grant: "wait_until server_try_consume (of_nat (length (REKEY_INIT_MAGIC @ [1] @ replicate 32 9 @ []))) [0] (gw_limit sample_gw) = Some (l, t)"
    by (simp add: sample_gw_def server_limiter_new_def server_try_consume_def server_refill_def second_def)
  from target_can_rekey_client [OF toy_aead_correct link _ len n k grant, of "metrics_new :: nat metrics" "[]"]
  show ?thesis by (auto simp: sample_gw_def sample_relay_def cursor_def injected_def simp del: relay_step.simps gw_step.simps)
qed

end
